(* ===== verification/Prelude.thy ===== *)
theory Prelude
  imports Main "HOL-Library.Word"
begin

text \<open>
  Shared vocabulary of the development: the Rust types the components use
  (bytes, slices, fixed-width integers and their byte encodings), the outcome
  type of code that can panic, the random-byte source, and the generic lemmas
  on lists and words that the component theories rely on.
\<close>

unbundle bit_operations_syntax

named_theorems layout_simps \<open>constants that fix byte offsets and lengths\<close>

named_theorems codec_simps \<open>round trips of the integer encodings\<close>

type_synonym byte = "8 word"
type_synonym bytes = "byte list"
type_synonym u16 = "16 word"
type_synonym u32 = "32 word"
type_synonym i16 = "16 word" \<comment> \<open>two's complement, read with \<open>sint\<close>\<close>

section \<open>Outcomes of code that may panic\<close>

text \<open>
  \<open>Panic\<close> is an unwinding Rust panic (\<open>expect\<close>, \<open>unwrap\<close>, an out-of-range index).
  \<open>Starved\<close> is not a behaviour of the program: it says that the finite list of
  random bytes the model was given ran out before the code's retry loop ended.
\<close>

datatype 'a run = Done 'a | Panic | Starved

definition run_bind :: "'a run \<Rightarrow> ('a \<Rightarrow> 'b run) \<Rightarrow> 'b run" where
  "run_bind m k = (case m of Done x \<Rightarrow> k x | Panic \<Rightarrow> Panic | Starved \<Rightarrow> Starved)"

lemma run_bind_simps [simp]:
  "run_bind (Done x) k = k x"
  "run_bind Panic k = Panic"
  "run_bind Starved k = Starved"
  by (simp_all add: run_bind_def)

lemma run_bind_eq_Done:
  "run_bind m k = Done y \<longleftrightarrow> (\<exists>x. m = Done x \<and> k x = Done y)"
  by (cases m) auto

definition run_of_option :: "'a option \<Rightarrow> 'a run" where
  "run_of_option x = (case x of Some y \<Rightarrow> Done y | None \<Rightarrow> Panic)"

lemma run_of_option_simps [simp]:
  "run_of_option (Some y) = Done y"
  "run_of_option None = Panic"
  by (simp_all add: run_of_option_def)

section \<open>Random bytes\<close>

text \<open>\<open>fill_bytes n\<close> takes the next \<open>n\<close> bytes the generator produces.\<close>

definition fill_bytes :: "nat \<Rightarrow> bytes \<Rightarrow> (bytes \<times> bytes) run" where
  "fill_bytes n rng = (if n \<le> length rng then Done (take n rng, drop n rng) else Starved)"

lemma fill_bytes_append [simp]:
  "length xs = n \<Longrightarrow> fill_bytes n (xs @ rng) = Done (xs, rng)"
  by (simp add: fill_bytes_def)

lemma fill_bytes_Done:
  "fill_bytes n rng = Done (xs, rest) \<Longrightarrow> rng = xs @ rest \<and> length xs = n"
  by (auto simp: fill_bytes_def split: if_splits)

section \<open>Slices\<close>

text \<open>\<open>subrange i j xs\<close> is Rust's \<open>&xs[i..j]\<close> for an in-range \<open>i \<le> j\<close>.\<close>

definition subrange :: "nat \<Rightarrow> nat \<Rightarrow> 'a list \<Rightarrow> 'a list" where
  "subrange i j xs = take (j - i) (drop i xs)"

lemma length_subrange [simp]: "j \<le> length xs \<Longrightarrow> length (subrange i j xs) = j - i"
  by (auto simp: subrange_def)

lemma nth_subrange: "i + k < j \<Longrightarrow> j \<le> length xs \<Longrightarrow> subrange i j xs ! k = xs ! (i + k)"
  by (simp add: subrange_def)

lemma subrange_append_subrange:
  "i \<le> j \<Longrightarrow> j \<le> k \<Longrightarrow> subrange i j xs @ subrange j k xs = subrange i k xs"
proof -
  assume a: "i \<le> j" "j \<le> k"
  then have "subrange i k xs = take ((j - i) + (k - j)) (drop i xs)"
    by (simp add: subrange_def)
  also have "\<dots> = subrange i j xs @ subrange j k xs"
    using a by (simp only: take_add) (simp add: subrange_def)
  finally show ?thesis by simp
qed

lemma subrange_subrange:
  "j' \<le> j - i \<Longrightarrow> subrange i' j' (subrange i j xs) = subrange (i + i') (i + j') xs"
  by (auto simp: subrange_def drop_take min_def add.commute)

lemma subrange_full [simp]: "length xs \<le> j \<Longrightarrow> subrange 0 j xs = xs"
  by (simp add: subrange_def)

lemma subrange_append_left: "j \<le> length xs \<Longrightarrow> subrange i j (xs @ ys) = subrange i j xs"
  by (auto simp: subrange_def)

lemma subrange_append_right:
  "length xs \<le> i \<Longrightarrow> subrange i j (xs @ ys) = subrange (i - length xs) (j - length xs) ys"
  by (simp add: subrange_def)

lemma subrange_eqI:
  assumes "length xs = length ys" "j \<le> length xs"
    and "\<And>k. i \<le> k \<Longrightarrow> k < j \<Longrightarrow> xs ! k = ys ! k"
  shows "subrange i j xs = subrange i j ys"
  using assms by (intro nth_equalityI) (auto simp: nth_subrange)

text \<open>\<open>overwrite i ys xs\<close> is \<open>xs[i..i + ys.len()].copy_from_subrange(ys)\<close>.\<close>

definition overwrite :: "nat \<Rightarrow> 'a list \<Rightarrow> 'a list \<Rightarrow> 'a list" where
  "overwrite i ys xs = take i xs @ ys @ drop (i + length ys) xs"

lemma length_overwrite [simp]:
  "i + length ys \<le> length xs \<Longrightarrow> length (overwrite i ys xs) = length xs"
  by (simp add: overwrite_def)

lemma nth_overwrite:
  assumes "i + length ys \<le> length xs" "k < length xs"
  shows "overwrite i ys xs ! k =
    (if i \<le> k \<and> k < i + length ys then ys ! (k - i) else xs ! k)"
proof -
  have split: "xs = take i xs @ take (length ys) (drop i xs) @ drop (i + length ys) xs"
    by (metis append_assoc append_take_drop_id take_add)
  show ?thesis
    using assms by (auto simp: overwrite_def nth_append not_less)
qed

lemma subrange_overwrite_same:
  "i + length ys \<le> length xs \<Longrightarrow> subrange i (i + length ys) (overwrite i ys xs) = ys"
  by (simp add: subrange_def overwrite_def)

lemma overwrite_overwrite:
  "i + length ys \<le> length xs \<Longrightarrow> length zs = length ys \<Longrightarrow>
   overwrite i zs (overwrite i ys xs) = overwrite i zs xs"
  by (simp add: overwrite_def)

lemma overwrite_subrange:
  "i + n \<le> length xs \<Longrightarrow> overwrite i (subrange i (i + n) xs) xs = xs"
  by (simp add: overwrite_def subrange_def)
     (metis append_assoc append_take_drop_id take_add)

text \<open>A counted loop \<open>for i in 0..n { xs[b + i] = f(i) }\<close>.\<close>

definition write_loop :: "nat \<Rightarrow> nat \<Rightarrow> (nat \<Rightarrow> 'a) \<Rightarrow> 'a list \<Rightarrow> 'a list" where
  "write_loop b n f xs = fold (\<lambda>i r. r[b + i := f i]) [0..<n] xs"

lemma length_write_loop [simp]: "length (write_loop b n f xs) = length xs"
  by (induction n) (simp_all add: write_loop_def)

lemma write_loop_cong:
  "(\<And>i. i < n \<Longrightarrow> f i = g i) \<Longrightarrow> write_loop b n f xs = write_loop b n g xs"
  unfolding write_loop_def by (rule fold_cong) auto

lemma nth_write_loop:
  "b + n \<le> length xs \<Longrightarrow> k < length xs \<Longrightarrow>
   write_loop b n f xs ! k = (if b \<le> k \<and> k < b + n then f (k - b) else xs ! k)"
proof (induction n)
  case 0
  then show ?case by (auto simp: write_loop_def)
next
  case (Suc n)
  have "write_loop b (Suc n) f xs = (write_loop b n f xs)[b + n := f n]"
    by (simp add: write_loop_def)
  with Suc show ?case
    by (auto simp: nth_list_update less_Suc_eq)
qed

section \<open>Integer encodings\<close>

text \<open>\<open>u16::to_be_bytes\<close>, \<open>u16::from_be_bytes\<close>, \<open>i16::to_le_bytes\<close>,
  \<open>i16::from_le_bytes\<close> and \<open>u32::from_le_bytes\<close>.\<close>

definition u16_to_be :: "u16 \<Rightarrow> bytes" where
  "u16_to_be w = [ucast (drop_bit 8 w), ucast w]"

definition u16_from_be :: "byte \<Rightarrow> byte \<Rightarrow> u16" where
  "u16_from_be a b = push_bit 8 (ucast a) OR ucast b"

definition i16_to_le :: "i16 \<Rightarrow> bytes" where
  "i16_to_le w = [ucast w, ucast (drop_bit 8 w)]"

definition i16_from_le :: "byte \<Rightarrow> byte \<Rightarrow> i16" where
  "i16_from_le a b = push_bit 8 (ucast b) OR ucast a"

definition u32_from_le :: "byte \<Rightarrow> byte \<Rightarrow> byte \<Rightarrow> byte \<Rightarrow> u32" where
  "u32_from_le a b c d =
     ucast a OR push_bit 8 (ucast b) OR push_bit 16 (ucast c) OR push_bit 24 (ucast d)"

definition u32_to_le :: "u32 \<Rightarrow> bytes" where
  "u32_to_le w = [ucast w, ucast (drop_bit 8 w), ucast (drop_bit 16 w), ucast (drop_bit 24 w)]"

lemma length_codecs [simp]:
  "length (u16_to_be w) = 2" "length (i16_to_le v) = 2" "length (u32_to_le u) = 4"
  by (simp_all add: u16_to_be_def i16_to_le_def u32_to_le_def)

lemma u16_from_to_be [codec_simps]:
  "u16_from_be (u16_to_be w ! 0) (u16_to_be w ! Suc 0) = w"
  by (rule bit_word_eqI)
     (auto simp: u16_from_be_def u16_to_be_def bit_simps)

lemma i16_from_to_le [codec_simps]:
  "i16_from_le (i16_to_le w ! 0) (i16_to_le w ! Suc 0) = w"
  by (rule bit_word_eqI)
     (auto simp: i16_from_le_def i16_to_le_def bit_simps)

lemma xor_xor_cancel [simp]:
  fixes a b :: byte
  shows "(a XOR b) XOR b = a" "b XOR (b XOR a) = a" "(b XOR a) XOR b = a" "b XOR (a XOR b) = a"
  by (simp_all add: xor.left_commute xor.assoc xor.commute)

lemma unat_byte_less [simp]: "unat (b :: byte) < 256"
  using unsigned_less [of b] by simp

lemma unat_u16_from_be: "unat (u16_from_be a b) = 256 * unat a + unat b"
proof -
  have "u16_from_be a b = push_bit 8 (ucast a) + ucast b"
    unfolding u16_from_be_def
    by (rule disjunctive_add [symmetric]) (auto simp: bit_simps dest: bit_imp_le_length)
  moreover have "unat a < 256" "unat b < 256"
    by simp_all
  ultimately show ?thesis
    by (simp add: push_bit_eq_mult unat_word_ariths unsigned_ucast_eq take_bit_eq_mod
        del: unat_byte_less)
qed

lemma unat_of_nat_u16 [codec_simps]: "n < 65536 \<Longrightarrow> unat (of_nat n :: u16) = n"
  by (simp add: unat_of_nat)

lemma u32_from_le_of_nat:
  "u32_from_le (of_nat n) (of_nat (n div 256)) (of_nat (n div 65536)) (of_nat (n div 16777216)) = of_nat n"
proof -
  have d: "n div 256 = drop_bit 8 n" "n div 65536 = drop_bit 16 n" "n div 16777216 = drop_bit 24 n"
    by (simp_all add: drop_bit_eq_div)
  show ?thesis
    unfolding d
  proof (rule bit_word_eqI)
    fix i assume "i < LENGTH(32)"
    then show "bit (u32_from_le (of_nat n) (of_nat (drop_bit 8 n)) (of_nat (drop_bit 16 n)) (of_nat (drop_bit 24 n))) i
        = bit (of_nat n :: u32) i"
      by (cases "i < 8"; cases "i < 16"; cases "i < 24") (auto simp: u32_from_le_def bit_simps)
  qed
qed

end
