(* ===== verification/Crypto.thy ===== *)
theory Crypto
  imports Prelude
begin

text \<open>
  The MTProto obfuscation layer (\<open>rust/src/crypto.rs\<close>): protocol tags, proxy
  secrets, parsing of the 64-byte client handshake, generation of the relay
  init and of the client handshake sent to an upstream proxy, and the four
  AES-256-CTR ciphers of a proxied connection.

  SHA-256, HMAC-SHA256 and the AES-256-CTR keystream come from third-party
  crates; they are the fields of a record of primitives that every operation
  takes as an argument. A cipher is its key, its IV and the number of keystream
  bytes it has already used.
\<close>

section \<open>Primitives and stream ciphers\<close>

record prims =
  sha256 :: "bytes \<Rightarrow> bytes"
  hmac_sha256 :: "bytes \<Rightarrow> bytes \<Rightarrow> bytes" \<comment> \<open>key, message\<close>
  keystream :: "bytes \<Rightarrow> bytes \<Rightarrow> nat \<Rightarrow> byte" \<comment> \<open>key, IV, position\<close>

text \<open>Documented behaviour of the digests: both outputs have 32 bytes.\<close>

definition prims_ok :: "prims \<Rightarrow> bool" where
  "prims_ok P \<longleftrightarrow> (\<forall>m. length (sha256 P m) = 32) \<and> (\<forall>k m. length (hmac_sha256 P k m) = 32)"

record aes_ctr256 =
  ctr_key :: bytes
  ctr_iv :: bytes
  ctr_pos :: nat

definition apply_keystream :: "prims \<Rightarrow> aes_ctr256 \<Rightarrow> bytes \<Rightarrow> bytes \<times> aes_ctr256" where
  "apply_keystream P c xs =
     (map2 (\<lambda>x i. x XOR keystream P (ctr_key c) (ctr_iv c) i) xs [ctr_pos c..<ctr_pos c + length xs],
      c\<lparr>ctr_pos := ctr_pos c + length xs\<rparr>)"

text \<open>\<open>make_cipher\<close> expects a 32-byte key and a 16-byte IV and panics otherwise.\<close>

definition make_cipher :: "bytes \<Rightarrow> bytes \<Rightarrow> aes_ctr256 run" where
  "make_cipher key iv =
     (if length key = 32 \<and> length iv = 16
      then Done \<lparr>ctr_key = key, ctr_iv = iv, ctr_pos = 0\<rparr> else Panic)"

section \<open>Constants and protocol tags\<close>

definition HANDSHAKE_LEN :: nat where [layout_simps]: "HANDSHAKE_LEN = 64"
definition SKIP_LEN :: nat where [layout_simps]: "SKIP_LEN = 8"
definition PREKEY_LEN :: nat where [layout_simps]: "PREKEY_LEN = 32"
definition IV_LEN :: nat where [layout_simps]: "IV_LEN = 16"
definition PROTO_TAG_POS :: nat where [layout_simps]: "PROTO_TAG_POS = 56"
definition DC_IDX_POS :: nat where [layout_simps]: "DC_IDX_POS = 60"

definition PROTO_TAG_ABRIDGED :: bytes where "PROTO_TAG_ABRIDGED = [0xef, 0xef, 0xef, 0xef]"
definition PROTO_TAG_INTERMEDIATE :: bytes where "PROTO_TAG_INTERMEDIATE = [0xee, 0xee, 0xee, 0xee]"
definition PROTO_TAG_SECURE :: bytes where "PROTO_TAG_SECURE = [0xdd, 0xdd, 0xdd, 0xdd]"

lemmas proto_tag_bytes = PROTO_TAG_ABRIDGED_def PROTO_TAG_INTERMEDIATE_def PROTO_TAG_SECURE_def

datatype proto_tag = Abridged | Intermediate | PaddedIntermediate

definition proto_from_bytes :: "bytes \<Rightarrow> proto_tag option" where
  "proto_from_bytes b =
     (if b = PROTO_TAG_ABRIDGED then Some Abridged
      else if b = PROTO_TAG_INTERMEDIATE then Some Intermediate
      else if b = PROTO_TAG_SECURE then Some PaddedIntermediate
      else None)"

fun proto_as_bytes :: "proto_tag \<Rightarrow> bytes" where
  "proto_as_bytes Abridged = PROTO_TAG_ABRIDGED"
| "proto_as_bytes Intermediate = PROTO_TAG_INTERMEDIATE"
| "proto_as_bytes PaddedIntermediate = PROTO_TAG_SECURE"

lemma length_proto_as_bytes [simp]: "length (proto_as_bytes t) = 4"
  by (cases t) (simp_all add: proto_tag_bytes)

lemma proto_from_as_bytes [simp]: "proto_from_bytes (proto_as_bytes t) = Some t"
  by (cases t) (simp_all add: proto_from_bytes_def proto_tag_bytes)

lemma proto_from_bytes_Some:
  "proto_from_bytes b = Some t \<longleftrightarrow> b = proto_as_bytes t"
  by (cases t) (auto simp: proto_from_bytes_def proto_tag_bytes)

section \<open>Proxy secrets\<close>

definition SECRET_MODE_PREFIX_LEN :: nat where [layout_simps]: "SECRET_MODE_PREFIX_LEN = 1"
definition SECRET_KEY_LEN :: nat where [layout_simps]: "SECRET_KEY_LEN = 16"
definition PREFIXED_SECRET_LEN :: nat where
  [layout_simps]: "PREFIXED_SECRET_LEN = SECRET_MODE_PREFIX_LEN + SECRET_KEY_LEN"
definition SECRET_MODE_FAKETLS :: byte where [layout_simps]: "SECRET_MODE_FAKETLS = 0xee"
definition SECRET_MODE_PADDED :: byte where [layout_simps]: "SECRET_MODE_PADDED = 0xdd"

definition has_mode_prefix :: "bytes \<Rightarrow> bool" where
  "has_mode_prefix raw \<longleftrightarrow>
     PREFIXED_SECRET_LEN \<le> length raw \<and>
     (raw ! 0 = SECRET_MODE_PADDED \<or> raw ! 0 = SECRET_MODE_FAKETLS)"

definition secret_key :: "bytes \<Rightarrow> bytes" where
  "secret_key raw =
     (if has_mode_prefix raw then subrange SECRET_MODE_PREFIX_LEN PREFIXED_SECRET_LEN raw else raw)"

definition faketls_hostname :: "bytes \<Rightarrow> bytes option" where
  "faketls_hostname raw =
     (if PREFIXED_SECRET_LEN < length raw \<and> raw ! 0 = SECRET_MODE_FAKETLS
      then Some (drop PREFIXED_SECRET_LEN raw) else None)"

section \<open>Handshake parsing\<close>

record handshake_info =
  hi_dc_id :: u32
  hi_is_media :: bool
  hi_proto :: proto_tag
  hi_prekey_and_iv :: bytes

text \<open>\<open>i16::unsigned_abs\<close>.\<close>

definition unsigned_abs :: "i16 \<Rightarrow> u16" where
  "unsigned_abs w = of_int \<bar>sint w\<bar>"

definition parse_handshake :: "prims \<Rightarrow> bytes \<Rightarrow> bytes \<Rightarrow> handshake_info option run" where
  "parse_handshake P handshake secret =
     (let prekey = subrange SKIP_LEN (SKIP_LEN + PREKEY_LEN) handshake;
          iv = subrange (SKIP_LEN + PREKEY_LEN) (SKIP_LEN + PREKEY_LEN + IV_LEN) handshake;
          key = sha256 P (prekey @ secret)
      in run_bind (make_cipher key iv) (\<lambda>cipher.
         let buf = fst (apply_keystream P cipher handshake) in
         case proto_from_bytes (subrange PROTO_TAG_POS (PROTO_TAG_POS + 4) buf) of
           None \<Rightarrow> Done None
         | Some proto \<Rightarrow>
             let dc_idx = i16_from_le (buf ! DC_IDX_POS) (buf ! (DC_IDX_POS + 1)) in
             Done (Some \<lparr>hi_dc_id = ucast (unsigned_abs dc_idx),
                         hi_is_media = (sint dc_idx < 0),
                         hi_proto = proto,
                         hi_prekey_and_iv =
                           subrange SKIP_LEN (SKIP_LEN + PREKEY_LEN + IV_LEN) handshake\<rparr>)))"

section \<open>Relay init and upstream handshake\<close>

definition RESERVED_FIRST_BYTES :: bytes where "RESERVED_FIRST_BYTES = [0xef]"

definition RESERVED_STARTS :: "bytes list" where
  "RESERVED_STARTS =
     [[0x48, 0x45, 0x41, 0x44], [0x50, 0x4f, 0x53, 0x54], [0x47, 0x45, 0x54, 0x20],
      [0xee, 0xee, 0xee, 0xee], [0xdd, 0xdd, 0xdd, 0xdd], [0x16, 0x03, 0x01, 0x02]]"

definition RESERVED_CONTINUE :: bytes where "RESERVED_CONTINUE = [0, 0, 0, 0]"

text \<open>The three \<open>continue\<close> guards shared by both generators.\<close>

definition reserved_init :: "bytes \<Rightarrow> bool" where
  "reserved_init rnd \<longleftrightarrow>
     rnd ! 0 \<in> set RESERVED_FIRST_BYTES \<or> take 4 rnd \<in> set RESERVED_STARTS
     \<or> subrange 4 8 rnd = RESERVED_CONTINUE"

text \<open>The body of the loop of \<open>generate_relay_init\<close> once \<open>rnd\<close> is accepted; \<open>pad\<close> are
  the two random bytes at the end of the plaintext tail.\<close>

definition relay_init_from :: "prims \<Rightarrow> proto_tag \<Rightarrow> i16 \<Rightarrow> bytes \<Rightarrow> bytes \<Rightarrow> bytes run" where
  "relay_init_from P proto dc_idx rnd pad =
     (let enc_key = subrange SKIP_LEN (SKIP_LEN + PREKEY_LEN) rnd;
          enc_iv = subrange (SKIP_LEN + PREKEY_LEN) (SKIP_LEN + PREKEY_LEN + IV_LEN) rnd
      in run_bind (make_cipher enc_key enc_iv) (\<lambda>cipher.
         let encrypted = fst (apply_keystream P cipher rnd);
             tail_plain = proto_as_bytes proto @ i16_to_le dc_idx @ pad
         in Done (write_loop PROTO_TAG_POS 8
              (\<lambda>i. tail_plain ! i XOR
                   (encrypted ! (PROTO_TAG_POS + i) XOR rnd ! (PROTO_TAG_POS + i))) rnd)))"

function generate_relay_init :: "prims \<Rightarrow> proto_tag \<Rightarrow> i16 \<Rightarrow> bytes \<Rightarrow> (bytes \<times> bytes) run" where
  "generate_relay_init P proto dc_idx rng =
     (case fill_bytes HANDSHAKE_LEN rng of
        Done (rnd, rng1) \<Rightarrow>
          if reserved_init rnd then generate_relay_init P proto dc_idx rng1
          else run_bind (fill_bytes 2 rng1) (\<lambda>(pad, rng2).
               run_bind (relay_init_from P proto dc_idx rnd pad) (\<lambda>r. Done (r, rng2)))
      | Panic \<Rightarrow> Panic
      | Starved \<Rightarrow> Starved)"
  by pat_completeness auto
termination
  by (relation "measure (\<lambda>(P, proto, dc_idx, rng). length rng)")
     (auto simp: fill_bytes_def layout_simps split: if_splits)

declare generate_relay_init.simps [simp del]

text \<open>The body of the loop of \<open>generate_client_handshake\<close> once \<open>raw\<close> is accepted: the
  handshake, the cipher for what we send (past the handshake) and the cipher for
  what we receive.\<close>

definition client_handshake_from ::
    "prims \<Rightarrow> bytes \<Rightarrow> i16 \<Rightarrow> proto_tag \<Rightarrow> bytes \<Rightarrow> (bytes \<times> aes_ctr256 \<times> aes_ctr256) run" where
  "client_handshake_from P secret dc_idx proto raw =
     (let key = sha256 P (subrange SKIP_LEN (SKIP_LEN + PREKEY_LEN) raw @ secret);
          iv = subrange (SKIP_LEN + PREKEY_LEN) (SKIP_LEN + PREKEY_LEN + IV_LEN) raw
      in run_bind (make_cipher key iv) (\<lambda>c.
         let ks = fst (apply_keystream P c (replicate HANDSHAKE_LEN 0));
             h1 = write_loop PROTO_TAG_POS 4
                    (\<lambda>i. proto_as_bytes proto ! i XOR ks ! (PROTO_TAG_POS + i)) raw;
             handshake = write_loop DC_IDX_POS 2
                    (\<lambda>i. i16_to_le dc_idx ! i XOR ks ! (DC_IDX_POS + i)) h1;
             enc_key = sha256 P (subrange SKIP_LEN (SKIP_LEN + PREKEY_LEN) handshake @ secret);
             enc_iv = subrange (SKIP_LEN + PREKEY_LEN) (SKIP_LEN + PREKEY_LEN + IV_LEN) handshake
         in run_bind (make_cipher enc_key enc_iv) (\<lambda>enc0.
            let enc = snd (apply_keystream P enc0 (replicate HANDSHAKE_LEN 0));
                reversed = rev (subrange SKIP_LEN (SKIP_LEN + PREKEY_LEN + IV_LEN) handshake);
                dec_key = sha256 P (take PREKEY_LEN reversed @ secret)
            in run_bind (make_cipher dec_key (drop PREKEY_LEN reversed)) (\<lambda>dec.
               Done (handshake, enc, dec)))))"

function generate_client_handshake ::
    "prims \<Rightarrow> bytes \<Rightarrow> i16 \<Rightarrow> proto_tag \<Rightarrow> bytes
       \<Rightarrow> ((bytes \<times> aes_ctr256 \<times> aes_ctr256) \<times> bytes) run" where
  "generate_client_handshake P secret dc_idx proto rng =
     (case fill_bytes HANDSHAKE_LEN rng of
        Done (raw, rng1) \<Rightarrow>
          if reserved_init raw then generate_client_handshake P secret dc_idx proto rng1
          else run_bind (client_handshake_from P secret dc_idx proto raw) (\<lambda>r. Done (r, rng1))
      | Panic \<Rightarrow> Panic
      | Starved \<Rightarrow> Starved)"
  by pat_completeness auto
termination
  by (relation "measure (\<lambda>(P, secret, dc_idx, proto, rng). length rng)")
     (auto simp: fill_bytes_def layout_simps split: if_splits)

declare generate_client_handshake.simps [simp del]

section \<open>The four ciphers of a connection\<close>

record connection_ciphers =
  clt_dec :: aes_ctr256
  clt_enc :: aes_ctr256
  tg_enc :: aes_ctr256
  tg_dec :: aes_ctr256

definition build_connection_ciphers ::
    "prims \<Rightarrow> bytes \<Rightarrow> bytes \<Rightarrow> bytes \<Rightarrow> connection_ciphers run" where
  "build_connection_ciphers P prekey_and_iv secret relay_init =
     (let clt_dec_key = sha256 P (take PREKEY_LEN prekey_and_iv @ secret);
          clt_dec_iv = drop PREKEY_LEN prekey_and_iv;
          reversed = rev prekey_and_iv;
          clt_enc_key = sha256 P (take PREKEY_LEN reversed @ secret);
          clt_enc_iv = drop PREKEY_LEN reversed
      in run_bind (make_cipher clt_dec_key clt_dec_iv) (\<lambda>clt_dec0.
         run_bind (make_cipher clt_enc_key clt_enc_iv) (\<lambda>clt_enc0.
         let clt_dec1 = snd (apply_keystream P clt_dec0 (replicate HANDSHAKE_LEN 0));
             relay_enc_key = subrange SKIP_LEN (SKIP_LEN + PREKEY_LEN) relay_init;
             relay_enc_iv =
               subrange (SKIP_LEN + PREKEY_LEN) (SKIP_LEN + PREKEY_LEN + IV_LEN) relay_init;
             relay_rev = rev (subrange SKIP_LEN (SKIP_LEN + PREKEY_LEN + IV_LEN) relay_init)
         in run_bind (make_cipher relay_enc_key relay_enc_iv) (\<lambda>tg_enc0.
            run_bind (make_cipher (take PREKEY_LEN relay_rev) (drop PREKEY_LEN relay_rev)) (\<lambda>tg_dec0.
            let tg_enc1 = snd (apply_keystream P tg_enc0 (replicate HANDSHAKE_LEN 0))
            in Done \<lparr>clt_dec = clt_dec1, clt_enc = clt_enc0,
                     tg_enc = tg_enc1, tg_dec = tg_dec0\<rparr>)))))"

section \<open>The keystream cipher interface\<close>

text \<open>
  What the proxy relies on from a stateful stream cipher: output length, that
  processing a stream in pieces is processing it whole, that the state advances
  with the number of bytes only, and that a second pass from the same state
  undoes the first. \<open>crypt_chunks\<close> is a cipher driven by a sequence of reads.
\<close>

fun crypt_chunks :: "('c \<Rightarrow> bytes \<Rightarrow> bytes \<times> 'c) \<Rightarrow> 'c \<Rightarrow> bytes list \<Rightarrow> bytes list \<times> 'c" where
  "crypt_chunks crypt c [] = ([], c)"
| "crypt_chunks crypt c (x # xs) =
     (let (y, c1) = crypt c x; (ys, c2) = crypt_chunks crypt c1 xs in (y # ys, c2))"

locale stream_cipher =
  fixes crypt :: "'c \<Rightarrow> bytes \<Rightarrow> bytes \<times> 'c"
  assumes crypt_Nil: "crypt c [] = ([], c)"
    and crypt_length: "length (fst (crypt c xs)) = length xs"
    and crypt_append: "crypt c (xs @ ys) =
      (fst (crypt c xs) @ fst (crypt (snd (crypt c xs)) ys), snd (crypt (snd (crypt c xs)) ys))"
    and crypt_state: "length xs = length ys \<Longrightarrow> snd (crypt c xs) = snd (crypt c ys)"
    and crypt_undo: "fst (crypt c (fst (crypt c xs))) = xs"
begin

lemma crypt_chunks_concat:
  "concat (fst (crypt_chunks crypt c cs)) = fst (crypt c (concat cs))
   \<and> snd (crypt_chunks crypt c cs) = snd (crypt c (concat cs))"
  by (induction cs arbitrary: c) (simp_all add: crypt_Nil crypt_append case_prod_unfold Let_def)

lemma chunks_lengths: "map length (fst (crypt_chunks crypt c cs)) = map length cs"
proof (induction cs arbitrary: c)
  case (Cons x xs)
  then show ?case
    by (simp add: crypt_length case_prod_unfold Let_def)
qed simp

lemma undo_stays_in_step:
  "snd (crypt c (fst (crypt c xs))) = snd (crypt c xs)"
  by (rule crypt_state) (simp add: crypt_length)

lemma rechunked_undo:
  assumes "concat ds = concat (fst (crypt_chunks crypt c cs))"
  shows "concat (fst (crypt_chunks crypt c ds)) = concat cs"
  using assms by (simp add: crypt_chunks_concat crypt_undo)

text \<open>
  Two hops: the sender enciphers \<open>cs\<close> with \<open>a\<close>; the relay reads the bytes in pieces
  \<open>ds\<close>, deciphers with \<open>a\<close> and enciphers with \<open>b\<close>; the receiver reads pieces \<open>fs\<close> and
  deciphers with \<open>b\<close>. However the stream is cut, the receiver gets the sender's bytes.
\<close>

lemma relay_end_to_end:
  assumes "concat ds = concat (fst (crypt_chunks crypt a cs))"
    and "concat fs = concat (fst (crypt_chunks crypt b (fst (crypt_chunks crypt a ds))))"
  shows "concat (fst (crypt_chunks crypt b fs)) = concat cs"
proof -
  have "concat (fst (crypt_chunks crypt b fs)) = concat (fst (crypt_chunks crypt a ds))"
    using assms(2) by (rule rechunked_undo)
  also have "\<dots> = concat cs"
    using assms(1) by (rule rechunked_undo)
  finally show ?thesis .
qed

end

lemma length_apply_keystream [simp]: "length (fst (apply_keystream P c xs)) = length xs"
  by (simp add: apply_keystream_def)

lemma nth_apply_keystream:
  "i < length xs \<Longrightarrow>
   fst (apply_keystream P c xs) ! i = xs ! i XOR keystream P (ctr_key c) (ctr_iv c) (ctr_pos c + i)"
  by (simp add: apply_keystream_def)

lemma snd_apply_keystream [simp]:
  "snd (apply_keystream P c xs) = c\<lparr>ctr_pos := ctr_pos c + length xs\<rparr>"
  by (simp add: apply_keystream_def)

lemma apply_keystream_append:
  "fst (apply_keystream P c (xs @ ys)) =
     fst (apply_keystream P c xs) @ fst (apply_keystream P (snd (apply_keystream P c xs)) ys)"
  by (rule nth_equalityI) (auto simp: nth_append nth_apply_keystream)

interpretation aes: stream_cipher "apply_keystream P" for P
proof (unfold_locales, goal_cases)
  case (1 c)
  show ?case by (simp add: apply_keystream_def)
next
  case (3 c xs ys)
  show ?case
    by (rule prod_eqI) (simp_all add: apply_keystream_append add.assoc)
next
  case (5 c xs)
  show ?case
    by (rule nth_equalityI) (simp_all add: nth_apply_keystream)
qed simp_all

section \<open>Correctness of the handshakes\<close>

lemma make_cipher_ok [simp]:
  "length key = 32 \<Longrightarrow> length iv = 16 \<Longrightarrow>
   make_cipher key iv = Done \<lparr>ctr_key = key, ctr_iv = iv, ctr_pos = 0\<rparr>"
  by (simp add: make_cipher_def)

lemma prims_ok_lengths [simp]:
  "prims_ok P \<Longrightarrow> length (sha256 P m) = 32"
  "prims_ok P \<Longrightarrow> length (hmac_sha256 P k m) = 32"
  by (simp_all add: prims_ok_def)

text \<open>The handshake written over \<open>raw\<close>: only bytes 56 to 61 change.\<close>

definition embedded :: "(nat \<Rightarrow> byte) \<Rightarrow> i16 \<Rightarrow> proto_tag \<Rightarrow> bytes \<Rightarrow> bytes" where
  "embedded ks dc_idx proto raw =
     write_loop DC_IDX_POS 2 (\<lambda>i. i16_to_le dc_idx ! i XOR ks (DC_IDX_POS + i))
       (write_loop PROTO_TAG_POS 4 (\<lambda>i. proto_as_bytes proto ! i XOR ks (PROTO_TAG_POS + i)) raw)"

lemma length_embedded [simp]: "length (embedded ks dc_idx proto raw) = length raw"
  by (simp add: embedded_def)

lemma nth_embedded_low:
  "length raw = 64 \<Longrightarrow> k < 56 \<Longrightarrow> embedded ks dc_idx proto raw ! k = raw ! k"
  by (simp add: embedded_def nth_write_loop layout_simps)

lemma nth_embedded_tag:
  "length raw = 64 \<Longrightarrow> k < 4 \<Longrightarrow>
   embedded ks dc_idx proto raw ! (56 + k) = proto_as_bytes proto ! k XOR ks (56 + k)"
  by (simp add: embedded_def nth_write_loop layout_simps)

lemma nth_embedded_dc:
  "length raw = 64 \<Longrightarrow> k < 2 \<Longrightarrow>
   embedded ks dc_idx proto raw ! (60 + k) = i16_to_le dc_idx ! k XOR ks (60 + k)"
  by (simp add: embedded_def nth_write_loop layout_simps)

lemma subrange_embedded_low:
  "length raw = 64 \<Longrightarrow> j \<le> 56 \<Longrightarrow> subrange i j (embedded ks dc_idx proto raw) = subrange i j raw"
  by (rule subrange_eqI) (simp_all add: nth_embedded_low)

lemma embed_keystream:
  assumes "ctr_pos c = 0"
  shows "write_loop DC_IDX_POS 2
      (\<lambda>i. i16_to_le dc_idx ! i XOR fst (apply_keystream P c (replicate HANDSHAKE_LEN 0)) ! (DC_IDX_POS + i))
      (write_loop PROTO_TAG_POS 4
        (\<lambda>i. proto_as_bytes proto ! i XOR
             fst (apply_keystream P c (replicate HANDSHAKE_LEN 0)) ! (PROTO_TAG_POS + i)) raw)
    = embedded (keystream P (ctr_key c) (ctr_iv c)) dc_idx proto raw"
proof -
  have "fst (apply_keystream P c (replicate HANDSHAKE_LEN 0)) ! k = keystream P (ctr_key c) (ctr_iv c) k"
    if "k < HANDSHAKE_LEN" for k
    using that assms by (simp add: nth_apply_keystream)
  then have tag: "write_loop PROTO_TAG_POS 4
        (\<lambda>i. proto_as_bytes proto ! i XOR
             fst (apply_keystream P c (replicate HANDSHAKE_LEN 0)) ! (PROTO_TAG_POS + i)) raw
      = write_loop PROTO_TAG_POS 4
        (\<lambda>i. proto_as_bytes proto ! i XOR keystream P (ctr_key c) (ctr_iv c) (PROTO_TAG_POS + i)) raw"
    and dc: "write_loop DC_IDX_POS 2 (\<lambda>i. i16_to_le dc_idx ! i XOR
             fst (apply_keystream P c (replicate HANDSHAKE_LEN 0)) ! (DC_IDX_POS + i)) ys
      = write_loop DC_IDX_POS 2
        (\<lambda>i. i16_to_le dc_idx ! i XOR keystream P (ctr_key c) (ctr_iv c) (DC_IDX_POS + i)) ys" for ys
    by (auto intro!: write_loop_cong simp: layout_simps)
  show ?thesis by (simp only: tag dc embedded_def)
qed

lemma client_handshake_from_eq:
  assumes "prims_ok P" and "length raw = 64"
  shows "client_handshake_from P secret dc_idx proto raw = Done
    (embedded (keystream P (sha256 P (subrange 8 40 raw @ secret)) (subrange 40 56 raw)) dc_idx proto raw,
     \<lparr>ctr_key = sha256 P (subrange 8 40 raw @ secret), ctr_iv = subrange 40 56 raw, ctr_pos = 64\<rparr>,
     \<lparr>ctr_key = sha256 P (take 32 (rev (subrange 8 56 raw)) @ secret),
      ctr_iv = drop 32 (rev (subrange 8 56 raw)), ctr_pos = 0\<rparr>)"
  unfolding client_handshake_from_def Let_def
  using assms
  by (simp add: layout_simps embed_keystream [unfolded layout_simps] subrange_embedded_low)

lemma parse_handshake_embedded:
  assumes "prims_ok P" and "length raw = 64"
    and h_def: "h = embedded (keystream P (sha256 P (subrange 8 40 raw @ secret)) (subrange 40 56 raw))
            dc_idx proto raw"
  shows "parse_handshake P h secret = Done (Some
     \<lparr>hi_dc_id = ucast (unsigned_abs dc_idx), hi_is_media = (sint dc_idx < 0),
      hi_proto = proto, hi_prekey_and_iv = subrange 8 56 raw\<rparr>)"
proof -
  let ?c = "\<lparr>ctr_key = sha256 P (subrange 8 40 raw @ secret), ctr_iv = subrange 40 56 raw,
             ctr_pos = 0\<rparr>"
  let ?buf = "fst (apply_keystream P ?c h)"
  have len: "length h = 64" using assms(2) by (simp add: h_def)
  have low: "subrange 8 40 h = subrange 8 40 raw" "subrange 40 56 h = subrange 40 56 raw"
      "subrange 8 56 h = subrange 8 56 raw"
    using assms(2) by (simp_all add: h_def subrange_embedded_low)
  have tag: "subrange 56 60 ?buf = proto_as_bytes proto"
    by (rule nth_equalityI)
       (simp_all add: len nth_subrange nth_apply_keystream h_def nth_embedded_tag assms(2))
  have dc: "?buf ! 60 = i16_to_le dc_idx ! 0" "?buf ! 61 = i16_to_le dc_idx ! Suc 0"
    using nth_embedded_dc [OF assms(2), of 0] nth_embedded_dc [OF assms(2), of 1]
    by (simp_all add: len nth_apply_keystream h_def assms(2))
  show ?thesis
    using assms(1) by (simp add: parse_handshake_def Let_def layout_simps low len tag dc
        i16_from_to_le assms(2))
qed

lemma generate_client_handshake_Done:
  "generate_client_handshake P secret dc_idx proto rng = Done (r, rest) \<Longrightarrow>
   \<exists>raw. length raw = 64 \<and> \<not> reserved_init raw
        \<and> client_handshake_from P secret dc_idx proto raw = Done r"
proof (induction P secret dc_idx proto rng rule: generate_client_handshake.induct)
  case (1 P secret dc_idx proto rng)
  from "1.prems" obtain raw rng1 where fill: "fill_bytes HANDSHAKE_LEN rng = Done (raw, rng1)"
    by (cases "fill_bytes HANDSHAKE_LEN rng") (auto simp: generate_client_handshake.simps)
  show ?case
  proof (cases "reserved_init raw")
    case True
    with "1.prems" fill have "generate_client_handshake P secret dc_idx proto rng1 = Done (r, rest)"
      by (simp add: generate_client_handshake.simps [of P secret dc_idx proto rng])
    with "1.IH" [OF fill refl True] show ?thesis .
  next
    case False
    with "1.prems" fill show ?thesis
      by (auto simp: generate_client_handshake.simps [of P secret dc_idx proto rng]
          run_bind_eq_Done layout_simps dest!: fill_bytes_Done)
  qed
qed

lemma generate_relay_init_Done:
  "generate_relay_init P proto dc_idx rng = Done (r, rest) \<Longrightarrow>
   \<exists>rnd pad. length rnd = 64 \<and> length pad = 2 \<and> \<not> reserved_init rnd
        \<and> relay_init_from P proto dc_idx rnd pad = Done r"
proof (induction P proto dc_idx rng rule: generate_relay_init.induct)
  case (1 P proto dc_idx rng)
  from "1.prems" obtain rnd rng1 where fill: "fill_bytes HANDSHAKE_LEN rng = Done (rnd, rng1)"
    by (cases "fill_bytes HANDSHAKE_LEN rng") (auto simp: generate_relay_init.simps)
  show ?case
  proof (cases "reserved_init rnd")
    case True
    with "1.prems" fill have "generate_relay_init P proto dc_idx rng1 = Done (r, rest)"
      by (simp add: generate_relay_init.simps [of P proto dc_idx rng])
    with "1.IH" [OF fill refl True] show ?thesis .
  next
    case False
    with "1.prems" fill show ?thesis
      by (auto simp: generate_relay_init.simps [of P proto dc_idx rng]
          run_bind_eq_Done layout_simps dest!: fill_bytes_Done)
  qed
qed

text \<open>Rejected draws are skipped, an accepted one is used.\<close>

lemma generate_relay_init_skips:
  assumes "\<forall>d \<in> set draws. length d = 64 \<and> reserved_init d"
  shows "generate_relay_init P proto dc_idx (concat draws @ rng) = generate_relay_init P proto dc_idx rng"
  using assms
proof (induction draws)
  case (Cons d ds)
  then have "generate_relay_init P proto dc_idx (d @ concat ds @ rng)
      = generate_relay_init P proto dc_idx (concat ds @ rng)"
    by (subst generate_relay_init.simps) (simp add: layout_simps)
  with Cons show ?case by simp
qed simp

lemma generate_client_handshake_skips:
  assumes "\<forall>d \<in> set draws. length d = 64 \<and> reserved_init d"
  shows "generate_client_handshake P secret dc_idx proto (concat draws @ rng)
    = generate_client_handshake P secret dc_idx proto rng"
  using assms
proof (induction draws)
  case (Cons d ds)
  then have "generate_client_handshake P secret dc_idx proto (d @ concat ds @ rng)
      = generate_client_handshake P secret dc_idx proto (concat ds @ rng)"
    by (subst generate_client_handshake.simps) (simp add: layout_simps)
  with Cons show ?case by simp
qed simp

lemma relay_init_from_eq:
  assumes "length rnd = 64"
  shows "relay_init_from P proto dc_idx rnd pad = Done (write_loop 56 8
    (\<lambda>i. (proto_as_bytes proto @ i16_to_le dc_idx @ pad) ! i
         XOR keystream P (subrange 8 40 rnd) (subrange 40 56 rnd) (56 + i)) rnd)"
proof -
  have "(fst (apply_keystream P \<lparr>ctr_key = k, ctr_iv = v, ctr_pos = 0\<rparr> rnd) ! (56 + i)
      XOR rnd ! (56 + i)) = keystream P k v (56 + i)" if "i < 8" for i k v
    using that assms by (simp add: nth_apply_keystream)
  then show ?thesis
    using assms by (auto simp: relay_init_from_def Let_def layout_simps intro!: write_loop_cong)
qed

lemma generate_client_handshake_accepts:
  assumes "prims_ok P" and "length raw = 64" and "\<not> reserved_init raw"
  shows "\<exists>r. client_handshake_from P secret dc_idx proto raw = Done r
    \<and> generate_client_handshake P secret dc_idx proto (raw @ rest) = Done (r, rest)"
  using assms
  by (subst generate_client_handshake.simps) (simp add: layout_simps client_handshake_from_eq)

lemma generate_relay_init_accepts:
  assumes "length rnd = 64" and "length pad = 2" and "\<not> reserved_init rnd"
  shows "\<exists>r. relay_init_from P proto dc_idx rnd pad = Done r
    \<and> generate_relay_init P proto dc_idx (rnd @ pad @ rest) = Done (r, rest)"
  using assms
  by (subst generate_relay_init.simps) (simp add: layout_simps relay_init_from_eq)

lemma generated_handshake_parses:
  assumes "prims_ok P"
    and "generate_client_handshake P secret dc_idx proto rng = Done ((h, enc, dec), rest)"
  shows "length h = HANDSHAKE_LEN \<and> \<not> reserved_init h \<and>
    parse_handshake P h secret = Done (Some
     \<lparr>hi_dc_id = ucast (unsigned_abs dc_idx), hi_is_media = (sint dc_idx < 0), hi_proto = proto,
      hi_prekey_and_iv = subrange SKIP_LEN (SKIP_LEN + PREKEY_LEN + IV_LEN) h\<rparr>)"
proof -
  obtain raw where raw: "length raw = 64" "\<not> reserved_init raw"
      "client_handshake_from P secret dc_idx proto raw = Done (h, enc, dec)"
    using generate_client_handshake_Done [OF assms(2)] by blast
  then have h: "h = embedded (keystream P (sha256 P (subrange 8 40 raw @ secret)) (subrange 40 56 raw))
      dc_idx proto raw"
    using assms(1) by (simp add: client_handshake_from_eq)
  then have low: "subrange i j h = subrange i j raw" if "j \<le> 56" for i j
    using raw(1) that by (simp add: subrange_embedded_low)
  have "h ! 0 = raw ! 0" "take 4 h = take 4 raw"
    using raw(1) low [of 4 0] h by (simp_all add: nth_embedded_low subrange_def)
  with raw(2) low have "\<not> reserved_init h"
    by (simp add: reserved_init_def)
  with raw(1) h low show ?thesis
    using parse_handshake_embedded [OF assms(1) raw(1) h] by (simp add: layout_simps)
qed

lemma generated_handshake_ciphers:
  assumes "prims_ok P" and "length relay_init = HANDSHAKE_LEN"
    and "generate_client_handshake P secret dc_idx proto rng = Done ((h, enc, dec), rest)"
  shows "\<exists>cs. build_connection_ciphers P (subrange SKIP_LEN (SKIP_LEN + PREKEY_LEN + IV_LEN) h)
        secret relay_init = Done cs \<and> clt_dec cs = enc \<and> clt_enc cs = dec \<and> ctr_pos enc = HANDSHAKE_LEN"
proof -
  obtain raw where raw: "length raw = 64"
      "client_handshake_from P secret dc_idx proto raw = Done (h, enc, dec)"
    using generate_client_handshake_Done [OF assms(3)] by blast
  then have h: "subrange 8 56 h = subrange 8 56 raw"
    and enc: "enc = \<lparr>ctr_key = sha256 P (subrange 8 40 raw @ secret), ctr_iv = subrange 40 56 raw,
                     ctr_pos = 64\<rparr>"
    and dec: "dec = \<lparr>ctr_key = sha256 P (take 32 (rev (subrange 8 56 raw)) @ secret),
                     ctr_iv = drop 32 (rev (subrange 8 56 raw)), ctr_pos = 0\<rparr>"
    using assms(1) by (auto simp: client_handshake_from_eq subrange_embedded_low)
  have "take 32 (subrange 8 56 raw) = subrange 8 40 raw" "drop 32 (subrange 8 56 raw) = subrange 40 56 raw"
    by (simp_all add: subrange_def drop_take)
  then show ?thesis
    using assms(1,2) raw(1) h
    by (simp add: build_connection_ciphers_def Let_def layout_simps enc dec)
qed

lemma relay_init_plaintext:
  assumes "generate_relay_init P proto dc_idx rng = Done (r, rest)"
  shows "length r = HANDSHAKE_LEN \<and> \<not> reserved_init r \<and>
    (\<exists>c buf. make_cipher (subrange SKIP_LEN (SKIP_LEN + PREKEY_LEN) r)
          (subrange (SKIP_LEN + PREKEY_LEN) (SKIP_LEN + PREKEY_LEN + IV_LEN) r) = Done c
       \<and> buf = fst (apply_keystream P c r)
       \<and> proto_from_bytes (subrange PROTO_TAG_POS (PROTO_TAG_POS + 4) buf) = Some proto
       \<and> i16_from_le (buf ! DC_IDX_POS) (buf ! (DC_IDX_POS + 1)) = dc_idx)"
proof -
  obtain rnd pad where rnd: "length rnd = 64" "length pad = 2" "\<not> reserved_init rnd"
      "relay_init_from P proto dc_idx rnd pad = Done r"
    using generate_relay_init_Done [OF assms] by blast
  let ?ks = "\<lambda>i. keystream P (subrange 8 40 rnd) (subrange 40 56 rnd) i"
  have r: "r = write_loop 56 8 (\<lambda>i. (proto_as_bytes proto @ i16_to_le dc_idx @ pad) ! i XOR ?ks (56 + i)) rnd"
    using rnd by (simp add: relay_init_from_eq)
  have len: "length r = 64" using r rnd(1) by simp
  have low: "r ! k = rnd ! k" if "k < 56" for k
    using that rnd(1) by (simp add: r nth_write_loop)
  have sub: "subrange i j r = subrange i j rnd" if "j \<le> 56" for i j
    using that len rnd(1) low by (intro subrange_eqI) auto
  have "take 4 r = take 4 rnd" using sub [of 4 0] by (simp add: subrange_def)
  then have nres: "\<not> reserved_init r"
    using rnd(3) low sub by (simp add: reserved_init_def)
  let ?c = "\<lparr>ctr_key = subrange 8 40 rnd, ctr_iv = subrange 40 56 rnd, ctr_pos = 0\<rparr>"
  let ?buf = "fst (apply_keystream P ?c r)"
  have hi: "?buf ! (56 + i) = (proto_as_bytes proto @ i16_to_le dc_idx @ pad) ! i" if "i < 8" for i
    using that len rnd(1) by (simp add: nth_apply_keystream) (simp add: r nth_write_loop rnd)
  have tag: "subrange 56 60 ?buf = proto_as_bytes proto"
    using hi len by (intro nth_equalityI) (simp_all add: nth_subrange nth_append)
  have dc: "?buf ! 60 = i16_to_le dc_idx ! 0" "?buf ! 61 = i16_to_le dc_idx ! Suc 0"
    using hi [of 4] hi [of 5] by (simp_all add: nth_append)
  show ?thesis
    using len nres rnd(1) by (simp add: layout_simps sub tag dc i16_from_to_le)
qed

text \<open>A concrete instance of the primitives, for evaluation.\<close>

definition example_prims :: prims where
  "example_prims =
     \<lparr>sha256 = (\<lambda>m. replicate 32 (sum_list m)),
      hmac_sha256 = (\<lambda>k m. replicate 32 (sum_list k + 3 * sum_list m)),
      keystream = (\<lambda>k v i. sum_list k + 5 * sum_list v + of_nat i)\<rparr>"

lemma example_prims_ok: "prims_ok example_prims"
  by (simp add: prims_ok_def example_prims_def)

section \<open>Properties of the handshakes\<close>

text \<open>(C9) An upstream proxy that runs this very code accepts the handshake that
  \<open>generate_client_handshake\<close> sends it: with the same secret, \<open>parse_handshake\<close> recovers
  the transport protocol, the absolute DC id, the media flag and the key material.\<close>

theorem client_handshake_roundtrip:
  assumes "prims_ok P"
    and "generate_client_handshake P secret dc_idx proto rng = Done ((h, enc, dec), rest)"
  shows "length h = HANDSHAKE_LEN \<and> \<not> reserved_init h \<and>
    parse_handshake P h secret = Done (Some
     \<lparr>hi_dc_id = ucast (unsigned_abs dc_idx), hi_is_media = (sint dc_idx < 0), hi_proto = proto,
      hi_prekey_and_iv = subrange SKIP_LEN (SKIP_LEN + PREKEY_LEN + IV_LEN) h\<rparr>)"
  by (rule generated_handshake_parses [OF assms])

theorem client_handshake_roundtrip_witness:
  "\<exists>h enc dec. generate_client_handshake example_prims [7] (-2) Abridged (replicate 64 1)
      = Done ((h, enc, dec), [])
    \<and> parse_handshake example_prims h [7] = Done (Some
     \<lparr>hi_dc_id = 2, hi_is_media = True, hi_proto = Abridged,
      hi_prekey_and_iv = subrange SKIP_LEN (SKIP_LEN + PREKEY_LEN + IV_LEN) h\<rparr>)"
proof -
  have "\<not> reserved_init (replicate 64 1)" by code_simp
  then obtain h enc dec where g:
    "generate_client_handshake example_prims [7] (-2) Abridged (replicate 64 1) = Done ((h, enc, dec), [])"
    using generate_client_handshake_accepts [OF example_prims_ok, of "replicate 64 1" "[7]" "-2" Abridged "[]"]
    by (metis append_Nil2 length_replicate prod_cases3)
  have "ucast (unsigned_abs (-2)) = (2 :: u32)" "sint (-2 :: i16) < 0" by code_simp+
  with g client_handshake_roundtrip [OF example_prims_ok g] show ?thesis by auto
qed

text \<open>(C19) The relay init is one that Telegram accepts: it never starts with a reserved
  prefix, and deciphering it with the raw key and IV it carries reveals the protocol tag
  and the signed DC index.\<close>

theorem relay_init_decodes:
  assumes "generate_relay_init P proto dc_idx rng = Done (r, rest)"
  shows "length r = HANDSHAKE_LEN \<and> \<not> reserved_init r \<and>
    (\<exists>c buf. make_cipher (subrange SKIP_LEN (SKIP_LEN + PREKEY_LEN) r)
          (subrange (SKIP_LEN + PREKEY_LEN) (SKIP_LEN + PREKEY_LEN + IV_LEN) r) = Done c
       \<and> buf = fst (apply_keystream P c r)
       \<and> proto_from_bytes (subrange PROTO_TAG_POS (PROTO_TAG_POS + 4) buf) = Some proto
       \<and> i16_from_le (buf ! DC_IDX_POS) (buf ! (DC_IDX_POS + 1)) = dc_idx)"
  by (rule relay_init_plaintext [OF assms])

theorem relay_init_decodes_witness:
  "\<exists>r rest. generate_relay_init example_prims PaddedIntermediate 203 (replicate 66 1) = Done (r, rest)
    \<and> \<not> reserved_init r \<and> length r = 64"
proof -
  have "\<not> reserved_init (replicate 64 1)" by code_simp
  then obtain r where g:
    "generate_relay_init example_prims PaddedIntermediate 203 (replicate 64 1 @ replicate 2 1 @ []) = Done (r, [])"
    using generate_relay_init_accepts [of "replicate 64 1" "replicate 2 1" example_prims PaddedIntermediate 203 "[]"]
    by auto
  from relay_init_decodes [OF g] g show ?thesis
    by (auto simp: layout_simps numeral_eq_Suc)
qed

text \<open>(C37) Both generators return as soon as the random source yields one 64-byte draw
  outside the reserved prefixes, whatever reserved draws came before it, and they
  consume exactly the draws up to that one.\<close>

theorem generators_return:
  assumes "prims_ok P" and "\<forall>d \<in> set draws. length d = HANDSHAKE_LEN \<and> reserved_init d"
    and "length rnd = HANDSHAKE_LEN" and "\<not> reserved_init rnd" and "length pad = 2"
  shows "(\<exists>r. generate_relay_init P proto dc_idx (concat draws @ rnd @ pad @ rest) = Done (r, rest)) \<and>
    (\<exists>r. generate_client_handshake P secret dc_idx proto (concat draws @ rnd @ rest) = Done (r, rest))"
proof -
  have draws: "\<forall>d \<in> set draws. length d = 64 \<and> reserved_init d" and rnd: "length rnd = 64"
    using assms by (simp_all add: layout_simps)
  obtain r1 where "generate_relay_init P proto dc_idx (rnd @ pad @ rest) = Done (r1, rest)"
    using generate_relay_init_accepts [OF rnd assms(5,4)] by metis
  moreover obtain r2 where "generate_client_handshake P secret dc_idx proto (rnd @ rest) = Done (r2, rest)"
    using generate_client_handshake_accepts [OF assms(1) rnd assms(4)] by metis
  ultimately show ?thesis
    by (cases r2)
       (simp add: generate_relay_init_skips [OF draws] generate_client_handshake_skips [OF draws])
qed

theorem generators_return_witness:
  "(\<exists>r. generate_relay_init example_prims Abridged 5
      (concat [replicate 64 0xef, replicate 64 0] @ replicate 64 1 @ [3, 4] @ []) = Done (r, [])) \<and>
   (\<exists>r. generate_client_handshake example_prims [] 5 Abridged
      (concat [replicate 64 0xef, replicate 64 0] @ replicate 64 1 @ []) = Done (r, []))"
proof -
  have "reserved_init (replicate 64 0xef)" "reserved_init (replicate 64 0)" "\<not> reserved_init (replicate 64 1)"
    by code_simp+
  then show ?thesis
    using generators_return [OF example_prims_ok, of "[replicate 64 0xef, replicate 64 0]"
        "replicate 64 1" "[3, 4]" Abridged 5 "[]" "[]"]
    by (simp add: layout_simps)
qed

text \<open>Secret layouts: a bare 16-byte key is used verbatim, a \<open>dd\<close> or \<open>ee\<close> prefix is
  stripped and anything after the key is ignored for key derivation; the SNI hostname is
  what follows the key of an \<open>ee\<close> secret, and a 17-byte \<open>ee\<close> secret has none.\<close>

lemma secret_layouts:
  assumes "length k = SECRET_KEY_LEN"
  shows "secret_key k = k \<and> faketls_hostname k = None
    \<and> secret_key (SECRET_MODE_PADDED # k @ extra) = k \<and> faketls_hostname (SECRET_MODE_PADDED # k @ extra) = None
    \<and> secret_key (SECRET_MODE_FAKETLS # k @ host) = k
    \<and> faketls_hostname (SECRET_MODE_FAKETLS # k @ host) = (if host = [] then None else Some host)"
  using assms
  by (simp add: secret_key_def has_mode_prefix_def faketls_hostname_def subrange_def layout_simps)

end
