(* ===== verification/Rust_Io.thy ===== *)
theory Rust_Io
  imports Prelude
begin

text \<open>
  The parts of the Rust standard library and of the asynchronous I/O traits that several
  components use: byte sources and sinks, and UTF-8 validation.
\<close>

section \<open>Byte sources and sinks\<close>

text \<open>
  A byte source is the list of bytes the peer will deliver before the stream ends.
  \<open>read_exact\<close> fails when fewer are left; a failed read leaves the source at its end.
\<close>

definition read_exact :: "nat \<Rightarrow> bytes \<Rightarrow> (bytes \<times> bytes) option" where
  "read_exact n inp = (if n \<le> length inp then Some (take n inp, drop n inp) else None)"

lemma read_exact_append [simp]: "length xs = n \<Longrightarrow> read_exact n (xs @ rest) = Some (xs, rest)"
  by (simp add: read_exact_def)

lemma read_exact_Some:
  "read_exact n inp = Some (xs, rest) \<Longrightarrow> inp = xs @ rest \<and> length xs = n"
  by (auto simp: read_exact_def split: if_splits)

lemma read_exact_None: "read_exact n inp = None \<longleftrightarrow> length inp < n"
  by (simp add: read_exact_def)

text \<open>
  A sink collects what was written. \<open>w_budget\<close> is how many more \<open>write_all\<close> calls
  succeed before the peer is gone; \<open>None\<close> is a peer that never goes away.
\<close>

record writer =
  w_out :: bytes
  w_budget :: "nat option"

definition write_all :: "writer \<Rightarrow> bytes \<Rightarrow> writer option" where
  "write_all w d =
     (case w_budget w of
        None \<Rightarrow> Some (w\<lparr>w_out := w_out w @ d\<rparr>)
      | Some 0 \<Rightarrow> None
      | Some (Suc n) \<Rightarrow> Some (w\<lparr>w_out := w_out w @ d, w_budget := Some n\<rparr>))"

lemma write_all_out: "write_all w d = Some w' \<Longrightarrow> w_out w' = w_out w @ d"
  by (auto simp: write_all_def split: option.splits nat.splits)

lemma write_all_unlimited:
  "w_budget w = None \<Longrightarrow> write_all w d = Some (w\<lparr>w_out := w_out w @ d\<rparr>)"
  by (simp add: write_all_def)

section \<open>Strings\<close>

text \<open>A Rust string is its UTF-8 bytes, written as a \<open>char list\<close>; \<open>as_bytes\<close> and
  \<open>from_utf8\<close> go between the two.\<close>

definition as_bytes :: "string \<Rightarrow> bytes" where
  "as_bytes s = map of_char s"

definition is_cont :: "byte \<Rightarrow> bool" where
  "is_cont b \<longleftrightarrow> 0x80 \<le> b \<and> b \<le> 0xBF"

definition utf8_seq :: "bytes \<Rightarrow> nat option" where
  "utf8_seq bs =
     (case bs of [] \<Rightarrow> None
      | b0 # rest \<Rightarrow>
        if b0 < 0x80 then Some 1
        else if 0xC2 \<le> b0 \<and> b0 \<le> 0xDF then
          (case rest of b1 # _ \<Rightarrow> if is_cont b1 then Some 2 else None | _ \<Rightarrow> None)
        else if 0xE0 \<le> b0 \<and> b0 \<le> 0xEF then
          (case rest of b1 # b2 # _ \<Rightarrow>
             if is_cont b1 \<and> is_cont b2 \<and> (b0 = 0xE0 \<longrightarrow> 0xA0 \<le> b1) \<and> (b0 = 0xED \<longrightarrow> b1 \<le> 0x9F)
             then Some 3 else None
           | _ \<Rightarrow> None)
        else if 0xF0 \<le> b0 \<and> b0 \<le> 0xF4 then
          (case rest of b1 # b2 # b3 # _ \<Rightarrow>
             if is_cont b1 \<and> is_cont b2 \<and> is_cont b3 \<and> (b0 = 0xF0 \<longrightarrow> 0x90 \<le> b1) \<and> (b0 = 0xF4 \<longrightarrow> b1 \<le> 0x8F)
             then Some 4 else None
           | _ \<Rightarrow> None)
        else None)"

lemma utf8_seq_pos: "utf8_seq bs = Some n \<Longrightarrow> 0 < n \<and> bs \<noteq> []"
  by (auto simp: utf8_seq_def split: list.splits if_splits)

function utf8_valid :: "bytes \<Rightarrow> bool" where
  "utf8_valid bs =
     (bs = [] \<or> (case utf8_seq bs of None \<Rightarrow> False | Some n \<Rightarrow> utf8_valid (drop n bs)))"
  by pat_completeness auto
termination
  by (relation "measure length") (auto dest: utf8_seq_pos)

declare utf8_valid.simps [simp del]

definition from_utf8 :: "bytes \<Rightarrow> string option" where
  "from_utf8 bs = (if utf8_valid bs then Some (map (\<lambda>b. char_of (unat b)) bs) else None)"

definition valid_string :: "string \<Rightarrow> bool" where
  "valid_string s \<longleftrightarrow> utf8_valid (as_bytes s)"

lemma length_as_bytes [simp]: "length (as_bytes s) = length s"
  by (simp add: as_bytes_def)

lemma unat_of_char [simp]: "unat (of_char c :: byte) = of_char c"
proof -
  have "unat (of_nat (of_char c) :: byte) = of_char c"
    by (simp add: unsigned_of_nat take_bit_eq_mod)
  then show ?thesis by (simp add: of_nat_of_char)
qed

lemma from_utf8_as_bytes: "valid_string s \<Longrightarrow> from_utf8 (as_bytes s) = Some s"
  by (simp add: from_utf8_def valid_string_def) (simp add: as_bytes_def map_idI)

text \<open>ASCII text is valid UTF-8.\<close>

lemma utf8_valid_ascii: "\<forall>b \<in> set bs. b < 0x80 \<Longrightarrow> utf8_valid bs"
  by (induction bs) (subst utf8_valid.simps, simp add: utf8_seq_def)+

end
