(* ===== verification/Rust_Str.thy ===== *)
theory Rust_Str
  imports Rust_Io
begin

text \<open>
  The \<open>str\<close> methods of the Rust standard library that the components use, on strings held as
  their UTF-8 bytes: prefixes and splitting, Unicode whitespace trimming, \<open>lines\<close>, and the
  \<open>FromStr\<close> parsers of unsigned integers and IP addresses.
\<close>

section \<open>Prefixes, suffixes and splitting\<close>

definition starts_with :: "string \<Rightarrow> string \<Rightarrow> bool" where
  "starts_with p s \<longleftrightarrow> take (length p) s = p"

definition ends_with :: "string \<Rightarrow> string \<Rightarrow> bool" where
  "ends_with p s \<longleftrightarrow> length p \<le> length s \<and> drop (length s - length p) s = p"

definition strip_prefix :: "string \<Rightarrow> string \<Rightarrow> string option" where
  "strip_prefix p s = (if starts_with p s then Some (drop (length p) s) else None)"

definition strip_suffix :: "string \<Rightarrow> string \<Rightarrow> string option" where
  "strip_suffix p s = (if ends_with p s then Some (take (length s - length p) s) else None)"

definition split_once :: "char \<Rightarrow> string \<Rightarrow> (string \<times> string) option" where
  "split_once c s =
     (if c \<in> set s then Some (takeWhile (\<lambda>x. x \<noteq> c) s, drop 1 (dropWhile (\<lambda>x. x \<noteq> c) s)) else None)"

definition rsplit_once :: "char \<Rightarrow> string \<Rightarrow> (string \<times> string) option" where
  "rsplit_once c s = map_option (\<lambda>(a, b). (rev b, rev a)) (split_once c (rev s))"

text \<open>\<open>rsplitn(n, c)\<close> yields at most \<open>n\<close> parts, rightmost first; the last one is the unsplit rest.\<close>

fun rsplitn :: "nat \<Rightarrow> char \<Rightarrow> string \<Rightarrow> string list" where
  "rsplitn 0 c s = []"
| "rsplitn (Suc 0) c s = [s]"
| "rsplitn (Suc (Suc n)) c s =
     (case rsplit_once c s of None \<Rightarrow> [s] | Some (a, b) \<Rightarrow> b # rsplitn (Suc n) c a)"

fun split_char :: "char \<Rightarrow> string \<Rightarrow> string list" where
  "split_char c [] = [[]]"
| "split_char c (x # xs) =
     (if x = c then [] # split_char c xs
      else case split_char c xs of [] \<Rightarrow> [[x]] | p # ps \<Rightarrow> (x # p) # ps)"

definition trim_end_char :: "char \<Rightarrow> string \<Rightarrow> string" where
  "trim_end_char c s = rev (dropWhile (\<lambda>x. x = c) (rev s))"

fun contains_str :: "string \<Rightarrow> string \<Rightarrow> bool" where
  "contains_str p [] = (p = [])"
| "contains_str p (x # xs) = (starts_with p (x # xs) \<or> contains_str p xs)"

text \<open>\<open>replacen(p, q, 1)\<close>.\<close>

fun replace_first :: "string \<Rightarrow> string \<Rightarrow> string \<Rightarrow> string" where
  "replace_first p q [] = (if p = [] then q else [])"
| "replace_first p q (x # xs) =
     (if starts_with p (x # xs) then q @ drop (length p) (x # xs) else x # replace_first p q xs)"

lemma starts_with_append [simp]: "starts_with p (p @ s)"
  by (simp add: starts_with_def)

lemma starts_with_iff: "starts_with p s \<longleftrightarrow> (\<exists>r. s = p @ r)"
  by (auto simp: starts_with_def) (metis append_take_drop_id)

lemma strip_prefix_append [simp]: "strip_prefix p (p @ s) = Some s"
  by (simp add: strip_prefix_def)

lemma strip_suffix_append [simp]: "strip_suffix p (s @ p) = Some s"
  by (simp add: strip_suffix_def ends_with_def)

lemma strip_suffix_Some: "strip_suffix p s = Some r \<longleftrightarrow> s = r @ p"
proof
  assume "strip_suffix p s = Some r"
  then show "s = r @ p"
    by (auto simp: strip_suffix_def ends_with_def split: if_splits) (metis append_take_drop_id)
qed simp

lemma split_once_append:
  "c \<notin> set a \<Longrightarrow> split_once c (a @ c # b) = Some (a, b)"
  by (simp add: split_once_def takeWhile_append dropWhile_append)

lemma split_once_None: "c \<notin> set s \<Longrightarrow> split_once c s = None"
  by (simp add: split_once_def)

lemma split_once_Some:
  assumes "split_once c s = Some (a, b)"
  shows "s = a @ c # b \<and> c \<notin> set a"
proof -
  from assms have c: "c \<in> set s" and a: "a = takeWhile (\<lambda>x. x \<noteq> c) s"
    and b: "b = drop 1 (dropWhile (\<lambda>x. x \<noteq> c) s)"
    by (auto simp: split_once_def split: if_splits)
  from c have ne: "dropWhile (\<lambda>x. x \<noteq> c) s \<noteq> []" by (auto simp: dropWhile_eq_Nil_conv)
  from hd_dropWhile [OF ne] have "hd (dropWhile (\<lambda>x. x \<noteq> c) s) = c" by simp
  with ne have "dropWhile (\<lambda>x. x \<noteq> c) s = c # b"
    by (metis b drop0 drop_Suc list.collapse One_nat_def)
  then have "s = a @ c # b" by (metis a takeWhile_dropWhile_id)
  moreover have "c \<notin> set a" by (auto simp: a dest: set_takeWhileD)
  ultimately show ?thesis by simp
qed

lemma rsplit_once_append:
  "c \<notin> set b \<Longrightarrow> rsplit_once c (a @ c # b) = Some (a, b)"
  by (simp add: rsplit_once_def split_once_append)

section \<open>Whitespace\<close>

text \<open>The code points of the Unicode \<open>White_Space\<close> property, UTF-8 encoded.\<close>

definition ws_seqs :: "string list" where
  "ws_seqs =
     [[CHR 0x09], [CHR 0x0A], [CHR 0x0B], [CHR 0x0C], [CHR 0x0D], [CHR 0x20],
      [CHR 0xC2, CHR 0x85], [CHR 0xC2, CHR 0xA0], [CHR 0xE1, CHR 0x9A, CHR 0x80],
      [CHR 0xE2, CHR 0x80, CHR 0x80], [CHR 0xE2, CHR 0x80, CHR 0x81],
      [CHR 0xE2, CHR 0x80, CHR 0x82], [CHR 0xE2, CHR 0x80, CHR 0x83],
      [CHR 0xE2, CHR 0x80, CHR 0x84], [CHR 0xE2, CHR 0x80, CHR 0x85],
      [CHR 0xE2, CHR 0x80, CHR 0x86], [CHR 0xE2, CHR 0x80, CHR 0x87],
      [CHR 0xE2, CHR 0x80, CHR 0x88], [CHR 0xE2, CHR 0x80, CHR 0x89],
      [CHR 0xE2, CHR 0x80, CHR 0x8A], [CHR 0xE2, CHR 0x80, CHR 0xA8],
      [CHR 0xE2, CHR 0x80, CHR 0xA9], [CHR 0xE2, CHR 0x80, CHR 0xAF],
      [CHR 0xE2, CHR 0x81, CHR 0x9F], [CHR 0xE3, CHR 0x80, CHR 0x80]]"

definition ws_prefix :: "string list \<Rightarrow> string \<Rightarrow> nat" where
  "ws_prefix seqs s = (case find (\<lambda>w. starts_with w s) seqs of None \<Rightarrow> 0 | Some w \<Rightarrow> length w)"

lemma ws_prefix_le: "ws_prefix seqs s \<le> length s"
proof (cases "find (\<lambda>w. starts_with w s) seqs")
  case (Some w)
  then have "starts_with w s" by (auto simp: find_Some_iff)
  then show ?thesis using Some by (auto simp: ws_prefix_def starts_with_iff)
qed (simp add: ws_prefix_def)

function strip_ws :: "string list \<Rightarrow> string \<Rightarrow> string" where
  "strip_ws seqs s = (if ws_prefix seqs s = 0 then s else strip_ws seqs (drop (ws_prefix seqs s) s))"
  by pat_completeness auto
termination
proof (relation "measure (\<lambda>(seqs, s). length s)")
  fix seqs s
  assume "ws_prefix seqs s \<noteq> 0"
  then show "((seqs, drop (ws_prefix seqs s) s), seqs, s) \<in> measure (\<lambda>(seqs, s). length s)"
    using ws_prefix_le [of seqs s] by auto
qed simp

declare strip_ws.simps [simp del]

lemma length_strip_ws: "length (strip_ws seqs s) \<le> length s"
proof (induction seqs s rule: strip_ws.induct)
  case (1 seqs s)
  then show ?case by (cases "ws_prefix seqs s = 0") (simp_all add: strip_ws.simps [of seqs s])
qed

definition trim_start :: "string \<Rightarrow> string" where
  "trim_start s = strip_ws ws_seqs s"

definition trim_end :: "string \<Rightarrow> string" where
  "trim_end s = rev (strip_ws (map rev ws_seqs) (rev s))"

definition trim :: "string \<Rightarrow> string" where
  "trim s = trim_end (trim_start s)"

text \<open>Trimming text that starts and ends with visible ASCII and is followed by blanks.\<close>

definition ws_sensitive :: "char \<Rightarrow> bool" where
  "ws_sensitive c \<longleftrightarrow> (of_char c :: nat) \<le> 0x20 \<or> 0x7f \<le> (of_char c :: nat)"

lemma ws_prefix_visible:
  assumes "\<not> ws_sensitive c"
  shows "ws_prefix ws_seqs (c # cs) = 0" "ws_prefix (map rev ws_seqs) (c # cs) = 0"
proof -
  have "list_all (\<lambda>w. w \<noteq> [] \<and> ws_sensitive (hd w)) (ws_seqs @ map rev ws_seqs)" by code_simp
  then have seqs: "w \<noteq> []" "ws_sensitive (hd w)" if "w \<in> set ws_seqs \<union> set (map rev ws_seqs)" for w
    using that unfolding list_all_iff by auto
  have "\<not> starts_with w (c # cs)" if "w \<in> set ws_seqs \<union> set (map rev ws_seqs)" for w
    using seqs [OF that] assms by (cases w) (auto simp: starts_with_iff)
  then have "find (\<lambda>w. starts_with w (c # cs)) ws_seqs = None" "find (\<lambda>w. starts_with w (c # cs)) (map rev ws_seqs) = None"
    by (auto simp: find_None_iff)
  then show "ws_prefix ws_seqs (c # cs) = 0" "ws_prefix (map rev ws_seqs) (c # cs) = 0"
    by (simp_all add: ws_prefix_def)
qed

lemma ws_prefix_blank: "ws_prefix (map rev ws_seqs) (CHR '' '' # cs) = 1"
  by (simp add: ws_prefix_def ws_seqs_def starts_with_def)

lemma trim_blanks:
  assumes "s \<noteq> []" "\<not> ws_sensitive (hd s)" "\<not> ws_sensitive (last s)"
  shows "trim (s @ replicate n (CHR '' '')) = s"
proof -
  have "ws_prefix ws_seqs (s @ replicate n (CHR '' '')) = 0"
    using assms(1,2) ws_prefix_visible(1) by (cases s) simp_all
  then have start: "trim_start (s @ replicate n (CHR '' '')) = s @ replicate n (CHR '' '')"
    by (simp add: trim_start_def strip_ws.simps)
  have stop: "strip_ws (map rev ws_seqs) (rev s) = rev s"
    using assms(1,3) ws_prefix_visible(2) by (cases s rule: rev_cases) (simp_all add: strip_ws.simps)
  have "strip_ws (map rev ws_seqs) (replicate n (CHR '' '') @ rev s) = rev s"
    by (induction n) (use stop in \<open>simp_all add: strip_ws.simps [of _ "CHR '' '' # _"] ws_prefix_blank\<close>)
  then show ?thesis by (simp add: trim_def trim_end_def start)
qed

text \<open>The longest prefix without whitespace, for \<open>split_whitespace\<close>.\<close>

fun word_len :: "string \<Rightarrow> nat" where
  "word_len [] = 0"
| "word_len (x # xs) = (if ws_prefix ws_seqs (x # xs) = 0 then Suc (word_len xs) else 0)"

function split_whitespace :: "string \<Rightarrow> string list" where
  "split_whitespace s =
     (let t = trim_start s; n = word_len t in
      if n = 0 then [] else take n t # split_whitespace (drop n t))"
  by pat_completeness auto
termination
proof (relation "measure length")
  fix s t n
  assume "t = trim_start s" "n = word_len t" "n \<noteq> 0"
  moreover from this have "0 < length t" by (cases t) auto
  moreover have "length t \<le> length s"
    using length_strip_ws [of ws_seqs s] calculation(1) by (simp add: trim_start_def)
  ultimately have "length t - n < length s" by linarith
  then show "(drop n t, s) \<in> measure length" by simp
qed simp

declare split_whitespace.simps [simp del]

text \<open>\<open>lines\<close> splits after line feeds, drops the line feed and one carriage return before it,
  and yields no empty last line.\<close>

definition strip_cr :: "string \<Rightarrow> string" where
  "strip_cr s = (case strip_suffix [CHR 0x0D] s of Some r \<Rightarrow> r | None \<Rightarrow> s)"

definition lines_of :: "string \<Rightarrow> string list" where
  "lines_of s =
     (let ps = split_char (CHR 0x0A) s in
      map strip_cr (butlast ps) @ (if last ps = [] then [] else [last ps]))"

section \<open>Parsers\<close>

text \<open>\<open>u16::from_str\<close> and its kin: an optional plus sign, at least one decimal digit, no overflow.\<close>

definition digit_of :: "nat \<Rightarrow> char \<Rightarrow> nat option" where
  "digit_of radix c =
     (let n = of_char c :: nat;
          v = if 48 \<le> n \<and> n \<le> 57 then n - 48
              else if 97 \<le> n \<and> n \<le> 122 then n - 87
              else if 65 \<le> n \<and> n \<le> 90 then n - 55 else radix
      in if v < radix then Some v else None)"

fun digits_value :: "nat \<Rightarrow> nat \<Rightarrow> string \<Rightarrow> nat option" where
  "digits_value radix acc [] = Some acc"
| "digits_value radix acc (c # cs) =
     (case digit_of radix c of None \<Rightarrow> None | Some d \<Rightarrow> digits_value radix (radix * acc + d) cs)"

definition from_str_radix :: "nat \<Rightarrow> nat \<Rightarrow> string \<Rightarrow> nat option" where
  "from_str_radix radix bound s =
     (let ds = (case s of c # cs \<Rightarrow> if c = CHR ''+'' then cs else s | [] \<Rightarrow> []) in
      if ds = [] then None
      else case digits_value radix 0 ds of
             None \<Rightarrow> None
           | Some n \<Rightarrow> if n < bound then Some n else None)"

definition parse_uint :: "nat \<Rightarrow> string \<Rightarrow> nat option" where
  "parse_uint bound s = from_str_radix 10 bound s"

lemma from_str_radix_bound: "from_str_radix r b s = Some n \<Longrightarrow> n < b"
  by (auto simp: from_str_radix_def Let_def split: if_splits option.splits list.splits)

lemma parse_uint_bound: "parse_uint b s = Some n \<Longrightarrow> n < b"
  by (simp add: parse_uint_def from_str_radix_bound)

text \<open>\<open>IpAddr::from_str\<close>, as a recogniser: each reader returns what is left of the input. A number
  has at most \<open>max_digits\<close> digits, and only hexadecimal groups may start with a zero.\<close>

definition read_number :: "nat \<Rightarrow> nat \<Rightarrow> bool \<Rightarrow> nat \<Rightarrow> string \<Rightarrow> string option" where
  "read_number radix max_digits allow_zero_prefix bound s =
     (let ds = takeWhile (\<lambda>c. digit_of radix c \<noteq> None) s in
      if ds = [] \<or> max_digits < length ds then None
      else if \<not> allow_zero_prefix \<and> hd ds = CHR ''0'' \<and> 1 < length ds then None
      else case digits_value radix 0 ds of
             None \<Rightarrow> None
           | Some n \<Rightarrow> if n < bound then Some (drop (length ds) s) else None)"

definition read_separator :: "char \<Rightarrow> nat \<Rightarrow> (string \<Rightarrow> string option) \<Rightarrow> string \<Rightarrow> string option" where
  "read_separator sep i inner s =
     (if i = 0 then inner s
      else case s of c # cs \<Rightarrow> if c = sep then inner cs else None | [] \<Rightarrow> None)"

definition read_ipv4_addr :: "string \<Rightarrow> string option" where
  "read_ipv4_addr s =
     fold (\<lambda>i r. case r of None \<Rightarrow> None
                  | Some t \<Rightarrow> read_separator (CHR ''.'') i (read_number 10 3 False 256) t)
       [0..<4] (Some s)"

text \<open>\<open>read_groups limit i s\<close>: how many 16-bit groups were read, whether they ended in an embedded
  IPv4 address, and the rest.\<close>

fun read_groups :: "nat \<Rightarrow> nat \<Rightarrow> string \<Rightarrow> nat \<times> bool \<times> string" where
  "read_groups 0 i s = (i, False, s)"
| "read_groups (Suc left) i s =
     (case (if 0 < left then read_separator (CHR '':'') i read_ipv4_addr s else None) of
        Some r \<Rightarrow> (i + 2, True, r)
      | None \<Rightarrow>
          (case read_separator (CHR '':'') i (read_number 16 4 True 65536) s of
             None \<Rightarrow> (i, False, s)
           | Some r \<Rightarrow> read_groups left (Suc i) r))"

definition read_ipv6_addr :: "string \<Rightarrow> string option" where
  "read_ipv6_addr s =
     (case read_groups 8 0 s of (head_size, head_ipv4, r) \<Rightarrow>
        if head_size = 8 then Some r
        else if head_ipv4 then None
        else case strip_prefix ''::'' r of
               None \<Rightarrow> None
             | Some t \<Rightarrow> Some (snd (snd (read_groups (8 - (head_size + 1)) 0 t))))"

definition is_ipv4_addr :: "string \<Rightarrow> bool" where
  "is_ipv4_addr s \<longleftrightarrow> length s \<le> 15 \<and> read_ipv4_addr s = Some []"

definition is_ip_addr :: "string \<Rightarrow> bool" where
  "is_ip_addr s \<longleftrightarrow>
     (case read_ipv4_addr s of Some r \<Rightarrow> r = []
      | None \<Rightarrow> (case read_ipv6_addr s of Some r \<Rightarrow> r = [] | None \<Rightarrow> False))"

section \<open>Formatting and case folding\<close>

definition to_ascii_lowercase :: "string \<Rightarrow> string" where
  "to_ascii_lowercase s =
     map (\<lambda>c. let n = of_char c :: nat in if 65 \<le> n \<and> n \<le> 90 then char_of (n + 32) else c) s"

definition digit_char :: "nat \<Rightarrow> char" where
  "digit_char d = char_of (48 + d)"

function decimal :: "nat \<Rightarrow> string" where
  "decimal n = (if n < 10 then [digit_char n] else decimal (n div 10) @ [digit_char (n mod 10)])"
  by pat_completeness auto
termination
  by (relation "measure id") auto

declare decimal.simps [simp del]

lemma digit_of_digit_char: "d < 10 \<Longrightarrow> digit_of 10 (digit_char d) = Some d"
  by (simp add: digit_of_def digit_char_def)

lemma digits_value_append:
  "digits_value r a (xs @ ys) = (case digits_value r a xs of None \<Rightarrow> None | Some b \<Rightarrow> digits_value r b ys)"
  by (induction xs arbitrary: a) (auto split: option.splits)

lemma digits_value_decimal: "digits_value 10 0 (decimal n) = Some n"
proof (induction n rule: decimal.induct)
  case (1 n)
  then show ?case
    by (subst decimal.simps) (auto simp: digits_value_append digit_of_digit_char)
qed

lemma decimal_not_Nil [simp]: "decimal n \<noteq> []"
  by (subst decimal.simps) simp

lemma decimal_digits: "c \<in> set (decimal n) \<Longrightarrow> digit_of 10 c \<noteq> None"
proof (induction n rule: decimal.induct)
  case (1 n)
  show ?case
  proof (cases "n < 10")
    case True
    then have "decimal n = [digit_char n]" by (simp add: decimal.simps)
    with 1 True show ?thesis by (simp add: digit_of_digit_char)
  next
    case False
    then have "decimal n = decimal (n div 10) @ [digit_char (n mod 10)]" by (subst decimal.simps) simp
    with 1(2) have "c \<in> set (decimal (n div 10)) \<or> c = digit_char (n mod 10)" by auto
    moreover have "digit_of 10 (digit_char (n mod 10)) \<noteq> None" by (simp add: digit_of_digit_char)
    ultimately show ?thesis using 1(1) [OF False] by blast
  qed
qed

lemma decimal_inj: "decimal m = decimal n \<Longrightarrow> m = n"
  by (metis digits_value_decimal option.inject)

lemma parse_decimal: "n < b \<Longrightarrow> parse_uint b (decimal n) = Some n"
proof -
  assume b: "n < b"
  obtain c cs where d: "decimal n = c # cs" by (cases "decimal n") simp_all
  have "digit_of 10 c \<noteq> None" by (rule decimal_digits [of _ n]) (simp add: d)
  then have "c \<noteq> CHR ''+''" by (auto simp: digit_of_def)
  with d digits_value_decimal [of n] b show ?thesis by (simp add: parse_uint_def from_str_radix_def)
qed

end
