(* ===== verification/Net.thy ===== *)
theory Net
  imports Rust_Str
begin

text \<open>
  Asynchronous operations with time. The state of a running task holds a clock and an opaque
  network; an operation returns its result, or \<open>None\<close> when it never completes, and the next
  state. A primitive network operation says how long it takes. \<open>timeout\<close> is
  \<open>tokio::time::timeout\<close>: it always completes, at the latest when its limit has passed.

  The section on time bounds proves once what every component uses: code built from
  timeouts, pure steps and bounded loops returns, within the sum of its limits.
\<close>

section \<open>The monad\<close>

record 'w sys =
  clock :: nat
  net :: 'w

text \<open>Clock ticks are milliseconds: \<open>Duration::from_secs\<close>.\<close>

definition from_secs :: "nat \<Rightarrow> nat" where
  "from_secs n = 1000 * n"

type_synonym ('s, 'a) io = "'s \<Rightarrow> 'a option \<times> 's"

definition io_return :: "'a \<Rightarrow> ('s, 'a) io" where
  "io_return a s = (Some a, s)"

definition io_bind :: "('s, 'a) io \<Rightarrow> ('a \<Rightarrow> ('s, 'b) io) \<Rightarrow> ('s, 'b) io" where
  "io_bind m k s = (case m s of (None, t) \<Rightarrow> (None, t) | (Some a, t) \<Rightarrow> k a t)"

definition io_get :: "('s \<Rightarrow> 'a) \<Rightarrow> ('s, 'a) io" where
  "io_get f s = (Some (f s), s)"

definition io_update :: "('s \<Rightarrow> 's) \<Rightarrow> ('s, unit) io" where
  "io_update f s = (Some (), f s)"

text \<open>An operation of the network, with its duration.\<close>

type_synonym ('w, 'a) prim = "'w \<Rightarrow> ('a \<times> nat) option \<times> 'w"

definition perform :: "('w, 'a) prim \<Rightarrow> (('w, 'b) sys_scheme, 'a) io" where
  "perform p s =
     (case p (net s) of
        (None, w) \<Rightarrow> (None, s\<lparr>net := w\<rparr>)
      | (Some (a, d), w) \<Rightarrow> (Some a, s\<lparr>net := w, clock := clock s + d\<rparr>))"

definition timeout :: "nat \<Rightarrow> (('w, 'b) sys_scheme, 'a) io \<Rightarrow> (('w, 'b) sys_scheme, 'a option) io" where
  "timeout limit m s =
     (case m s of
        (Some a, t) \<Rightarrow>
          if clock t \<le> clock s + limit then (Some (Some a), t) else (Some None, t\<lparr>clock := clock s + limit\<rparr>)
      | (None, t) \<Rightarrow> (Some None, t\<lparr>clock := clock s + limit\<rparr>))"

lemma io_simps [simp]:
  "io_bind (io_return a) k = k a"
  "io_bind m io_return = m"
  "io_get f s = (Some (f s), s)"
  "io_update g s = (Some (), g s)"
  by (auto simp: io_bind_def io_return_def io_get_def io_update_def fun_eq_iff split: prod.splits option.splits)

section \<open>Time bounds\<close>

text \<open>\<open>forward m\<close>: the clock does not run backwards. \<open>returns_within n m\<close>: \<open>m\<close> completes, and takes
  at most \<open>n\<close>.\<close>

definition forward :: "(('w, 'b) sys_scheme, 'a) io \<Rightarrow> bool" where
  "forward m \<longleftrightarrow> (\<forall>s. clock s \<le> clock (snd (m s)))"

definition returns_within :: "nat \<Rightarrow> (('w, 'b) sys_scheme, 'a) io \<Rightarrow> bool" where
  "returns_within n m \<longleftrightarrow>
     (\<forall>s. fst (m s) \<noteq> None \<and> clock s \<le> clock (snd (m s)) \<and> clock (snd (m s)) \<le> clock s + n)"

named_theorems timing \<open>rules for \<open>forward\<close> and \<open>returns_within\<close>\<close>

lemma forward_return [timing]: "forward (io_return a)"
  and forward_get [timing]: "forward (io_get f)"
  by (simp_all add: forward_def io_return_def)

lemma forward_perform [timing]: "forward (perform p)"
  by (auto simp: forward_def perform_def split: prod.splits option.splits)

lemma forward_bind [timing]: "forward m \<Longrightarrow> (\<And>a. forward (k a)) \<Longrightarrow> forward (io_bind m k)"
  unfolding forward_def io_bind_def
  by (auto split: prod.splits option.splits intro: le_trans)

lemma within_forward: "returns_within n m \<Longrightarrow> forward m"
  by (simp add: forward_def returns_within_def)

lemma within_return [timing]: "returns_within 0 (io_return a)"
  and within_get [timing]: "returns_within 0 (io_get f)"
  by (simp_all add: returns_within_def io_return_def)

lemma within_update [timing]: "(\<And>s. clock (f s) = clock s) \<Longrightarrow> returns_within 0 (io_update f)"
  by (simp add: returns_within_def)

lemma within_timeout [timing]: "forward m \<Longrightarrow> returns_within n (timeout n m)"
  by (auto simp: returns_within_def timeout_def forward_def split: prod.splits option.splits)
     (metis snd_conv)+

lemma within_mono: "returns_within n m \<Longrightarrow> n \<le> n' \<Longrightarrow> returns_within n' m"
  unfolding returns_within_def by (meson add_left_mono le_trans)

text \<open>A result \<open>m\<close> can have, so that what follows is only bounded for those.\<close>

definition yields :: "('s, 'a) io \<Rightarrow> 'a \<Rightarrow> bool" where
  "yields m x \<longleftrightarrow> (\<exists>s t. m s = (Some x, t))"

lemma within_bind_yields:
  assumes "returns_within a m" "\<And>x. yields m x \<Longrightarrow> returns_within b (k x)"
  shows "returns_within (a + b) (io_bind m k)"
  unfolding returns_within_def
proof
  fix s
  obtain x t where m: "m s = (Some x, t)"
    using assms(1) by (metis not_None_eq prod.collapse returns_within_def)
  with assms(1) have "clock s \<le> clock t" "clock t \<le> clock s + a"
    by (metis returns_within_def snd_conv)+
  moreover have "fst (k x t) \<noteq> None \<and> clock t \<le> clock (snd (k x t)) \<and> clock (snd (k x t)) \<le> clock t + b"
    using assms(2) [of x] m by (auto simp: returns_within_def yields_def)
  ultimately show "fst (io_bind m k s) \<noteq> None \<and> clock s \<le> clock (snd (io_bind m k s)) \<and>
      clock (snd (io_bind m k s)) \<le> clock s + (a + b)"
    by (simp add: io_bind_def m)
qed

lemma within_bind [timing]:
  "returns_within a m \<Longrightarrow> (\<And>x. returns_within b (k x)) \<Longrightarrow> returns_within (a + b) (io_bind m k)"
  by (rule within_bind_yields)

lemma within_ret: "returns_within n (io_return a)"
  by (rule within_mono [OF within_return]) simp

lemma within_bind0: "returns_within 0 m \<Longrightarrow> (\<And>x. yields m x \<Longrightarrow> returns_within n (k x)) \<Longrightarrow> returns_within n (io_bind m k)"
  using within_bind_yields [of 0 m n k] by simp

lemma within_bind_ret: "returns_within n m \<Longrightarrow> (\<And>x. returns_within 0 (k x)) \<Longrightarrow> returns_within n (io_bind m k)"
  using within_bind_yields [of n m 0 k] by simp

lemma within_timeout_return: "forward m \<Longrightarrow> returns_within n (io_bind (timeout n m) (\<lambda>r. io_return (f r)))"
  using within_bind [OF within_timeout within_return, of m n f] by simp

lemma within_if [timing]:
  "(c \<Longrightarrow> returns_within n m) \<Longrightarrow> (\<not> c \<Longrightarrow> returns_within n m') \<Longrightarrow> returns_within n (if c then m else m')"
  by simp

lemma forward_if [timing]: "(c \<Longrightarrow> forward m) \<Longrightarrow> (\<not> c \<Longrightarrow> forward m') \<Longrightarrow> forward (if c then m else m')"
  by simp

lemma within_case_option [timing]:
  "(x = None \<Longrightarrow> returns_within n a) \<Longrightarrow> (\<And>y. x = Some y \<Longrightarrow> returns_within n (b y)) \<Longrightarrow>
   returns_within n (case x of None \<Rightarrow> a | Some y \<Rightarrow> b y)"
  by (cases x) simp_all

lemma forward_case_option [timing]:
  "forward a \<Longrightarrow> (\<And>y. forward (b y)) \<Longrightarrow> forward (case x of None \<Rightarrow> a | Some y \<Rightarrow> b y)"
  by (cases x) simp_all

lemma forward_case_sum [timing]:
  "(\<And>e. forward (a e)) \<Longrightarrow> (\<And>y. forward (b y)) \<Longrightarrow> forward (case x of Inl e \<Rightarrow> a e | Inr y \<Rightarrow> b y)"
  by (cases x) simp_all

lemma within_Some: "returns_within n m \<Longrightarrow> \<exists>a t. m s = (Some a, t) \<and> clock s \<le> clock t \<and> clock t \<le> clock s + n"
  by (metis not_None_eq prod.collapse returns_within_def snd_conv)

section \<open>Results\<close>

text \<open>\<open>ensures P m\<close>: every result of \<open>m\<close> satisfies \<open>P\<close>.\<close>

definition ensures :: "('a \<Rightarrow> bool) \<Rightarrow> ('s, 'a) io \<Rightarrow> bool" where
  "ensures P m \<longleftrightarrow> (\<forall>s. case fst (m s) of Some x \<Rightarrow> P x | None \<Rightarrow> True)"

lemma ensures_return: "P a \<Longrightarrow> ensures P (io_return a)"
  by (simp add: ensures_def io_return_def)

lemma ensures_bind: "ensures Q m \<Longrightarrow> (\<And>x. Q x \<Longrightarrow> ensures P (k x)) \<Longrightarrow> ensures P (io_bind m k)"
  unfolding ensures_def io_bind_def
proof
  fix s
  assume m: "\<forall>s. case fst (m s) of Some x \<Rightarrow> Q x | None \<Rightarrow> True"
    and k: "\<And>x. Q x \<Longrightarrow> \<forall>s. case fst (k x s) of Some y \<Rightarrow> P y | None \<Rightarrow> True"
  obtain r t where r: "m s = (r, t)" by (rule prod.exhaust)
  show "case fst (case m s of (None, t) \<Rightarrow> (None, t) | (Some a, t) \<Rightarrow> k a t) of Some x \<Rightarrow> P x | None \<Rightarrow> True"
  proof (cases r)
    case (Some x)
    with m r have "Q x" by (metis fst_conv option.simps(5))
    with k Some r show ?thesis by simp
  qed (simp add: r)
qed

lemma ensures_True: "ensures (\<lambda>_. True) m"
  by (simp add: ensures_def split: option.split)

lemma ensures_bind_any: "(\<And>x. ensures P (k x)) \<Longrightarrow> ensures P (io_bind m k)"
  by (rule ensures_bind [OF ensures_True])

lemma ensuresD: "ensures P m \<Longrightarrow> m s = (Some x, t) \<Longrightarrow> P x"
  unfolding ensures_def by (metis fst_conv option.simps(5))

lemma ensures_if: "(c \<Longrightarrow> ensures P m) \<Longrightarrow> (\<not> c \<Longrightarrow> ensures P m') \<Longrightarrow> ensures P (if c then m else m')"
  by simp

lemma ensures_case_option:
  "(x = None \<Longrightarrow> ensures P a) \<Longrightarrow> (\<And>y. x = Some y \<Longrightarrow> ensures P (b y)) \<Longrightarrow>
   ensures P (case x of None \<Rightarrow> a | Some y \<Rightarrow> b y)"
  by (cases x) simp_all

section \<open>Invariants\<close>

text \<open>\<open>keeps I P m\<close>: from a state where \<open>I\<close> holds, \<open>m\<close> ends in one where it holds, also when it does not
  complete, and every result satisfies \<open>P\<close>. \<open>off_net I\<close>: the invariant does not look at the network
  or the clock, so network operations cannot break it.\<close>

definition keeps :: "('s \<Rightarrow> bool) \<Rightarrow> ('a \<Rightarrow> bool) \<Rightarrow> ('s, 'a) io \<Rightarrow> bool" where
  "keeps I P m \<longleftrightarrow> (\<forall>s. I s \<longrightarrow> I (snd (m s)) \<and> (\<forall>x. fst (m s) = Some x \<longrightarrow> P x))"

definition off_net :: "(('w, 'b) sys_scheme \<Rightarrow> bool) \<Rightarrow> bool" where
  "off_net I \<longleftrightarrow> (\<forall>s w c. I s \<longrightarrow> I (s\<lparr>net := w\<rparr>) \<and> I (s\<lparr>clock := c\<rparr>))"

lemma off_netI:
  "(\<And>s w. I s \<Longrightarrow> I (s\<lparr>net := w\<rparr>)) \<Longrightarrow> (\<And>s c. I s \<Longrightarrow> I (s\<lparr>clock := c\<rparr>)) \<Longrightarrow> off_net I"
  by (simp add: off_net_def)

lemma keepsD: "keeps I P m \<Longrightarrow> I s \<Longrightarrow> m s = (r, t) \<Longrightarrow> I t \<and> (\<forall>x. r = Some x \<longrightarrow> P x)"
  unfolding keeps_def by (metis fst_conv snd_conv)

lemma keeps_state: "keeps I P m \<Longrightarrow> I s \<Longrightarrow> I (snd (m s))"
  by (simp add: keeps_def)

lemma keeps_mono: "keeps I Q m \<Longrightarrow> (\<And>x. Q x \<Longrightarrow> P x) \<Longrightarrow> keeps I P m"
  by (simp add: keeps_def)

lemma keeps_any: "keeps I P m \<Longrightarrow> keeps I (\<lambda>_. True) m"
  by (simp add: keeps_def)

lemma keeps_return: "P a \<Longrightarrow> keeps I P (io_return a)"
  by (simp add: keeps_def io_return_def)

lemma keeps_get: "(\<And>s. I s \<Longrightarrow> P (f s)) \<Longrightarrow> keeps I P (io_get f)"
  by (simp add: keeps_def)

lemma keeps_update: "(\<And>s. I s \<Longrightarrow> I (f s)) \<Longrightarrow> keeps I (\<lambda>_. True) (io_update f)"
  by (simp add: keeps_def)

lemma keeps_bind:
  assumes "keeps I Q m" "\<And>x. Q x \<Longrightarrow> keeps I P (k x)"
  shows "keeps I P (io_bind m k)"
  unfolding keeps_def
proof (intro allI impI)
  fix s
  assume s: "I s"
  obtain r t where m: "m s = (r, t)" by (rule prod.exhaust)
  note mid = keepsD [OF assms(1) s m]
  show "I (snd (io_bind m k s)) \<and> (\<forall>x. fst (io_bind m k s) = Some x \<longrightarrow> P x)"
    using mid assms(2) by (cases r) (auto simp: io_bind_def m keeps_def)
qed

lemma keeps_then: "keeps I (\<lambda>_. True) m \<Longrightarrow> (\<And>x. keeps I P (k x)) \<Longrightarrow> keeps I P (io_bind m k)"
  by (rule keeps_bind)

lemma keeps_perform:
  "off_net I \<Longrightarrow> (\<And>w x d w'. p w = (Some (x, d), w') \<Longrightarrow> P x) \<Longrightarrow> keeps I P (perform p)"
  by (auto simp: keeps_def perform_def off_net_def split: prod.splits option.splits)

lemma keeps_perform_any: "off_net I \<Longrightarrow> keeps I (\<lambda>_. True) (perform p)"
  by (rule keeps_perform) simp_all

lemma keeps_timeout:
  assumes "off_net I" "keeps I P m"
  shows "keeps I (\<lambda>r. \<forall>x. r = Some x \<longrightarrow> P x) (timeout n m)"
  unfolding keeps_def
proof (intro allI impI)
  fix s
  assume s: "I s"
  obtain r t where m: "m s = (r, t)" by (rule prod.exhaust)
  show "I (snd (timeout n m s)) \<and> (\<forall>r. fst (timeout n m s) = Some r \<longrightarrow> (\<forall>x. r = Some x \<longrightarrow> P x))"
    using keepsD [OF assms(2) s m] assms(1) by (cases r) (auto simp: timeout_def m off_net_def)
qed

lemma keeps_if:
  "(c \<Longrightarrow> keeps I P m) \<Longrightarrow> (\<not> c \<Longrightarrow> keeps I P m') \<Longrightarrow> keeps I P (if c then m else m')"
  by simp

lemma keeps_case_option:
  "(x = None \<Longrightarrow> keeps I P a) \<Longrightarrow> (\<And>y. x = Some y \<Longrightarrow> keeps I P (b y)) \<Longrightarrow>
   keeps I P (case x of None \<Rightarrow> a | Some y \<Rightarrow> b y)"
  by (cases x) simp_all

lemma keeps_case_sum:
  "(\<And>e. x = Inl e \<Longrightarrow> keeps I P (a e)) \<Longrightarrow> (\<And>y. x = Inr y \<Longrightarrow> keeps I P (b y)) \<Longrightarrow>
   keeps I P (case x of Inl e \<Rightarrow> a e | Inr y \<Rightarrow> b y)"
  by (cases x) simp_all

section \<open>Inverting a run\<close>

lemma io_bind_Some: "io_bind m k s = (Some x, t) \<longleftrightarrow> (\<exists>a u. m s = (Some a, u) \<and> k a u = (Some x, t))"
  by (auto simp: io_bind_def split: prod.splits option.splits)

lemma io_return_Some: "io_return a s = (Some x, t) \<longleftrightarrow> a = x \<and> t = s"
  by (auto simp: io_return_def)

lemma timeout_Some_Some: "timeout n m s = (Some (Some x), t) \<Longrightarrow> m s = (Some x, t)"
  by (auto simp: timeout_def split: prod.splits option.splits if_splits)

lemma perform_Some:
  "perform p s = (Some x, t) \<longleftrightarrow>
     (\<exists>d w. p (net s) = (Some (x, d), w) \<and> t = s\<lparr>net := w, clock := clock s + d\<rparr>)"
  by (auto simp: perform_def split: prod.splits option.splits)

lemma io_case_sum_Some:
  "(case r of Inl e \<Rightarrow> io_return None | Inr x \<Rightarrow> k x) u = (Some (Some y), t) \<longleftrightarrow> (\<exists>x. r = Inr x \<and> k x u = (Some (Some y), t))"
  by (cases r) (simp_all add: io_return_Some)

end
