(* ===== verification/Outbound.thy ===== *)
theory Outbound
  imports Net
begin

text \<open>
  The outbound connector (\<open>rust/src/outbound/\<close>): choosing the proxy from the command line and the
  environment, validating \<open>NO_PROXY\<close>, and opening a TCP stream directly or through an HTTP or
  SOCKS5 proxy.

  The crates \<open>url\<close>, \<open>percent_encoding\<close>, \<open>ipnet\<close> and \<open>proxyvars\<close> are the fields of a record that
  the operations take as an argument. The network is a second record of operations on an
  opaque world: each returns its result, the time it took (\<open>None\<close>: it never completes) and
  the next world, and \<open>timeout\<close> compares the time with its limit.
\<close>

section \<open>Configuration\<close>

record url =
  u_scheme :: string
  u_host :: "string option"
  u_port :: "u16 option"
  u_path :: string
  u_query :: "string option"
  u_fragment :: "string option"
  u_username :: string
  u_password :: "string option"

record outbound_crates =
  url_parse :: "string \<Rightarrow> url option"
  percent_decode :: "string \<Rightarrow> bytes"
  is_ipnet :: "string \<Rightarrow> bool"
  no_proxy_matches :: "string \<Rightarrow> string \<Rightarrow> bool"

datatype proxy_kind = Http | Socks5 (remote_dns: bool)

record proxy_config =
  pc_kind :: proxy_kind
  pc_host :: string
  pc_port :: u16
  pc_username :: "string option"
  pc_password :: "string option"

record outbound_config =
  oc_proxy :: "proxy_config option"
  oc_no_proxy :: "string option"

datatype config_error =
    InvalidProxyUrl | UrlHasPathQueryOrFragment | HttpsProxyUnsupported | UnsupportedScheme string
  | MissingHost | UserinfoNotUtf8 | PasswordWithoutUsername
  | NoSupportedEnvProxy string config_error
  | NoProxyScheme | NoProxyCidr | NoProxyUnbracketed | NoProxyBracketed | NoProxyPort | NoProxyHost

definition sum_bind :: "'e + 'a \<Rightarrow> ('a \<Rightarrow> 'e + 'b) \<Rightarrow> 'e + 'b" where
  "sum_bind m k = (case m of Inl e \<Rightarrow> Inl e | Inr x \<Rightarrow> k x)"

lemma sum_bind_simps [simp]: "sum_bind (Inl e) k = Inl e" "sum_bind (Inr x) k = k x"
  by (simp_all add: sum_bind_def)

lemma sum_bind_Inr: "sum_bind m k = Inr y \<longleftrightarrow> (\<exists>x. m = Inr x \<and> k x = Inr y)"
  by (cases m) auto

definition validate_proxy_url_shape :: "url \<Rightarrow> config_error + unit" where
  "validate_proxy_url_shape u =
     (if u_path u \<notin> {'''', ''/''} \<or> u_query u \<noteq> None \<or> u_fragment u \<noteq> None
      then Inl UrlHasPathQueryOrFragment else Inr ())"

fun default_port :: "proxy_kind \<Rightarrow> u16" where
  "default_port Http = 80"
| "default_port (Socks5 _) = 1080"

definition decode_required_userinfo :: "outbound_crates \<Rightarrow> string \<Rightarrow> config_error + string" where
  "decode_required_userinfo C v =
     (case from_utf8 (percent_decode C v) of None \<Rightarrow> Inl UserinfoNotUtf8 | Some s \<Rightarrow> Inr s)"

definition decode_userinfo :: "outbound_crates \<Rightarrow> string \<Rightarrow> config_error + string option" where
  "decode_userinfo C v =
     (if v = [] then Inr None else sum_bind (decode_required_userinfo C v) (\<lambda>s. Inr (Some s)))"

definition scheme_kind :: "string \<Rightarrow> config_error + proxy_kind" where
  "scheme_kind s =
     (if s = ''http'' then Inr Http
      else if s = ''socks5'' then Inr (Socks5 False)
      else if s = ''socks5h'' then Inr (Socks5 True)
      else if s = ''https'' then Inl HttpsProxyUnsupported
      else Inl (UnsupportedScheme s))"

definition parse_proxy_config :: "outbound_crates \<Rightarrow> string \<Rightarrow> config_error + proxy_config" where
  "parse_proxy_config C raw =
     (case url_parse C raw of
        None \<Rightarrow> Inl InvalidProxyUrl
      | Some u \<Rightarrow>
          sum_bind (validate_proxy_url_shape u) (\<lambda>_.
          sum_bind (scheme_kind (to_ascii_lowercase (u_scheme u))) (\<lambda>kind.
          case u_host u of
            None \<Rightarrow> Inl MissingHost
          | Some host \<Rightarrow>
              let port = (case u_port u of Some p \<Rightarrow> p | None \<Rightarrow> default_port kind) in
              sum_bind (decode_userinfo C (u_username u)) (\<lambda>username.
              sum_bind (case u_password u of None \<Rightarrow> Inr None
                        | Some p \<Rightarrow> sum_bind (decode_required_userinfo C p) (\<lambda>s. Inr (Some s))) (\<lambda>password.
              if username = None \<and> password \<noteq> None then Inl PasswordWithoutUsername
              else Inr \<lparr>pc_kind = kind, pc_host = host, pc_port = port,
                        pc_username = username, pc_password = password\<rparr>)))))"

definition http_host :: "string \<Rightarrow> string" where
  "http_host host =
     (if CHR '':'' \<in> set host \<and> \<not> starts_with ''['' host then ''['' @ host @ '']'' else host)"

definition authority :: "string \<Rightarrow> u16 \<Rightarrow> string" where
  "authority host port =
     (if CHR '':'' \<in> set host \<and> \<not> starts_with ''['' host
      then ''['' @ host @ '']:'' @ decimal (unat port)
      else host @ '':'' @ decimal (unat port))"

definition proxy_summary :: "proxy_config \<Rightarrow> string" where
  "proxy_summary p =
     (let scheme = (case pc_kind p of Http \<Rightarrow> ''http'' | Socks5 r \<Rightarrow> if r then ''socks5h'' else ''socks5'');
          auth = authority (pc_host p) (pc_port p)
      in if pc_username p \<noteq> None then scheme @ ''://user:***@'' @ auth else scheme @ ''://'' @ auth)"

definition target_url :: "string \<Rightarrow> u16 \<Rightarrow> string" where
  "target_url host port = ''https://'' @ authority host port"

definition is_direct_marker :: "string \<Rightarrow> bool" where
  "is_direct_marker v \<longleftrightarrow> to_ascii_lowercase (trim v) \<in> {''direct'', ''none'', ''off''}"

fun select_env_proxy ::
  "outbound_crates \<Rightarrow> (string \<times> config_error) option \<Rightarrow> (string \<times> string option) list
   \<Rightarrow> config_error + proxy_config option" where
  "select_env_proxy C first_error [] =
     (case first_error of Some (name, err) \<Rightarrow> Inl (NoSupportedEnvProxy name err) | None \<Rightarrow> Inr None)"
| "select_env_proxy C first_error ((name, v) # rest) =
     (case v of
        None \<Rightarrow> select_env_proxy C first_error rest
      | Some v \<Rightarrow>
          let v = trim v in
          if v = [] then select_env_proxy C first_error rest
          else if is_direct_marker v then Inr None
          else case parse_proxy_config C v of
                 Inr p \<Rightarrow> Inr (Some p)
               | Inl err \<Rightarrow>
                   select_env_proxy C (case first_error of None \<Rightarrow> Some (name, err) | Some e \<Rightarrow> Some e) rest)"

definition proxy_env_names :: "string list" where
  "proxy_env_names =
     [''HTTPS_PROXY'', ''https_proxy'', ''ALL_PROXY'', ''all_proxy'', ''HTTP_PROXY'', ''http_proxy'']"

definition select_proxy ::
  "outbound_crates \<Rightarrow> string option \<Rightarrow> bool \<Rightarrow> (string \<Rightarrow> string option) \<Rightarrow> config_error + proxy_config option" where
  "select_proxy C explicit use_env env_get =
     (let from_env =
        (if \<not> use_env then Inr None
         else select_env_proxy C None (map (\<lambda>n. (n, env_get n)) proxy_env_names))
      in case explicit of
           None \<Rightarrow> from_env
         | Some v \<Rightarrow>
             let v = trim v in
             if v = [] then from_env
             else if is_direct_marker v then Inr None
             else sum_bind (parse_proxy_config C v) (\<lambda>p. Inr (Some p)))"

definition first_non_empty :: "string option list \<Rightarrow> string option" where
  "first_non_empty vs =
     find (\<lambda>v. v \<noteq> []) (map trim (List.map_filter (\<lambda>x. x) vs))"

definition select_no_proxy :: "string option \<Rightarrow> bool \<Rightarrow> (string \<Rightarrow> string option) \<Rightarrow> string option" where
  "select_no_proxy explicit use_env env_get =
     (case explicit of
        Some v \<Rightarrow> Some (trim v)
      | None \<Rightarrow> if \<not> use_env then None else first_non_empty [env_get ''NO_PROXY'', env_get ''no_proxy''])"

definition validate_no_proxy_port :: "string \<Rightarrow> config_error + unit" where
  "validate_no_proxy_port port =
     (if port = [] \<or> parse_uint 65536 port = None then Inl NoProxyPort else Inr ())"

definition ascii_alphanumeric :: "char \<Rightarrow> bool" where
  "ascii_alphanumeric c \<longleftrightarrow>
     (let n = of_char c :: nat in (48 \<le> n \<and> n \<le> 57) \<or> (65 \<le> n \<and> n \<le> 90) \<or> (97 \<le> n \<and> n \<le> 122))"

definition bad_label :: "string \<Rightarrow> bool" where
  "bad_label label \<longleftrightarrow>
     label = [] \<or> starts_with ''-'' label \<or> ends_with ''-'' label \<or>
     \<not> list_all (\<lambda>b. ascii_alphanumeric b \<or> b = CHR ''-'') label"

definition validate_hostname_no_proxy :: "string \<Rightarrow> config_error + unit" where
  "validate_hostname_no_proxy host0 =
     (let host = (case strip_prefix ''*.'' host0 of
                    Some h \<Rightarrow> h
                  | None \<Rightarrow> (case strip_prefix ''.'' host0 of Some h \<Rightarrow> h | None \<Rightarrow> host0))
      in if host = [] \<or> list_ex (\<lambda>c. c \<in> set ''/[]:'') host \<or> list_ex bad_label (split_char (CHR ''.'') host)
         then Inl NoProxyHost else Inr ())"

definition is_ipv6_addr :: "string \<Rightarrow> bool" where
  "is_ipv6_addr s \<longleftrightarrow> read_ipv6_addr s = Some []"

definition validate_bracketed_ipv6_no_proxy :: "string \<Rightarrow> config_error + unit" where
  "validate_bracketed_ipv6_no_proxy entry =
     (case split_once (CHR '']'') entry of
        None \<Rightarrow> Inl NoProxyBracketed
      | Some (before, rest) \<Rightarrow>
          if \<not> is_ipv6_addr (drop 1 before) then Inl NoProxyBracketed
          else if rest = [] then Inr ()
          else case strip_prefix '':'' rest of
                 None \<Rightarrow> Inl NoProxyBracketed
               | Some port \<Rightarrow> validate_no_proxy_port port)"

definition validate_no_proxy_entry :: "outbound_crates \<Rightarrow> string \<Rightarrow> config_error + unit" where
  "validate_no_proxy_entry C entry =
     (if entry = ''*'' then Inr ()
      else if contains_str ''://'' entry then Inl NoProxyScheme
      else if is_ipnet C entry then Inr ()
      else if starts_with ''['' entry then validate_bracketed_ipv6_no_proxy entry
      else if CHR ''/'' \<in> set entry then Inl NoProxyCidr
      else case rsplit_once (CHR '':'') entry of
             Some (host, port) \<Rightarrow>
               if CHR '':'' \<in> set host then Inl NoProxyUnbracketed
               else sum_bind (validate_hostname_no_proxy host) (\<lambda>_. validate_no_proxy_port port)
           | None \<Rightarrow> validate_hostname_no_proxy entry)"

fun validate_entries :: "outbound_crates \<Rightarrow> string list \<Rightarrow> config_error + unit" where
  "validate_entries C [] = Inr ()"
| "validate_entries C (e # es) = sum_bind (validate_no_proxy_entry C e) (\<lambda>_. validate_entries C es)"

definition validate_no_proxy :: "outbound_crates \<Rightarrow> string \<Rightarrow> config_error + unit" where
  "validate_no_proxy C raw =
     validate_entries C (filter (\<lambda>e. e \<noteq> []) (map trim (split_char (CHR '','') raw)))"

definition from_sources_with_env ::
  "outbound_crates \<Rightarrow> string option \<Rightarrow> string option \<Rightarrow> bool \<Rightarrow> (string \<Rightarrow> string option)
   \<Rightarrow> config_error + outbound_config" where
  "from_sources_with_env C outbound_proxy no_proxy use_env env_get =
     sum_bind (select_proxy C outbound_proxy use_env env_get) (\<lambda>proxy.
     if proxy = None then Inr \<lparr>oc_proxy = proxy, oc_no_proxy = None\<rparr>
     else
       let source = select_no_proxy no_proxy use_env env_get in
       sum_bind (case source of Some np \<Rightarrow> if np \<noteq> [] then validate_no_proxy C np else Inr () | None \<Rightarrow> Inr ())
         (\<lambda>_. Inr \<lparr>oc_proxy = proxy,
                   oc_no_proxy = (case source of Some np \<Rightarrow> if np \<noteq> [] then Some np else None | None \<Rightarrow> None)\<rparr>))"

text \<open>The process environment; a value that is not UTF-8 counts as unset.\<close>

definition env_value :: "(string \<Rightarrow> bytes option) \<Rightarrow> string \<Rightarrow> string option" where
  "env_value environ name = (case environ name of Some v \<Rightarrow> from_utf8 v | None \<Rightarrow> None)"

definition from_sources ::
  "outbound_crates \<Rightarrow> string option \<Rightarrow> string option \<Rightarrow> bool \<Rightarrow> (string \<Rightarrow> bytes option)
   \<Rightarrow> config_error + outbound_config" where
  "from_sources C outbound_proxy no_proxy use_env environ =
     from_sources_with_env C outbound_proxy no_proxy use_env (env_value environ)"

section \<open>The connector\<close>

record outbound_error =
  oe_reason :: string
  oe_timed_out :: bool

definition error_failed :: "string \<Rightarrow> outbound_error" where
  "error_failed reason = \<lparr>oe_reason = reason, oe_timed_out = False\<rparr>"

definition error_timed_out :: "string \<Rightarrow> outbound_error" where
  "error_timed_out reason = \<lparr>oe_reason = reason, oe_timed_out = True\<rparr>"

text \<open>\<open>Display\<close>: the reason alone.\<close>

definition error_fmt :: "outbound_error \<Rightarrow> string" where
  "error_fmt e = oe_reason e"

type_synonym credentials = "(string \<times> string) option"

text \<open>A socket address is an address literal with a port.\<close>

datatype target_addr = TargetIp "string \<times> u16" | TargetDomain string u16

record ('w, 'st) net_ops =
  tcp_connect_op :: "string \<Rightarrow> ('w, string + 'st) prim"
  http_connect_op :: "'st \<Rightarrow> string \<Rightarrow> u16 \<Rightarrow> credentials \<Rightarrow> ('w, string + unit) prim"
  socks5_connect_op :: "string \<Rightarrow> target_addr \<Rightarrow> credentials \<Rightarrow> ('w, string + 'st) prim"
  lookup_host_op :: "string \<Rightarrow> u16 \<Rightarrow> ('w, string + (string \<times> u16) list) prim"

definition io_result :: "(string \<Rightarrow> string) \<Rightarrow> ('s, string + 'a) io \<Rightarrow> ('a \<Rightarrow> ('s, string + 'b) io) \<Rightarrow> ('s, string + 'b) io" where
  "io_result f m k = io_bind m (\<lambda>r. case r of Inl e \<Rightarrow> io_return (Inl (f e)) | Inr x \<Rightarrow> k x)"

lemma io_result_Inr:
  "io_result f m k s = (Some (Inr y), t) \<longleftrightarrow> (\<exists>x u. m s = (Some (Inr x), u) \<and> k x u = (Some (Inr y), t))"
proof -
  have "(case r of Inl e \<Rightarrow> io_return (Inl (f e)) | Inr x \<Rightarrow> k x) u = (Some (Inr y), t)
      \<longleftrightarrow> (\<exists>x. r = Inr x \<and> k x u = (Some (Inr y), t))" for r u
    by (cases r) (simp_all add: io_return_Some)
  then show ?thesis by (auto simp: io_result_def io_bind_Some)
qed

lemma forward_io_result [timing]: "forward m \<Longrightarrow> (\<And>x. forward (k x)) \<Longrightarrow> forward (io_result f m k)"
  unfolding io_result_def by (intro timing)

definition connect_tcp ::
  "('w, 'st, 'x) net_ops_scheme \<Rightarrow> string \<Rightarrow> u16 \<Rightarrow> (('w, 'b) sys_scheme, string + 'st) io" where
  "connect_tcp N host port =
     io_result (\<lambda>e. ''TCP connect: '' @ e) (perform (tcp_connect_op N (authority host port)))
       (\<lambda>st. io_return (Inr st))"

definition socks5_target ::
  "('w, 'st, 'x) net_ops_scheme \<Rightarrow> string \<Rightarrow> u16 \<Rightarrow> bool \<Rightarrow> (('w, 'b) sys_scheme, string + target_addr) io" where
  "socks5_target N host port remote =
     (if remote then
        (if is_ip_addr host then io_return (Inr (TargetIp (host, port)))
         else io_return (Inr (TargetDomain host port)))
      else
        io_result (\<lambda>e. ''SOCKS5 local DNS lookup: '' @ e) (perform (lookup_host_op N host port)) (\<lambda>addrs.
          case addrs of
            a # _ \<Rightarrow> io_return (Inr (TargetIp a))
          | [] \<Rightarrow> io_return (Inl ''SOCKS5 local DNS lookup returned no addresses'')))"

definition proxy_credentials :: "proxy_config \<Rightarrow> credentials" where
  "proxy_credentials p =
     map_option (\<lambda>u. (u, case pc_password p of Some pw \<Rightarrow> pw | None \<Rightarrow> [])) (pc_username p)"

definition connect_socks5_proxy ::
  "('w, 'st, 'x) net_ops_scheme \<Rightarrow> proxy_config \<Rightarrow> string \<Rightarrow> u16 \<Rightarrow> bool \<Rightarrow> (('w, 'b) sys_scheme, string + 'st) io" where
  "connect_socks5_proxy N proxy target_host target_port remote =
     (let proxy_addr = authority (pc_host proxy) (pc_port proxy) in
      io_result (\<lambda>e. e) (socks5_target N target_host target_port remote) (\<lambda>target.
      io_result (\<lambda>e. e) (perform (socks5_connect_op N proxy_addr target (proxy_credentials proxy)))
        (\<lambda>st. io_return (Inr st))))"

definition connect_http_proxy ::
  "('w, 'st, 'x) net_ops_scheme \<Rightarrow> proxy_config \<Rightarrow> string \<Rightarrow> u16 \<Rightarrow> (('w, 'b) sys_scheme, string + 'st) io" where
  "connect_http_proxy N proxy target_host target_port =
     io_result (\<lambda>e. e) (connect_tcp N (pc_host proxy) (pc_port proxy)) (\<lambda>stream.
     io_result (\<lambda>e. e)
       (perform (http_connect_op N stream (http_host target_host) target_port (proxy_credentials proxy)))
       (\<lambda>_. io_return (Inr stream)))"

definition connect_via_proxy ::
  "('w, 'st, 'x) net_ops_scheme \<Rightarrow> proxy_config \<Rightarrow> string \<Rightarrow> u16 \<Rightarrow> (('w, 'b) sys_scheme, string + 'st) io" where
  "connect_via_proxy N proxy target_host target_port =
     (case pc_kind proxy of
        Http \<Rightarrow> io_result (\<lambda>e. ''HTTP proxy '' @ proxy_summary proxy @ '': '' @ e)
                 (connect_http_proxy N proxy target_host target_port) (\<lambda>st. io_return (Inr st))
      | Socks5 remote \<Rightarrow> io_result (\<lambda>e. ''SOCKS5 proxy '' @ proxy_summary proxy @ '': '' @ e)
                 (connect_socks5_proxy N proxy target_host target_port remote) (\<lambda>st. io_return (Inr st)))"

definition classify_connect :: "string \<Rightarrow> (string + 'st) option \<Rightarrow> outbound_error + 'st" where
  "classify_connect late r =
     (case r of
        Some (Inr st) \<Rightarrow> Inr st
      | Some (Inl e) \<Rightarrow> Inl (error_failed e)
      | None \<Rightarrow> Inl (error_timed_out late))"

definition connect_direct ::
  "('w, 'st, 'x) net_ops_scheme \<Rightarrow> string \<Rightarrow> u16 \<Rightarrow> nat \<Rightarrow> (('w, 'b) sys_scheme, outbound_error + 'st) io" where
  "connect_direct N host port limit =
     io_bind (timeout limit (connect_tcp N host port))
       (\<lambda>r. io_return (classify_connect ''TCP connect timed out'' r))"

definition should_bypass :: "outbound_crates \<Rightarrow> outbound_config \<Rightarrow> string \<Rightarrow> u16 \<Rightarrow> bool" where
  "should_bypass C cfg host port =
     (case oc_no_proxy cfg of None \<Rightarrow> False | Some np \<Rightarrow> no_proxy_matches C np (target_url host port))"

definition outbound_direct :: outbound_config where
  "outbound_direct = \<lparr>oc_proxy = None, oc_no_proxy = None\<rparr>"

text \<open>An \<open>OutboundConnector\<close> is its configuration.\<close>

definition from_config ::
  "outbound_crates \<Rightarrow> string option \<Rightarrow> string option \<Rightarrow> bool \<Rightarrow> (string \<Rightarrow> bytes option)
   \<Rightarrow> config_error + outbound_config" where
  "from_config C outbound_proxy no_proxy use_env environ =
     sum_bind (from_sources C outbound_proxy no_proxy use_env environ) (\<lambda>cfg. Inr cfg)"

definition outbound_summary :: "outbound_config \<Rightarrow> string option" where
  "outbound_summary cfg = map_option proxy_summary (oc_proxy cfg)"

definition outbound_connect ::
  "('w, 'st, 'x) net_ops_scheme \<Rightarrow> outbound_crates \<Rightarrow> outbound_config \<Rightarrow> string \<Rightarrow> u16 \<Rightarrow> nat
   \<Rightarrow> (('w, 'b) sys_scheme, outbound_error + 'st) io" where
  "outbound_connect N C cfg target_host target_port limit =
     (case oc_proxy cfg of
        None \<Rightarrow> connect_direct N target_host target_port limit
      | Some proxy \<Rightarrow>
          if should_bypass C cfg target_host target_port
          then connect_direct N target_host target_port limit
          else
            io_bind (timeout limit (connect_via_proxy N proxy target_host target_port))
              (\<lambda>r. io_return (classify_connect (''proxy '' @ proxy_summary proxy @ '' handshake timed out'') r)))"

section \<open>Time bounds of a connect\<close>

lemma forward_connect_tcp [timing]: "forward (connect_tcp N h p)"
  unfolding connect_tcp_def by (intro timing)

lemma forward_connect_via_proxy [timing]: "forward (connect_via_proxy N p h port)"
proof -
  have t: "forward (socks5_target N h port r)" for r
    unfolding socks5_target_def by (intro timing) (simp_all split: list.split add: timing)
  show ?thesis
    unfolding connect_via_proxy_def connect_http_proxy_def connect_socks5_proxy_def Let_def
    by (cases "pc_kind p") (simp_all, (intro timing t)+)
qed

lemma within_outbound_connect [timing]: "returns_within limit (outbound_connect N C cfg h p limit)"
  unfolding outbound_connect_def connect_direct_def
  by (intro within_case_option within_if within_timeout_return timing)

lemma keeps_io_result:
  "keeps I (\<lambda>_. True) m \<Longrightarrow> (\<And>x. keeps I (\<lambda>_. True) (k x)) \<Longrightarrow> keeps I (\<lambda>_. True) (io_result f m k)"
  unfolding io_result_def by (intro keeps_then keeps_case_sum keeps_return TrueI)

lemma keeps_connect_tcp: "off_net I \<Longrightarrow> keeps I (\<lambda>_. True) (connect_tcp N h p)"
  unfolding connect_tcp_def by (intro keeps_io_result keeps_perform_any keeps_return TrueI)

lemma keeps_connect_via_proxy:
  assumes "off_net I"
  shows "keeps I (\<lambda>_. True) (connect_via_proxy N p h port)"
proof -
  have t: "keeps I (\<lambda>_. True) (socks5_target N h port r)" for r
    unfolding socks5_target_def using assms
    by (auto intro!: keeps_io_result keeps_perform_any keeps_return split: list.split)
  show ?thesis
    unfolding connect_via_proxy_def connect_http_proxy_def connect_socks5_proxy_def Let_def using assms
    by (auto intro!: keeps_io_result keeps_perform_any keeps_return keeps_connect_tcp t split: proxy_kind.split)
qed

lemma keeps_outbound_connect:
  "off_net I \<Longrightarrow> keeps I (\<lambda>_. True) (outbound_connect N C cfg h p limit)"
  unfolding outbound_connect_def connect_direct_def
  by (auto intro!: keeps_case_option keeps_if keeps_then [OF keeps_any [OF keeps_timeout]] keeps_return
      keeps_connect_tcp keeps_connect_via_proxy)

section \<open>Properties\<close>

text \<open>An environment value that the selection passes over, and one that decides it.\<close>

definition passed_over :: "outbound_crates \<Rightarrow> string option \<Rightarrow> bool" where
  "passed_over C v \<longleftrightarrow>
     (case v of None \<Rightarrow> True
      | Some v \<Rightarrow> trim v = [] \<or> (\<not> is_direct_marker (trim v) \<and> (\<exists>e. parse_proxy_config C (trim v) = Inl e)))"

definition decides :: "outbound_crates \<Rightarrow> string \<Rightarrow> bool" where
  "decides C v \<longleftrightarrow>
     trim v \<noteq> [] \<and> (is_direct_marker (trim v) \<or> (\<exists>p. parse_proxy_config C (trim v) = Inr p))"

definition decision :: "outbound_crates \<Rightarrow> string \<Rightarrow> config_error + proxy_config option" where
  "decision C v =
     (if is_direct_marker (trim v) then Inr None
      else sum_bind (parse_proxy_config C (trim v)) (\<lambda>p. Inr (Some p)))"

lemma select_env_skip:
  "list_all (\<lambda>(n, v). passed_over C v) pre \<Longrightarrow>
   \<exists>fe'. select_env_proxy C fe (pre @ rest) = select_env_proxy C fe' rest"
proof (induction pre arbitrary: fe)
  case (Cons x pre)
  then show ?case by (cases x) (auto simp: Let_def passed_over_def split: option.splits)
qed auto

lemma select_env_decides: "decides C v \<Longrightarrow> select_env_proxy C fe ((name, Some v) # rest) = decision C v"
  by (auto simp: decides_def decision_def Let_def)

text \<open>(C28) Precedence of the proxy settings. A non-blank explicit setting decides alone and the
  environment is never consulted. Without one, the six environment variables are tried in
  their fixed order: unset, blank and unparsable ones are passed over, and the first that is a
  direct marker or parses decides, whatever comes after it.\<close>

theorem proxy_precedence:
  assumes "map (\<lambda>n. (n, env_get n)) proxy_env_names = pre @ (name, Some v) # rest"
    and "list_all (\<lambda>(n, v). passed_over C v) pre" and "decides C v"
  shows "select_proxy C explicit True env_get =
    (case explicit of
       Some e \<Rightarrow> if trim e \<noteq> [] then decision C e else decision C v
     | None \<Rightarrow> decision C v)"
proof -
  have "select_env_proxy C None (map (\<lambda>n. (n, env_get n)) proxy_env_names) = decision C v"
    using select_env_skip [OF assms(2)] select_env_decides [OF assms(3)] assms(1) by metis
  then show ?thesis
    by (auto simp: select_proxy_def Let_def decision_def split: option.splits)
qed

definition no_crates :: outbound_crates where
  "no_crates = \<lparr>url_parse = (\<lambda>_. None), percent_decode = as_bytes, is_ipnet = (\<lambda>_. False),
     no_proxy_matches = (\<lambda>_ _. False)\<rparr>"

definition example_env :: "string \<Rightarrow> string option" where
  "example_env n =
     (if n = ''HTTPS_PROXY'' then Some ''nonsense'' else if n = ''all_proxy'' then Some '' Off ''
      else if n = ''HTTP_PROXY'' then Some ''more nonsense'' else None)"

theorem proxy_precedence_witness: "select_proxy no_crates (Some '' '') True example_env = Inr None"
proof -
  have e: "map (\<lambda>n. (n, example_env n)) proxy_env_names =
      [(''HTTPS_PROXY'', Some ''nonsense''), (''https_proxy'', None), (''ALL_PROXY'', None)]
      @ (''all_proxy'', Some '' Off '')
      # [(''HTTP_PROXY'', Some ''more nonsense''), (''http_proxy'', None)]"
    by (simp add: example_env_def proxy_env_names_def)
  have "\<not> is_direct_marker (trim ''nonsense'')" by code_simp
  then have p: "list_all (\<lambda>(n, v). passed_over no_crates v)
      [(''HTTPS_PROXY'', Some ''nonsense''), (''https_proxy'', None), (''ALL_PROXY'', None)]"
    by (simp add: passed_over_def parse_proxy_config_def no_crates_def)
  have m: "is_direct_marker (trim '' Off '')" "trim '' Off '' \<noteq> []" "trim '' '' = []" by code_simp+
  then have d: "decides no_crates '' Off ''" by (simp add: decides_def)
  show ?thesis
    using proxy_precedence [OF e p d, of "Some '' ''"] m by (simp add: decision_def)
qed

lemma late_connect_time:
  "io_bind (timeout limit m) (\<lambda>x. io_return (classify_connect late x)) s = (Some (Inl e), t) \<Longrightarrow>
   oe_timed_out e \<Longrightarrow> clock t = clock s + limit"
  by (auto simp: io_bind_def io_return_def timeout_def classify_connect_def error_failed_def
      split: prod.splits option.splits sum.splits if_splits)

text \<open>Every outbound connect, direct or through a proxy and whatever the network does, comes
  back within its timeout; and it reports a timeout only when the whole limit has passed, so
  the flag that opens an address cooldown is never set by a refusal.\<close>

lemma outbound_connect_bounded:
  "\<exists>r t. outbound_connect N C cfg host port limit s = (Some r, t)
     \<and> clock s \<le> clock t \<and> clock t \<le> clock s + limit
     \<and> (case r of Inl e \<Rightarrow> (if oe_timed_out e then clock t = clock s + limit else True) | Inr _ \<Rightarrow> True)"
proof -
  obtain r t where r: "outbound_connect N C cfg host port limit s = (Some r, t)"
      "clock s \<le> clock t" "clock t \<le> clock s + limit"
    using within_Some [OF within_outbound_connect] by blast
  have "clock t = clock s + limit" if "r = Inl e" "oe_timed_out e" for e
    using that r(1) late_connect_time unfolding outbound_connect_def connect_direct_def
    by (auto split: option.splits if_splits)
  with r show ?thesis by (auto split: sum.split)
qed

end
