(* ===== verification/Config.thy ===== *)
theory Config
  imports Crypto Outbound
begin

text \<open>
  Configuration (\<open>rust/src/config.rs\<close>): the data-centre tables, the value parsers of the command
  line, the settings record with the normalisation done after parsing, and the lookups the
  rest of the program makes. Command-line parsing itself is the \<open>clap\<close> crate's.

  The \<open>hex\<close> crate is a record of two functions; \<open>hex_ok\<close> states what its documentation promises.
  The random secret is taken from a list of random bytes, and the detected LAN address is an
  argument.
\<close>

section \<open>Data-centre tables\<close>

definition DEFAULT_DC_IPS :: "(u32 \<times> string) list" where
  "DEFAULT_DC_IPS =
     [(1, ''149.154.175.50''), (2, ''149.154.167.51''), (3, ''149.154.175.100''),
      (4, ''149.154.167.91''), (5, ''149.154.171.5''), (203, ''91.105.192.100'')]"

definition DC_OVERRIDES :: "(u32 \<times> u32) list" where
  "DC_OVERRIDES = [(203, 2)]"

definition DEFAULT_DC_IP_TARGETS :: "(u32 \<times> string) list" where
  "DEFAULT_DC_IP_TARGETS = [(2, ''149.154.167.220''), (4, ''149.154.167.220'')]"

text \<open>Collecting pairs into a \<open>HashMap\<close>: the last binding of a key wins.\<close>

definition collect_map :: "('k \<times> 'v) list \<Rightarrow> 'k \<rightharpoonup> 'v" where
  "collect_map ps = fold (\<lambda>(k, v) m. m(k \<mapsto> v)) ps Map.empty"

fun find_pair :: "'k \<Rightarrow> ('k \<times> 'v) list \<Rightarrow> 'v option" where
  "find_pair k [] = None"
| "find_pair k ((k', v) # ps) = (if k' = k then Some v else find_pair k ps)"

definition default_dc_ips :: "u32 \<rightharpoonup> string" where
  "default_dc_ips = collect_map DEFAULT_DC_IPS"

definition default_dc_ip :: "u32 \<Rightarrow> string option" where
  "default_dc_ip dc = find_pair dc DEFAULT_DC_IPS"

definition default_dc_overrides :: "u32 \<rightharpoonup> u32" where
  "default_dc_overrides = collect_map DC_OVERRIDES"

definition websocket_dc :: "u32 \<Rightarrow> u32" where
  "websocket_dc dc = (case find_pair dc DC_OVERRIDES of Some t \<Rightarrow> t | None \<Rightarrow> dc)"

section \<open>Value parsers\<close>

record hex_crate =
  hex_encode :: "bytes \<Rightarrow> string"
  hex_decode :: "string \<Rightarrow> bytes option"

text \<open>Documented behaviour of \<open>hex\<close>: encoding is byte by byte, two lower-case digits each, and
  decoding undoes it.\<close>

definition hex_ok :: "hex_crate \<Rightarrow> bool" where
  "hex_ok H \<longleftrightarrow>
     hex_encode H [] = [] \<and>
     (\<forall>b bs. hex_encode H (b # bs) = hex_encode H [b] @ hex_encode H bs) \<and>
     (\<forall>b. length (hex_encode H [b]) = 2 \<and> set (hex_encode H [b]) \<subseteq> set ''0123456789abcdef'') \<and>
     hex_encode H [0xdd] = ''dd'' \<and> hex_encode H [0xee] = ''ee'' \<and>
     (\<forall>bs. hex_decode H (hex_encode H bs) = Some bs)"

lemma hex_okD:
  assumes "hex_ok H"
  shows "hex_encode H [] = []" "length (hex_encode H [b]) = 2"
    "hex_encode H [0xdd] = ''dd''" "hex_encode H [0xee] = ''ee''"
    "hex_decode H (hex_encode H bs) = Some bs"
  using assms unfolding hex_ok_def by blast+

lemma hex_encode_digits: "hex_ok H \<Longrightarrow> set (hex_encode H bs) \<subseteq> set ''0123456789abcdef''"
proof (induction bs)
  case (Cons b bs)
  then have "hex_encode H (b # bs) = hex_encode H [b] @ hex_encode H bs" "set (hex_encode H [b]) \<subseteq> set ''0123456789abcdef''"
    unfolding hex_ok_def by blast+
  with Cons show ?case by (simp del: list.set)
qed (simp add: hex_ok_def)

lemma hex_encode_Cons: "hex_ok H \<Longrightarrow> hex_encode H (b # bs) = hex_encode H [b] @ hex_encode H bs"
  unfolding hex_ok_def by blast

record mtproto_proxy =
  mp_host :: string
  mp_port :: u16
  mp_secret :: string

datatype value_error =
    ExpectedHostPortSecret | InvalidPort string | InvalidHexSecret string
  | ExpectedDcIp | InvalidDc string | InvalidIp string

definition parse_mtproto_proxy :: "hex_crate \<Rightarrow> string \<Rightarrow> value_error + mtproto_proxy" where
  "parse_mtproto_proxy H s =
     (let parts = rsplitn 3 (CHR '':'') s in
      if length parts \<noteq> 3 then Inl ExpectedHostPortSecret
      else
        let secret = parts ! 0 in
        case parse_uint 65536 (parts ! 1) of
          None \<Rightarrow> Inl (InvalidPort (parts ! 1))
        | Some port \<Rightarrow>
            let host = parts ! 2 in
            (case hex_decode H secret of
               None \<Rightarrow> Inl (InvalidHexSecret secret)
             | Some _ \<Rightarrow> Inr \<lparr>mp_host = host, mp_port = of_nat port, mp_secret = secret\<rparr>))"

definition parse_dc_ip :: "string \<Rightarrow> value_error + (u32 \<times> string)" where
  "parse_dc_ip s =
     (case split_once (CHR '':'') s of
        None \<Rightarrow> Inl ExpectedDcIp
      | Some (dc_s, ip_s) \<Rightarrow>
          (case parse_uint (2 ^ 32) dc_s of
             None \<Rightarrow> Inl (InvalidDc dc_s)
           | Some dc \<Rightarrow> if is_ip_addr ip_s then Inr (of_nat dc, ip_s) else Inl (InvalidIp ip_s)))"

section \<open>The settings\<close>

record listen_config =
  c_port :: u16
  c_host :: "string option"
  c_secrets :: "string list"
  c_listen_faketls_domain :: "string option"
  c_dc_ip :: "(u32 \<times> string) list"
  c_buf_kb :: nat
  c_pool_size :: nat
  c_max_connections :: "nat option"
  c_verbose :: bool
  c_skip_tls_verify :: bool
  c_quiet :: bool
  c_log_file :: "string option"
  c_mtproto_proxies :: "mtproto_proxy list"
  c_link_ip :: "string option"

record cf_config = listen_config +
  c_cf_domains :: "string list"
  c_cf_worker_domains :: "string list"
  c_cf_priority :: bool
  c_cf_balance :: bool

record timeout_config = cf_config +
  c_ws_connect_timeout :: nat
  c_ws_fail_probe_timeout :: nat
  c_ws_fail_cooldown :: nat
  c_ws_redirect_cooldown :: nat
  c_ip_fail_cooldown :: nat
  c_handshake_timeout :: nat
  c_tcp_fallback_timeout :: nat
  c_upstream_connect_timeout :: nat
  c_upstream_fail_cooldown :: nat
  c_cf_connect_timeout :: nat
  c_cf_fail_cooldown :: nat

record config = timeout_config +
  c_fronting_domain :: "string option"
  c_fronting_cooldown :: nat
  c_fronting_fail_cooldown :: nat
  c_pool_max_age :: nat
  c_check :: bool
  c_default_domains :: bool
  c_outbound_proxy :: "string option"
  c_no_outbound_proxy :: bool
  c_no_proxy :: "string option"

definition strip_scheme :: "string \<Rightarrow> string" where
  "strip_scheme domain =
     (case strip_prefix ''https://'' domain of
        Some d \<Rightarrow> d
      | None \<Rightarrow> (case strip_prefix ''http://'' domain of Some d \<Rightarrow> d | None \<Rightarrow> domain))"

definition before_slash :: "string \<Rightarrow> string" where
  "before_slash domain = (case split_once (CHR ''/'') domain of Some (host, _) \<Rightarrow> host | None \<Rightarrow> domain)"

definition normalize_cf_worker_domain :: "string \<Rightarrow> string option" where
  "normalize_cf_worker_domain domain =
     (let domain = trim domain in
      if domain = [] then None
      else
        let domain = strip_scheme domain;
            domain = trim_end_char (CHR ''/'') (before_slash domain)
        in if domain = [] then None else Some domain)"

definition with_defaults :: "hex_crate \<Rightarrow> bytes \<Rightarrow> config \<Rightarrow> (config \<times> bytes) run" where
  "with_defaults H rng c =
     (let c1 = c\<lparr>c_cf_worker_domains := List.map_filter normalize_cf_worker_domain (c_cf_worker_domains c)\<rparr> in
      run_bind
        (if c_secrets c1 = []
         then run_bind (fill_bytes 16 rng) (\<lambda>r. Done (c1\<lparr>c_secrets := [hex_encode H (fst r)]\<rparr>, snd r))
         else Done (c1, rng))
        (\<lambda>r. let c2 = fst r in
           Done (if c_dc_ip c2 = [] \<and> c_cf_domains c2 = [] \<and> \<not> c_default_domains c2
                 then c2\<lparr>c_dc_ip := DEFAULT_DC_IP_TARGETS\<rparr> else c2, snd r)))"

text \<open>\<open>parsed\<close> is what \<open>clap\<close> makes of the command line.\<close>

definition from_args :: "hex_crate \<Rightarrow> bytes \<Rightarrow> config \<Rightarrow> (config \<times> bytes) run" where
  "from_args H rng parsed = with_defaults H rng parsed"

definition primary_secret :: "config \<Rightarrow> string" where
  "primary_secret c = (case c_secrets c of s # _ \<Rightarrow> s | [] \<Rightarrow> [])"

definition decode_secret_key :: "hex_crate \<Rightarrow> string \<Rightarrow> bytes run" where
  "decode_secret_key H secret =
     (case hex_decode H secret of None \<Rightarrow> Panic | Some raw \<Rightarrow> Done (secret_key raw))"

definition secret_bytes :: "hex_crate \<Rightarrow> config \<Rightarrow> bytes run" where
  "secret_bytes H c = decode_secret_key H (primary_secret c)"

fun decode_all :: "hex_crate \<Rightarrow> string list \<Rightarrow> bytes list run" where
  "decode_all H [] = Done []"
| "decode_all H (s # ss) =
     run_bind (decode_secret_key H s) (\<lambda>k. run_bind (decode_all H ss) (\<lambda>ks. Done (k # ks)))"

definition secret_bytes_list :: "hex_crate \<Rightarrow> config \<Rightarrow> bytes list run" where
  "secret_bytes_list H c = decode_all H (c_secrets c)"

definition listen_faketls_domain :: "hex_crate \<Rightarrow> config \<Rightarrow> string option" where
  "listen_faketls_domain H c =
     (case c_listen_faketls_domain c of
        Some domain \<Rightarrow> Some domain
      | None \<Rightarrow>
          (case hex_decode H (primary_secret c) of
             None \<Rightarrow> None
           | Some raw \<Rightarrow> (case faketls_hostname raw of None \<Rightarrow> None | Some hostname \<Rightarrow> from_utf8 hostname)))"

definition link_secret_for :: "hex_crate \<Rightarrow> config \<Rightarrow> string \<Rightarrow> string run" where
  "link_secret_for H c secret =
     (case listen_faketls_domain H c of
        Some domain \<Rightarrow>
          run_bind (decode_secret_key H secret)
            (\<lambda>key. Done (''ee'' @ hex_encode H key @ hex_encode H (as_bytes domain)))
      | None \<Rightarrow>
          if starts_with ''dd'' secret \<or> starts_with ''ee'' secret then Done secret
          else Done (''dd'' @ secret))"

definition link_secret :: "hex_crate \<Rightarrow> config \<Rightarrow> string run" where
  "link_secret H c = link_secret_for H c (primary_secret c)"

definition dc_redirects :: "config \<Rightarrow> u32 \<rightharpoonup> string" where
  "dc_redirects c = collect_map (c_dc_ip c)"

definition dc_target_ip :: "config \<Rightarrow> u32 \<Rightarrow> string option" where
  "dc_target_ip c dc = find_pair dc (rev (c_dc_ip c))"

definition cf_worker_domains :: "config \<Rightarrow> string list" where
  "cf_worker_domains c = c_cf_worker_domains c"

definition cf_worker_domain :: "config \<Rightarrow> string option" where
  "cf_worker_domain c = (case c_cf_worker_domains c of d # _ \<Rightarrow> Some d | [] \<Rightarrow> None)"

definition outbound_connector ::
  "outbound_crates \<Rightarrow> (string \<Rightarrow> bytes option) \<Rightarrow> config \<Rightarrow> config_error + outbound_config" where
  "outbound_connector C environ c =
     from_config C (c_outbound_proxy c) (c_no_proxy c) (\<not> c_no_outbound_proxy c) environ"

text \<open>An IPv4 source address the kernel picked, as its four octets; \<open>None\<close> when the probe socket
  failed or the address is not IPv4.\<close>

type_synonym ipv4 = "byte \<times> byte \<times> byte \<times> byte"

definition detect_lan_ip :: "ipv4 option \<Rightarrow> string option" where
  "detect_lan_ip probe =
     (case probe of
        None \<Rightarrow> None
      | Some (a, b, c, d) \<Rightarrow>
          if a \<noteq> 127 \<and> \<not> (a = 169 \<and> b = 254) \<and> (a, b, c, d) \<noteq> (0, 0, 0, 0)
          then Some (decimal (unat a) @ ''.'' @ decimal (unat b) @ ''.'' @ decimal (unat c) @ ''.'' @ decimal (unat d))
          else None)"

definition bind_host :: "ipv4 option \<Rightarrow> config \<Rightarrow> string" where
  "bind_host probe c =
     (case c_host c of
        Some host \<Rightarrow> host
      | None \<Rightarrow> if detect_lan_ip probe \<noteq> None then ''0.0.0.0'' else ''127.0.0.1'')"

definition link_host :: "ipv4 option \<Rightarrow> config \<Rightarrow> string" where
  "link_host probe c =
     (case c_link_ip c of
        Some ip \<Rightarrow> ip
      | None \<Rightarrow>
          let host = bind_host probe c;
              bind_is_local = (host \<in> {''0.0.0.0'', ''::'', ''127.0.0.1'', ''::1''})
          in if bind_is_local then (case detect_lan_ip probe of Some ip \<Rightarrow> ip | None \<Rightarrow> host) else host)"

text \<open>\<open>usize\<close> is a word of any width; in a release build the product wraps.\<close>

definition buf_bytes :: "config \<Rightarrow> 'u::len word" where
  "buf_bytes c = of_nat (c_buf_kb c) * 1024"

section \<open>Lookups\<close>

lemma find_pair_append: "find_pair k (xs @ ys) = (case find_pair k xs of Some v \<Rightarrow> Some v | None \<Rightarrow> find_pair k ys)"
  by (induction xs) auto

lemma fold_update_eq:
  "fold (\<lambda>(k, v) m. m(k \<mapsto> v)) ps m k =
     (case find_pair k (rev ps) of Some v \<Rightarrow> Some v | None \<Rightarrow> m k)"
  by (induction ps arbitrary: m) (auto simp: find_pair_append split: option.splits)

lemma collect_map_last_wins: "collect_map ps k = find_pair k (rev ps)"
  by (simp add: collect_map_def fold_update_eq split: option.splits)

lemma find_pair_rev_distinct: "distinct (map fst ps) \<Longrightarrow> find_pair k (rev ps) = find_pair k ps"
proof (induction ps)
  case (Cons p ps)
  have "k \<notin> fst ` set ps \<Longrightarrow> find_pair k ps = None" for k and ps :: "('a \<times> 'b) list"
    by (induction ps) auto
  with Cons show ?case
    by (cases p) (auto simp: find_pair_append split: option.splits)
qed simp

text \<open>The per-connection DC lookups agree with the tables the pool is warmed from: a DC given
  twice with \<open>--dc-ip\<close> resolves to the same (last) address by the scan and by the map, the
  built-in fallback address and the WebSocket override agree with their maps, and applying
  the override twice changes nothing.\<close>

lemma dc_lookups_agree:
  "dc_target_ip c dc = dc_redirects c dc
   \<and> default_dc_ip dc = default_dc_ips dc
   \<and> websocket_dc dc = (case default_dc_overrides dc of Some t \<Rightarrow> t | None \<Rightarrow> dc)
   \<and> websocket_dc (websocket_dc dc) = websocket_dc dc"
proof -
  have d: "distinct (map fst DEFAULT_DC_IPS)" by (simp add: DEFAULT_DC_IPS_def)
  have o: "distinct (map fst DC_OVERRIDES)" by (simp add: DC_OVERRIDES_def)
  show ?thesis
    by (simp add: dc_target_ip_def dc_redirects_def default_dc_ip_def default_dc_ips_def websocket_dc_def
        default_dc_overrides_def collect_map_last_wins find_pair_rev_distinct [OF d] find_pair_rev_distinct [OF o])
       (simp add: DC_OVERRIDES_def)
qed

text \<open>An upstream proxy argument splits at its two rightmost colons: for every host, with or
  without colons of its own, every 16-bit port in decimal and every hex secret,
  \<open>HOST:PORT:SECRET\<close> parses to exactly these three parts.\<close>

lemma mtproto_proxy_roundtrip:
  assumes "CHR '':'' \<notin> set secret" and "hex_decode H secret = Some raw"
  shows "parse_mtproto_proxy H (host @ '':'' @ decimal (unat (port :: u16)) @ '':'' @ secret) =
    Inr \<lparr>mp_host = host, mp_port = port, mp_secret = secret\<rparr>"
proof -
  let ?p = "decimal (unat port)"
  have "CHR '':'' \<notin> set ?p"
    using decimal_digits [of "CHR '':''" "unat port"] by (auto simp: digit_of_def)
  then have "rsplitn 3 (CHR '':'') (host @ CHR '':'' # ?p @ CHR '':'' # secret) = [secret, ?p, host]"
    using rsplit_once_append [OF assms(1), of "host @ CHR '':'' # ?p"] rsplit_once_append [of "CHR '':''" ?p host]
    by (simp add: numeral_3_eq_3)
  moreover have "parse_uint 65536 ?p = Some (unat port)"
    using unsigned_less [of port, where ?'a = nat] by (intro parse_decimal) simp
  ultimately show ?thesis
    using assms(2) by (simp add: parse_mtproto_proxy_def)
qed

text \<open>A concrete \<open>hex\<close>: lower-case digits.\<close>

definition nibble_char :: "nat \<Rightarrow> char" where
  "nibble_char n = ''0123456789abcdef'' ! n"

fun lower_decode :: "string \<Rightarrow> bytes option" where
  "lower_decode [] = Some []"
| "lower_decode [_] = None"
| "lower_decode (a # b # cs) =
     (case (digit_of 16 a, digit_of 16 b, lower_decode cs) of
        (Some x, Some y, Some r) \<Rightarrow> Some (of_nat (16 * x + y) # r)
      | _ \<Rightarrow> None)"

definition lower_hex :: hex_crate where
  "lower_hex =
     \<lparr>hex_encode = (\<lambda>bs. concat (map (\<lambda>b. [nibble_char (unat b div 16), nibble_char (unat b mod 16)]) bs)),
      hex_decode = lower_decode\<rparr>"

lemma digit_of_nibble: "n < 16 \<Longrightarrow> digit_of 16 (nibble_char n) = Some n"
proof -
  have "list_all (\<lambda>n. digit_of 16 (nibble_char n) = Some n) [0..<16]" by code_simp
  then show "n < 16 \<Longrightarrow> digit_of 16 (nibble_char n) = Some n" by (simp add: list_all_iff)
qed

lemma lower_hex_ok: "hex_ok lower_hex"
proof -
  have b: "unat b div 16 < 16" for b :: byte
    using unat_byte_less [of b] by (simp add: less_mult_imp_div_less)
  have "lower_decode (hex_encode lower_hex bs) = Some bs" for bs
    by (induction bs) (simp_all add: lower_hex_def digit_of_nibble b)
  moreover have "nibble_char n \<in> set ''0123456789abcdef''" if "n < 16" for n
    using that unfolding nibble_char_def by (intro nth_mem) simp
  then have "set (hex_encode lower_hex [x]) \<subseteq> set ''0123456789abcdef''" for x
    using b [of x] by (simp add: lower_hex_def del: list.set(2)) (simp del: list.set(2) add: list.set(2) [of "nibble_char _"])
  moreover have "hex_encode lower_hex [0xdd] = ''dd''" "hex_encode lower_hex [0xee] = ''ee''" "hex_encode lower_hex [] = []"
      "length (hex_encode lower_hex [x]) = 2" "hex_encode lower_hex (x # bs) = hex_encode lower_hex [x] @ hex_encode lower_hex bs"
    for x bs by (simp_all add: lower_hex_def nibble_char_def)
  moreover have "hex_decode lower_hex = lower_decode" by (simp add: lower_hex_def)
  ultimately show ?thesis unfolding hex_ok_def by metis
qed

section \<open>Defaults and secrets\<close>

lemma map_filter_iff: "y \<in> set (List.map_filter f xs) \<longleftrightarrow> (\<exists>x \<in> set xs. f x = Some y)"
  by (induction xs) (auto simp: List.map_filter_simps split: option.splits)

lemma before_slash_free: "CHR ''/'' \<notin> set (before_slash d)"
proof (cases "split_once (CHR ''/'') d")
  case None
  then show ?thesis by (auto simp: before_slash_def split_once_def split: if_splits)
next
  case (Some p)
  then show ?thesis by (cases p) (auto simp: before_slash_def dest: split_once_Some)
qed

lemma normalize_worker_shape:
  assumes "normalize_cf_worker_domain d = Some r"
  shows "r \<noteq> [] \<and> CHR ''/'' \<notin> set r"
proof -
  from assms have "r \<noteq> []" "r = trim_end_char (CHR ''/'') (before_slash (strip_scheme (trim d)))"
    by (auto simp: normalize_cf_worker_domain_def Let_def split: if_splits)
  moreover have "set (trim_end_char (CHR ''/'') x) \<subseteq> set x" for x
    unfolding trim_end_char_def by (metis set_dropWhileD set_rev subsetI)
  ultimately show ?thesis using before_slash_free by blast
qed

text \<open>What the rest of the program may rely on after \<open>with_defaults\<close>: there is a secret, a
  generated one decodes to the 16 random bytes drawn, every Worker domain is a non-empty name
  without a slash, some route is configured (a \<open>--dc-ip\<close> target, a Cloudflare domain or the
  default domain list), and no setting the user gave is replaced.\<close>

lemma with_defaults_complete:
  assumes "hex_ok H" and "with_defaults H rng c = Done (c', rng')"
  shows "c_secrets c' \<noteq> []
    \<and> (c_secrets c = [] \<longrightarrow> c_secrets c' = [hex_encode H (take 16 rng)] \<and> secret_bytes H c' = Done (take 16 rng))
    \<and> (\<forall>d \<in> set (c_cf_worker_domains c'). d \<noteq> [] \<and> CHR ''/'' \<notin> set d)
    \<and> (c_dc_ip c' \<noteq> [] \<or> c_cf_domains c' \<noteq> [] \<or> c_default_domains c')
    \<and> (c_secrets c \<noteq> [] \<longrightarrow> c_secrets c' = c_secrets c) \<and> (c_dc_ip c \<noteq> [] \<longrightarrow> c_dc_ip c' = c_dc_ip c)"
proof -
  have len: "length (take 16 rng) = 16" if "c_secrets c = []"
    using assms(2) that by (auto simp: with_defaults_def Let_def fill_bytes_def split: if_splits)
  have dec: "hex_decode H (hex_encode H bs) = Some bs" for bs by (rule hex_okD(5) [OF assms(1)])
  have key: "secret_key bs = bs" if "length bs = 16" for bs
    using that by (simp add: secret_key_def has_mode_prefix_def layout_simps)
  have s: "c_secrets c' = (if c_secrets c = [] then [hex_encode H (take 16 rng)] else c_secrets c)"
    and d: "c_dc_ip c' = (if c_dc_ip c = [] \<and> c_cf_domains c = [] \<and> \<not> c_default_domains c
        then DEFAULT_DC_IP_TARGETS else c_dc_ip c)"
    and w: "c_cf_worker_domains c' = List.map_filter normalize_cf_worker_domain (c_cf_worker_domains c)"
    and f: "c_cf_domains c' = c_cf_domains c" "c_default_domains c' = c_default_domains c"
    using assms(2) by (auto simp: with_defaults_def Let_def fill_bytes_def split: if_splits)
  have "secret_bytes H c' = Done (take 16 rng)" if "c_secrets c = []"
    using that s len dec key by (simp add: secret_bytes_def primary_secret_def decode_secret_key_def)
  moreover have "\<forall>d \<in> set (c_cf_worker_domains c'). d \<noteq> [] \<and> CHR ''/'' \<notin> set d"
    unfolding w by (auto simp: map_filter_iff dest: normalize_worker_shape)
  ultimately show ?thesis using s d f by (auto simp: DEFAULT_DC_IP_TARGETS_def)
qed

definition example_config :: config where
  "example_config =
     \<lparr>c_port = 1443, c_host = None, c_secrets = [], c_listen_faketls_domain = None, c_dc_ip = [],
      c_buf_kb = 256, c_pool_size = 4, c_max_connections = None, c_verbose = False,
      c_skip_tls_verify = False, c_quiet = False, c_log_file = None, c_mtproto_proxies = [],
      c_link_ip = None, c_cf_domains = [], c_cf_worker_domains = [''https://w.dev/x'', '' ''],
      c_cf_priority = False, c_cf_balance = False, c_ws_connect_timeout = 10,
      c_ws_fail_probe_timeout = 2, c_ws_fail_cooldown = 30, c_ws_redirect_cooldown = 300,
      c_ip_fail_cooldown = 3600, c_handshake_timeout = 10, c_tcp_fallback_timeout = 10,
      c_upstream_connect_timeout = 5, c_upstream_fail_cooldown = 60, c_cf_connect_timeout = 10,
      c_cf_fail_cooldown = 60, c_fronting_domain = None, c_fronting_cooldown = 1800,
      c_fronting_fail_cooldown = 60, c_pool_max_age = 55, c_check = False, c_default_domains = False,
      c_outbound_proxy = None, c_no_outbound_proxy = False, c_no_proxy = None\<rparr>"

lemma hex_encode_append: "hex_ok H \<Longrightarrow> hex_encode H (xs @ ys) = hex_encode H xs @ hex_encode H ys"
proof (induction xs)
  case Nil
  then show ?case by (simp add: hex_okD(1))
next
  case (Cons x xs)
  then show ?case
    using hex_encode_Cons [of H x "xs @ ys"] hex_encode_Cons [of H x xs] by simp
qed

lemmas hex_decode_encode = hex_okD(5)

lemma hex_encode_modes:
  "hex_ok H \<Longrightarrow> hex_encode H (0xdd # bs) = ''dd'' @ hex_encode H bs"
  "hex_ok H \<Longrightarrow> hex_encode H (0xee # bs) = ''ee'' @ hex_encode H bs"
  using hex_encode_Cons [of H "0xdd" bs] hex_encode_Cons [of H "0xee" bs] by (simp_all add: hex_okD)

lemma hex_starts_with_mode:
  assumes "hex_ok H" "bs \<noteq> []" "hex_encode H [m] = p"
  shows "starts_with p (hex_encode H bs) \<longleftrightarrow> hd bs = m"
proof -
  obtain b r where bs: "bs = b # r" using assms(2) by (cases bs) auto
  have l: "length (hex_encode H [x]) = 2" for x by (rule hex_okD(2) [OF assms(1)])
  have "take 2 (hex_encode H bs) = hex_encode H [b]"
    using hex_encode_Cons [OF assms(1), of b r] l [of b] by (simp add: bs)
  then have "starts_with p (hex_encode H bs) \<longleftrightarrow> hex_encode H [b] = hex_encode H [m]"
    using l [of m] assms(3) by (simp add: starts_with_def)
  also have "\<dots> \<longleftrightarrow> b = m"
    using hex_decode_encode [OF assms(1)] by (metis list.inject option.inject)
  finally show ?thesis by (simp add: bs)
qed

text \<open>A secret whose printed form says which kind it is: a bare 16-byte key that does not begin with a
  mode byte, or a mode byte followed by at least a key.\<close>

definition plain_or_prefixed :: "bytes \<Rightarrow> bool" where
  "plain_or_prefixed raw \<longleftrightarrow> has_mode_prefix raw \<or> (length raw = 16 \<and> hd raw \<notin> {0xdd, 0xee})"

lemma link_secret_without_domain:
  assumes "hex_ok H" "plain_or_prefixed raw" "listen_faketls_domain H c = None"
  shows "link_secret_for H c (hex_encode H raw) =
    Done (hex_encode H (if has_mode_prefix raw then raw else 0xdd # raw))"
proof -
  have ne: "raw \<noteq> []" using assms(2) by (auto simp: plain_or_prefixed_def has_mode_prefix_def layout_simps)
  have dd: "hex_encode H [0xdd] = ''dd''" and ee: "hex_encode H [0xee] = ''ee''"
    using assms(1) by (simp_all add: hex_okD)
  have "has_mode_prefix raw \<longleftrightarrow> hd raw = 0xdd \<or> hd raw = 0xee"
    using assms(2) ne by (auto simp: plain_or_prefixed_def has_mode_prefix_def layout_simps hd_conv_nth)
  then show ?thesis
    using assms hex_starts_with_mode [OF assms(1) ne dd] hex_starts_with_mode [OF assms(1) ne ee]
    by (simp add: link_secret_for_def hex_encode_modes)
qed

text \<open>The secret printed in the \<open>tg://proxy\<close> link stands for the key the proxy itself uses: for
  every secret whose printed form is unambiguous, the link decodes to a value whose key is the
  one \<open>secret_bytes_list\<close> hands to the handshake parser, and in FakeTLS mode it also carries the
  configured host name.\<close>

lemma link_secret_denotes_key:
  assumes "hex_ok H" and "plain_or_prefixed raw" and "length (secret_key raw) = 16"
    and "\<forall>d. listen_faketls_domain H c = Some d \<longrightarrow> d \<noteq> []"
  shows "decode_secret_key H (hex_encode H raw) = Done (secret_key raw)
    \<and> (\<exists>link raw'. link_secret_for H c (hex_encode H raw) = Done link
        \<and> hex_decode H link = Some raw' \<and> secret_key raw' = secret_key raw
        \<and> (case listen_faketls_domain H c of None \<Rightarrow> True | Some d \<Rightarrow> faketls_hostname raw' = Some (as_bytes d)))"
proof (cases "listen_faketls_domain H c")
  case None
  have "secret_key (if has_mode_prefix raw then raw else 0xdd # raw) = secret_key raw"
    using assms(2) by (auto simp: plain_or_prefixed_def secret_key_def has_mode_prefix_def layout_simps subrange_def)
  with None show ?thesis
    using link_secret_without_domain [OF assms(1,2) None] hex_decode_encode [OF assms(1)]
    by (auto simp: decode_secret_key_def)
next
  case (Some d)
  let ?raw' = "0xee # secret_key raw @ as_bytes d"
  have d: "0 < length d" using assms(4) Some by simp
  have "link_secret_for H c (hex_encode H raw) = Done (hex_encode H ?raw')"
    using Some assms(1)
    by (simp add: link_secret_for_def decode_secret_key_def hex_decode_encode hex_encode_modes hex_encode_append)
  moreover have "secret_key ?raw' = secret_key raw"
    using assms(3) by (simp add: secret_key_def [of ?raw'] has_mode_prefix_def layout_simps subrange_def)
  moreover have "faketls_hostname ?raw' = Some (as_bytes d)"
    using assms(3) d by (simp add: faketls_hostname_def layout_simps)
  ultimately show ?thesis
    using Some hex_decode_encode [OF assms(1)] by (auto simp: decode_secret_key_def)
qed

text \<open>The remaining secrets are the ambiguous ones: a bare key that begins with a mode byte is printed
  as it is, without the padded-mode prefix.\<close>

lemma ambiguous_secret_printed_bare:
  assumes "hex_ok H" "length raw = 16" "hd raw = 0xdd \<or> hd raw = 0xee" "listen_faketls_domain H c = None"
  shows "link_secret_for H c (hex_encode H raw) = Done (hex_encode H raw)"
proof -
  have ne: "raw \<noteq> []" using assms(2) by auto
  have dd: "hex_encode H [0xdd] = ''dd''" and ee: "hex_encode H [0xee] = ''ee''"
    using assms(1) by (simp_all add: hex_okD)
  show ?thesis
    using assms hex_starts_with_mode [OF assms(1) ne dd] hex_starts_with_mode [OF assms(1) ne ee]
    by (auto simp: link_secret_for_def)
qed


end
