(* ===== verification/Tls.thy ===== *)
theory Tls
  imports Net
begin

text \<open>
  TLS client configurations: the two shared configurations of \<open>rust/src/ws_client.rs\<close> with the verifier
  that accepts everything, and the configuration of the domain-list fetch in
  \<open>rust/src/default_domains/http.rs\<close>.

  The verifier of the WebPKI roots, the roots themselves and the defaults of the builder belong to
  the crates \<open>rustls\<close> and \<open>webpki_roots\<close>: they are fields of a record the operations take. The two
  configurations of the WebSocket client sit in \<open>OnceLock\<close> cells; building one is deterministic, so
  every use of a cell sees the value below.
\<close>

type_synonym certificate = bytes

datatype signature_scheme =
    RSA_PKCS1_SHA256 | RSA_PKCS1_SHA384 | RSA_PKCS1_SHA512
  | ECDSA_NISTP256_SHA256 | ECDSA_NISTP384_SHA384 | ECDSA_NISTP521_SHA512
  | RSA_PSS_SHA256 | RSA_PSS_SHA384 | RSA_PSS_SHA512 | ED25519

text \<open>The trait \<open>ServerCertVerifier\<close>: the arguments of \<open>verify_server_cert\<close> are the end-entity
  certificate, the intermediates, the server name, the stapled OCSP response and the time.\<close>

record cert_verifier =
  verify_server_cert :: "certificate \<Rightarrow> certificate list \<Rightarrow> string \<Rightarrow> bytes \<Rightarrow> nat \<Rightarrow> string + unit"
  verify_tls12_signature :: "bytes \<Rightarrow> certificate \<Rightarrow> bytes \<Rightarrow> string + unit"
  verify_tls13_signature :: "bytes \<Rightarrow> certificate \<Rightarrow> bytes \<Rightarrow> string + unit"
  supported_verify_schemes :: "signature_scheme list"

record client_config =
  cc_verifier :: cert_verifier
  cc_client_auth :: bool
  cc_sessions :: nat \<comment> \<open>capacity of the in-memory resumption store\<close>

record tls_crates =
  webpki_verifier :: "certificate list \<Rightarrow> cert_verifier" \<comment> \<open>the verifier \<open>with_root_certificates\<close> installs\<close>
  tls_server_roots :: "certificate list"
  default_sessions :: nat

definition TLS_SESSION_CACHE_SIZE :: nat where
  "TLS_SESSION_CACHE_SIZE = 256"

definition NoVerifier :: cert_verifier where
  "NoVerifier =
     \<lparr>verify_server_cert = (\<lambda>end_entity intermediates server_name ocsp now. Inr ()),
      verify_tls12_signature = (\<lambda>message cert dss. Inr ()),
      verify_tls13_signature = (\<lambda>message cert dss. Inr ()),
      supported_verify_schemes =
        [RSA_PKCS1_SHA256, RSA_PKCS1_SHA384, RSA_PKCS1_SHA512,
         ECDSA_NISTP256_SHA256, ECDSA_NISTP384_SHA384, ECDSA_NISTP521_SHA512,
         RSA_PSS_SHA256, RSA_PSS_SHA384, RSA_PSS_SHA512, ED25519]\<rparr>"

text \<open>\<open>ClientConfig::builder()\<close> with a verifier and without client authentication.\<close>

definition client_config_with :: "tls_crates \<Rightarrow> cert_verifier \<Rightarrow> client_config" where
  "client_config_with T v = \<lparr>cc_verifier = v, cc_client_auth = False, cc_sessions = default_sessions T\<rparr>"

definition verifying_rustls_config :: "tls_crates \<Rightarrow> client_config" where
  "verifying_rustls_config T =
     (let root_store = [] @ tls_server_roots T;
          config = client_config_with T (webpki_verifier T root_store)
      in config\<lparr>cc_sessions := TLS_SESSION_CACHE_SIZE\<rparr>)"

definition no_verify_rustls_config :: "tls_crates \<Rightarrow> client_config" where
  "no_verify_rustls_config T =
     (let config = client_config_with T NoVerifier in config\<lparr>cc_sessions := TLS_SESSION_CACHE_SIZE\<rparr>)"

definition build_tls_connector :: "tls_crates \<Rightarrow> bool \<Rightarrow> client_config" where
  "build_tls_connector T skip_verify =
     (if skip_verify then no_verify_rustls_config T else verifying_rustls_config T)"

definition build_tls_config :: "tls_crates \<Rightarrow> client_config" where
  "build_tls_config T =
     (let root_store = [] @ tls_server_roots T in client_config_with T (webpki_verifier T root_store))"

section \<open>What a peer has shown\<close>

text \<open>A certificate chain as a verifier is asked about it: the end-entity certificate, the
  intermediates, the OCSP response and the time of the check.\<close>

type_synonym chain = "certificate \<times> certificate list \<times> bytes \<times> nat"

definition accepts_chain :: "cert_verifier \<Rightarrow> string \<Rightarrow> chain \<Rightarrow> bool" where
  "accepts_chain v server_name ch =
     (case ch of (end_entity, intermediates, ocsp, now) \<Rightarrow>
        verify_server_cert v end_entity intermediates server_name ocsp now = Inr ())"

definition webpki_accepts :: "tls_crates \<Rightarrow> string \<Rightarrow> chain \<Rightarrow> bool" where
  "webpki_accepts T = accepts_chain (webpki_verifier T (tls_server_roots T))"

lemma connector_verifies [simp]:
  "accepts_chain (cc_verifier (build_tls_connector T False)) = webpki_accepts T"
  "accepts_chain (cc_verifier (build_tls_config T)) = webpki_accepts T"
  "accepts_chain (cc_verifier (build_tls_connector T True)) n ch"
  by (simp_all add: build_tls_connector_def verifying_rustls_config_def no_verify_rustls_config_def
      build_tls_config_def client_config_with_def webpki_accepts_def accepts_chain_def NoVerifier_def
      Let_def fun_eq_iff split: prod.split)

lemma connector_cache:
  "cc_sessions (build_tls_connector T skip) = TLS_SESSION_CACHE_SIZE \<and> \<not> cc_client_auth (build_tls_connector T skip)"
  by (simp add: build_tls_connector_def verifying_rustls_config_def no_verify_rustls_config_def
      client_config_with_def Let_def)

text \<open>Roots that trust the one certificate whose bytes are the server name.\<close>

definition example_tls :: tls_crates where
  "example_tls =
     \<lparr>webpki_verifier = (\<lambda>roots. NoVerifier\<lparr>verify_server_cert :=
        (\<lambda>ee inter name ocsp now. if ee = as_bytes name then Inr () else Inl ''UnknownIssuer'')\<rparr>),
      tls_server_roots = [], default_sessions = 256\<rparr>"

end
