(* ===== verification/Ws_Client.thy ===== *)
theory Ws_Client
  imports Config Tls
begin

text \<open>
  The WebSocket client (\<open>rust/src/ws_client.rs\<close>): host names per data centre, one connection
  attempt with its outcomes, the walk over a data centre's host names, the Cloudflare attempt
  queue with its forced retry, and the Worker tunnel.

  TLS and WebSocket handshakes are the \<open>rustls\<close> and \<open>tungstenite\<close> crates'; they are further
  operations of the network record, which take the TLS configuration the code builds, and \<open>env\<close> adds
  the outbound configuration. Log calls are left out.
\<close>

section \<open>Host names\<close>

definition media_tag :: "bool \<Rightarrow> string" where
  "media_tag is_media = (if is_media then ''m'' else [])"

definition ordered_records :: "string \<Rightarrow> string \<Rightarrow> bool \<Rightarrow> string list" where
  "ordered_records base dash_one is_media = (if is_media then [dash_one, base] else [base, dash_one])"

definition ws_domains :: "u32 \<Rightarrow> bool \<Rightarrow> string list" where
  "ws_domains dc is_media =
     (let effective_dc = decimal (unat (websocket_dc dc)) in
      ordered_records (''kws'' @ effective_dc @ ''.web.telegram.org'')
        (''kws'' @ effective_dc @ ''-1.web.telegram.org'') is_media)"

definition cf_ws_domains :: "u32 \<Rightarrow> string list \<Rightarrow> bool \<Rightarrow> string list" where
  "cf_ws_domains dc cf_domains is_media =
     concat (map (\<lambda>d. ordered_records (''kws'' @ decimal (unat dc) @ ''.'' @ d)
       (''kws'' @ decimal (unat dc) @ ''-1.'' @ d) is_media) cf_domains)"

definition cf_worker_path :: "string \<Rightarrow> u32 \<Rightarrow> bool \<Rightarrow> string" where
  "cf_worker_path dst dc is_media =
     ''/apiws?dst='' @ dst @ ''&dc='' @ decimal (unat dc) @ ''&media='' @ (if is_media then ''1'' else ''0'')"

definition is_dns_not_found :: "string \<Rightarrow> bool" where
  "is_dns_not_found reason \<longleftrightarrow>
     starts_with ''TCP connect:'' reason \<and>
     (contains_str ''failed to lookup address information'' reason
      \<or> contains_str ''nodename nor servname provided'' reason
      \<or> contains_str ''No such host is known'' reason
      \<or> contains_str ''Name or service not known'' reason)"

section \<open>One connection attempt\<close>

datatype ws_error = WsHttp nat | WsOther string

record ws_request =
  rq_url :: string
  rq_binary_subprotocol :: bool
  rq_origin :: string
  rq_user_agent :: string

record ('w, 'st, 'ws) ws_ops = "('w, 'st) net_ops" +
  request_error :: "string \<Rightarrow> string option"
  server_name_ok :: "string \<Rightarrow> bool"
  e_tls :: tls_crates
  tls_connect_op :: "client_config \<Rightarrow> string \<Rightarrow> 'st \<Rightarrow> ('w, string + 'st) prim"
  ws_client_op :: "ws_request \<Rightarrow> 'st \<Rightarrow> ('w, ws_error + ('ws \<times> nat)) prim"
  ws_client_tls_op :: "client_config \<Rightarrow> ws_request \<Rightarrow> 'st \<Rightarrow> ('w, ws_error + ('ws \<times> nat)) prim"

record ('w, 'st, 'ws) env = "('w, 'st, 'ws) ws_ops" +
  e_crates :: outbound_crates
  e_outbound :: outbound_config

datatype 'ws ws_connect_result =
  Connected 'ws | Redirect nat | Failed string | ConnectTimedOut string | TimedOut

definition USER_AGENT :: string where
  "USER_AGENT = ''Mozilla/5.0 (Windows NT 10.0; Win64; x64) AppleWebKit/537.36 (KHTML, like Gecko) Chrome/131.0.0.0 Safari/537.36''"

definition tls_handshake_and_upgrade ::
  "('w, 'st, 'ws, 'e) env_scheme \<Rightarrow> 'st \<Rightarrow> ws_request \<Rightarrow> bool \<Rightarrow> string option
   \<Rightarrow> (('w, 'b) sys_scheme, ws_error + ('ws \<times> nat)) io" where
  "tls_handshake_and_upgrade E tcp request skip_tls_verify sni_override =
     (case sni_override of
        Some sni \<Rightarrow>
          if \<not> server_name_ok E sni then io_return (Inl (WsOther ''URL error: No host name in the URL''))
          else
            io_bind (perform (tls_connect_op E (no_verify_rustls_config (e_tls E)) sni tcp)) (\<lambda>r.
              case r of
                Inl e \<Rightarrow> io_return (Inl (WsOther e))
              | Inr tls_stream \<Rightarrow> perform (ws_client_op E request tls_stream))
      | None \<Rightarrow> perform (ws_client_tls_op E (build_tls_connector (e_tls E) skip_tls_verify) request tcp))"

definition is_redirect :: "nat \<Rightarrow> bool" where
  "is_redirect status \<longleftrightarrow> status \<in> {301, 302, 303, 307, 308}"

definition classify_upgrade :: "(ws_error + ('ws \<times> nat)) option \<Rightarrow> 'ws ws_connect_result" where
  "classify_upgrade r =
     (case r of
        Some (Inr (ws, status)) \<Rightarrow>
          if status = 101 then Connected ws
          else if is_redirect status then Redirect status
          else Failed (''unexpected HTTP status '' @ decimal status)
      | Some (Inl (WsHttp status)) \<Rightarrow>
          if is_redirect status then Redirect status else Failed (''HTTP '' @ decimal status @ '' from server'')
      | Some (Inl (WsOther e)) \<Rightarrow> Failed e
      | None \<Rightarrow> TimedOut)"

definition connect_ws_with_path ::
  "('w, 'st, 'ws, 'e) env_scheme \<Rightarrow> string \<Rightarrow> string \<Rightarrow> string \<Rightarrow> bool \<Rightarrow> bool \<Rightarrow> nat \<Rightarrow> string option
   \<Rightarrow> (('w, 'b) sys_scheme, 'ws ws_connect_result) io" where
  "connect_ws_with_path E ip domain path request_binary skip_tls_verify limit sni_override =
     io_bind (outbound_connect E (e_crates E) (e_outbound E) ip 443 limit) (\<lambda>r.
       case r of
         Inl e \<Rightarrow> io_return (if oe_timed_out e then ConnectTimedOut (oe_reason e) else Failed (oe_reason e))
       | Inr tcp \<Rightarrow>
           let url = ''wss://'' @ domain @ path in
           (case request_error E url of
              Some e \<Rightarrow> io_return (Failed (''bad URL: '' @ e))
            | None \<Rightarrow>
                let request = \<lparr>rq_url = url, rq_binary_subprotocol = request_binary,
                      rq_origin = ''https://web.telegram.org'', rq_user_agent = USER_AGENT\<rparr>
                in io_bind (timeout limit (tls_handshake_and_upgrade E tcp request skip_tls_verify sni_override))
                     (\<lambda>u. io_return (classify_upgrade u))))"

definition connect_ws_with_outbound ::
  "('w, 'st, 'ws, 'e) env_scheme \<Rightarrow> string \<Rightarrow> string \<Rightarrow> bool \<Rightarrow> nat \<Rightarrow> string option
   \<Rightarrow> (('w, 'b) sys_scheme, 'ws ws_connect_result) io" where
  "connect_ws_with_outbound E ip domain skip_tls_verify limit sni_override =
     connect_ws_with_path E ip domain ''/apiws'' True skip_tls_verify limit sni_override"

definition connect_ws ::
  "('w, 'st, 'ws, 'e) env_scheme \<Rightarrow> string \<Rightarrow> string \<Rightarrow> bool \<Rightarrow> nat
   \<Rightarrow> (('w, 'b) sys_scheme, 'ws ws_connect_result) io" where
  "connect_ws E ip domain skip_tls_verify limit =
     connect_ws_with_outbound (E\<lparr>e_outbound := outbound_direct\<rparr>) ip domain skip_tls_verify limit None"

section \<open>Walking a data centre's host names\<close>

record 'ws ws_attempt =
  wa_ws :: "'ws option"
  wa_all_redirects :: bool
  wa_upgrade_timed_out :: bool
  wa_connect_timed_out :: bool

definition attempt_connected :: "'ws \<Rightarrow> 'ws ws_attempt" where
  "attempt_connected ws =
     \<lparr>wa_ws = Some ws, wa_all_redirects = False, wa_upgrade_timed_out = False, wa_connect_timed_out = False\<rparr>"

text \<open>The three flags of the loop, updated by one outcome.\<close>

fun note_outcome :: "'ws ws_connect_result \<Rightarrow> bool \<times> bool \<times> bool \<Rightarrow> bool \<times> bool \<times> bool" where
  "note_outcome (Connected ws) f = f"
| "note_outcome (Redirect code) f = f"
| "note_outcome (Failed reason) (all_redirects, upgrade, connect) = (False, upgrade, connect)"
| "note_outcome TimedOut (all_redirects, upgrade, connect) = (False, True, connect)"
| "note_outcome (ConnectTimedOut reason) (all_redirects, upgrade, connect) = (False, upgrade, True)"

fun ws_domain_loop ::
  "('w, 'st, 'ws, 'e) env_scheme \<Rightarrow> string \<Rightarrow> bool \<Rightarrow> nat \<Rightarrow> string option \<Rightarrow> string list \<Rightarrow> bool \<times> bool \<times> bool
   \<Rightarrow> (('w, 'b) sys_scheme, 'ws ws_attempt) io" where
  "ws_domain_loop E ip skip limit sni [] flags =
     io_return \<lparr>wa_ws = None, wa_all_redirects = fst flags, wa_upgrade_timed_out = fst (snd flags),
       wa_connect_timed_out = snd (snd flags)\<rparr>"
| "ws_domain_loop E ip skip limit sni (domain # rest) flags =
     io_bind (connect_ws_with_outbound E ip domain skip limit sni) (\<lambda>r.
       case r of
         Connected ws \<Rightarrow> io_return (attempt_connected ws)
       | _ \<Rightarrow> ws_domain_loop E ip skip limit sni rest (note_outcome r flags))"

definition connect_ws_for_dc_with_outbound ::
  "('w, 'st, 'ws, 'e) env_scheme \<Rightarrow> string \<Rightarrow> u32 \<Rightarrow> bool \<Rightarrow> bool \<Rightarrow> nat \<Rightarrow> string option
   \<Rightarrow> (('w, 'b) sys_scheme, 'ws ws_attempt) io" where
  "connect_ws_for_dc_with_outbound E ip dc is_media skip_tls_verify limit sni_override =
     ws_domain_loop E ip skip_tls_verify limit sni_override (ws_domains dc is_media) (True, False, False)"

definition connect_ws_for_dc ::
  "('w, 'st, 'ws, 'e) env_scheme \<Rightarrow> string \<Rightarrow> u32 \<Rightarrow> bool \<Rightarrow> bool \<Rightarrow> nat
   \<Rightarrow> (('w, 'b) sys_scheme, 'ws option \<times> bool) io" where
  "connect_ws_for_dc E ip dc is_media skip_tls_verify limit =
     io_bind (connect_ws_for_dc_with_outbound (E\<lparr>e_outbound := outbound_direct\<rparr>) ip dc is_media skip_tls_verify limit None)
       (\<lambda>attempt. io_return (wa_ws attempt, wa_all_redirects attempt))"

section \<open>The Cloudflare attempt queue\<close>

definition base_cf_record :: "string \<Rightarrow> string option" where
  "base_cf_record domain =
     (if contains_str ''-1.'' domain then Some (replace_first ''-1.'' ''.'' domain) else None)"

record cf_attempt =
  ca_domain :: string
  ca_forced :: bool

record cf_attempts =
  at_queue :: "cf_attempt list"
  at_tried :: "string set"
  at_timed_out :: "string set"

definition cf_attempts_new :: "string list \<Rightarrow> cf_attempts" where
  "cf_attempts_new domains =
     \<lparr>at_queue = map (\<lambda>d. \<lparr>ca_domain = d, ca_forced = False\<rparr>) domains, at_tried = {}, at_timed_out = {}\<rparr>"

fun next_from_queue :: "cf_attempt list \<Rightarrow> string set \<Rightarrow> (string \<times> cf_attempt list \<times> string set) option" where
  "next_from_queue [] tried = None"
| "next_from_queue (a # q) tried =
     (if ca_forced a then Some (ca_domain a, q, tried)
      else if ca_domain a \<notin> tried then Some (ca_domain a, q, insert (ca_domain a) tried)
      else next_from_queue q tried)"

definition next_domain :: "cf_attempts \<Rightarrow> (string \<times> cf_attempts) option" where
  "next_domain att =
     map_option (\<lambda>(d, q, tried). (d, att\<lparr>at_queue := q, at_tried := tried\<rparr>))
       (next_from_queue (at_queue att) (at_tried att))"

definition note_timed_out :: "string \<Rightarrow> cf_attempts \<Rightarrow> cf_attempts" where
  "note_timed_out domain att = att\<lparr>at_timed_out := insert domain (at_timed_out att)\<rparr>"

definition retry_base_of :: "string \<Rightarrow> cf_attempts \<Rightarrow> (string \<times> cf_attempts) option" where
  "retry_base_of domain att =
     (case base_cf_record domain of
        None \<Rightarrow> None
      | Some base \<Rightarrow>
          if base \<in> at_timed_out att then None
          else Some (base, att\<lparr>at_queue := \<lparr>ca_domain = base, ca_forced = True\<rparr> # at_queue att\<rparr>))"

text \<open>What one unsuccessful attempt does to the queue and to \<open>all_redirects\<close>.\<close>

definition cf_after :: "string \<Rightarrow> 'ws ws_connect_result \<Rightarrow> cf_attempts \<Rightarrow> bool \<Rightarrow> cf_attempts \<times> bool" where
  "cf_after domain r att all_redirects =
     (case r of
        Connected ws \<Rightarrow> (att, all_redirects)
      | Redirect code \<Rightarrow> (att, all_redirects)
      | Failed reason \<Rightarrow>
          (case (if is_dns_not_found reason then retry_base_of domain att else None) of
             Some (base, att') \<Rightarrow> (att', all_redirects)
           | None \<Rightarrow> (att, False))
      | TimedOut \<Rightarrow> (note_timed_out domain att, False)
      | ConnectTimedOut reason \<Rightarrow> (note_timed_out domain att, False))"

text \<open>The queue shrinks: a forced retry is shorter than the record it replaces.\<close>

definition queue_weight :: "cf_attempt list \<Rightarrow> nat" where
  "queue_weight q = sum_list (map (\<lambda>a. Suc (length (ca_domain a))) q)"

lemma length_replace_first:
  "contains_str p s \<Longrightarrow> length (replace_first p q s) + length p = length s + length q"
proof (induction s)
  case (Cons x xs)
  show ?case
  proof (cases "starts_with p (x # xs)")
    case True
    then have "length p \<le> length (x # xs)" by (auto simp: starts_with_iff) (metis length_append length_Cons le_add1)
    with True show ?thesis by simp
  next
    case False
    with Cons show ?thesis by simp
  qed
qed simp

lemma base_cf_record_shorter: "base_cf_record d = Some b \<Longrightarrow> length b + 2 = length d"
  using length_replace_first [of "''-1.''" d "''.''"] by (auto simp: base_cf_record_def split: if_splits)

lemma next_from_queue_weight:
  "next_from_queue q tried = Some (d, q', tried') \<Longrightarrow> Suc (length d) + queue_weight q' \<le> queue_weight q"
  by (induction q) (auto simp: queue_weight_def split: if_splits)

lemma cf_after_weight:
  assumes "next_domain att = Some (d, att1)"
  shows "queue_weight (at_queue (fst (cf_after d r att1 b))) < queue_weight (at_queue att)"
proof -
  have w: "Suc (length d) + queue_weight (at_queue att1) \<le> queue_weight (at_queue att)"
    using assms next_from_queue_weight by (auto simp: next_domain_def)
  have "queue_weight (at_queue att') < queue_weight (at_queue att)"
    if "retry_base_of d att1 = Some (base, att')" for base att'
    using that w base_cf_record_shorter [of d]
    by (auto simp: retry_base_of_def queue_weight_def split: option.splits if_splits)
  then show ?thesis
    using w by (auto simp: cf_after_def note_timed_out_def split: ws_connect_result.splits option.splits)
qed

lemma io_bind_cong [fundef_cong]:
  "m = m' \<Longrightarrow> (\<And>a. k a = k' a) \<Longrightarrow> io_bind m k = io_bind m' k'"
  by (simp add: io_bind_def fun_eq_iff split: prod.split option.split)

function cf_loop ::
  "('w, 'st, 'ws, 'e) env_scheme \<Rightarrow> bool \<Rightarrow> nat \<Rightarrow> cf_attempts \<Rightarrow> bool
   \<Rightarrow> (('w, 'b) sys_scheme, 'ws option \<times> string option \<times> bool) io" where
  "cf_loop E skip limit att all_redirects =
     (case next_domain att of
        None \<Rightarrow> io_return (None, None, all_redirects)
      | Some (domain, att1) \<Rightarrow>
          io_bind (connect_ws_with_outbound E domain domain skip limit None) (\<lambda>r.
            case r of
              Connected ws \<Rightarrow> io_return (Some ws, Some domain, False)
            | _ \<Rightarrow> (let n = cf_after domain r att1 all_redirects in cf_loop E skip limit (fst n) (snd n))))"
  by pat_completeness auto
termination
  by (relation "measure (\<lambda>(E, skip, limit, att, b). queue_weight (at_queue att))")
     (auto simp: case_prod_unfold intro: cf_after_weight)

declare cf_loop.simps [simp del]

definition connect_cf_ws_for_dc_with_outbound ::
  "('w, 'st, 'ws, 'e) env_scheme \<Rightarrow> u32 \<Rightarrow> string list \<Rightarrow> bool \<Rightarrow> bool \<Rightarrow> nat
   \<Rightarrow> (('w, 'b) sys_scheme, 'ws option \<times> string option \<times> bool) io" where
  "connect_cf_ws_for_dc_with_outbound E dc cf_domains is_media skip_tls_verify limit =
     cf_loop E skip_tls_verify limit (cf_attempts_new (cf_ws_domains dc cf_domains is_media)) True"

definition connect_cf_record_with_outbound ::
  "('w, 'st, 'ws, 'e) env_scheme \<Rightarrow> string \<Rightarrow> bool \<Rightarrow> nat \<Rightarrow> (('w, 'b) sys_scheme, 'ws option) io" where
  "connect_cf_record_with_outbound E rec skip_tls_verify limit =
     io_bind (connect_ws_with_outbound E rec rec skip_tls_verify limit None) (\<lambda>r.
       case r of Connected ws \<Rightarrow> io_return (Some ws) | _ \<Rightarrow> io_return None)"

definition connect_cf_worker_ws_for_dc_with_outbound ::
  "('w, 'st, 'ws, 'e) env_scheme \<Rightarrow> string \<Rightarrow> string \<Rightarrow> u32 \<Rightarrow> bool \<Rightarrow> bool \<Rightarrow> nat \<Rightarrow> (('w, 'b) sys_scheme, 'ws option) io" where
  "connect_cf_worker_ws_for_dc_with_outbound E worker_domain dst dc is_media skip_tls_verify limit =
     io_bind (connect_ws_with_path E worker_domain worker_domain (cf_worker_path dst dc is_media)
         False skip_tls_verify limit None) (\<lambda>r.
       case r of
         Connected ws \<Rightarrow> io_return (Some ws)
       | Redirect code \<Rightarrow> io_return None
       | Failed reason \<Rightarrow> io_return None
       | TimedOut \<Rightarrow> io_return None
       | ConnectTimedOut reason \<Rightarrow> io_return None)"

text \<open>The same walks over a direct connector.\<close>

definition connect_cf_ws_for_dc ::
  "('w, 'st, 'ws, 'e) env_scheme \<Rightarrow> u32 \<Rightarrow> string list \<Rightarrow> bool \<Rightarrow> bool \<Rightarrow> nat
   \<Rightarrow> (('w, 'b) sys_scheme, 'ws option \<times> string option \<times> bool) io" where
  "connect_cf_ws_for_dc E dc cf_domains is_media skip_tls_verify limit =
     connect_cf_ws_for_dc_with_outbound (E\<lparr>e_outbound := outbound_direct\<rparr>) dc cf_domains is_media skip_tls_verify limit"

definition connect_cf_worker_ws_for_dc ::
  "('w, 'st, 'ws, 'e) env_scheme \<Rightarrow> string \<Rightarrow> string \<Rightarrow> u32 \<Rightarrow> bool \<Rightarrow> bool \<Rightarrow> nat \<Rightarrow> (('w, 'b) sys_scheme, 'ws option) io" where
  "connect_cf_worker_ws_for_dc E worker_domain dst dc is_media skip_tls_verify limit =
     connect_cf_worker_ws_for_dc_with_outbound (E\<lparr>e_outbound := outbound_direct\<rparr>) worker_domain dst dc is_media
       skip_tls_verify limit"

section \<open>Time bounds\<close>

lemma forward_handshake [timing]: "forward (tls_handshake_and_upgrade E tcp rq skip sni)"
  unfolding tls_handshake_and_upgrade_def by (intro timing)

lemma within_connect_path: "returns_within (limit + limit) (connect_ws_with_path E ip d path b skip limit sni)"
proof -
  have "returns_within limit
      (case r of
         Inl e \<Rightarrow> io_return (if oe_timed_out e then ConnectTimedOut (oe_reason e) else Failed (oe_reason e))
       | Inr tcp \<Rightarrow>
           (case request_error E url of
              Some e \<Rightarrow> io_return (Failed (''bad URL: '' @ e))
            | None \<Rightarrow> io_bind (timeout limit (tls_handshake_and_upgrade E tcp rq skip sni))
                     (\<lambda>u. io_return (classify_upgrade u))))" for r url rq
    by (cases r)
       (auto intro!: within_case_option within_timeout_return forward_handshake
         intro: within_mono [OF within_return, of limit])
  then show ?thesis
    unfolding connect_ws_with_path_def Let_def by (intro within_bind within_outbound_connect)
qed

lemma within_connect_ws: "returns_within (2 * limit) (connect_ws_with_outbound E ip d skip limit sni)"
  using within_connect_path [of limit] by (simp add: connect_ws_with_outbound_def mult_2)

lemma within_after_result:
  "(\<And>ws. returns_within n (f ws)) \<Longrightarrow> (\<And>r. returns_within n (g r)) \<Longrightarrow>
   returns_within n (case r of Connected ws \<Rightarrow> f ws | _ \<Rightarrow> g r)"
  by (cases r) simp_all

lemma within_domain_loop:
  fixes E :: "('w, 'st, 'ws, 'e) env_scheme"
  shows "returns_within (length ds * (2 * limit))
    (ws_domain_loop E ip skip limit sni ds flags :: (('w, 'x) sys_scheme, 'ws ws_attempt) io)"
proof (induction ds arbitrary: flags)
  case Nil
  then show ?case by (simp add: within_return)
next
  case (Cons d ds)
  let ?go = "\<lambda>flags. ws_domain_loop E ip skip limit sni ds flags :: (('w, 'x) sys_scheme, 'ws ws_attempt) io"
  have "returns_within (length ds * (2 * limit))
      (case r of Connected ws \<Rightarrow> io_return (attempt_connected ws) | _ \<Rightarrow> ?go (note_outcome r flags))" for r
    by (rule within_after_result) (auto intro: within_mono [OF within_return] Cons.IH)
  then have "returns_within (2 * limit + length ds * (2 * limit))
      (ws_domain_loop E ip skip limit sni (d # ds) flags :: (('w, 'x) sys_scheme, 'ws ws_attempt) io)"
    unfolding ws_domain_loop.simps by (intro within_bind within_connect_ws)
  then show ?case by (simp del: ws_domain_loop.simps)
qed

lemma within_connect_dc [timing]:
  "returns_within (4 * limit) (connect_ws_for_dc_with_outbound E ip dc m skip limit sni)"
proof -
  have "length (ws_domains dc m) = 2" by (simp add: ws_domains_def ordered_records_def Let_def)
  then show ?thesis
    using within_domain_loop [of "ws_domains dc m" limit E ip skip sni "(True, False, False)"]
    by (simp add: connect_ws_for_dc_with_outbound_def)
qed

text \<open>How often a record can fall back to its base record, and the attempts a queue can cost.\<close>

function dash_retries :: "string \<Rightarrow> nat" where
  "dash_retries d = (case base_cf_record d of None \<Rightarrow> 0 | Some b \<Rightarrow> Suc (dash_retries b))"
  by pat_completeness auto
termination
  by (relation "measure length") (auto dest: base_cf_record_shorter)

declare dash_retries.simps [simp del]

definition queue_cost :: "cf_attempt list \<Rightarrow> nat" where
  "queue_cost q = sum_list (map (\<lambda>a. Suc (dash_retries (ca_domain a))) q)"

lemma next_from_queue_cost:
  "next_from_queue q tried = Some (d, q', tried') \<Longrightarrow> Suc (dash_retries d) + queue_cost q' \<le> queue_cost q"
  by (induction q) (auto simp: queue_cost_def split: if_splits)

lemma cf_after_cost:
  assumes "next_domain att = Some (d, att1)"
  shows "Suc (queue_cost (at_queue (fst (cf_after d r att1 b)))) \<le> queue_cost (at_queue att)"
proof -
  have w: "Suc (dash_retries d) + queue_cost (at_queue att1) \<le> queue_cost (at_queue att)"
    using assms next_from_queue_cost by (auto simp: next_domain_def)
  have "Suc (queue_cost (at_queue att')) \<le> queue_cost (at_queue att)"
    if "retry_base_of d att1 = Some (base, att')" for base att'
    using that w dash_retries.simps [of d]
    by (auto simp: retry_base_of_def queue_cost_def split: option.splits if_splits)
  then show ?thesis
    using w by (auto simp: cf_after_def note_timed_out_def split: ws_connect_result.splits option.splits)
qed

lemma within_cf_loop:
  fixes E :: "('w, 'st, 'ws, 'e) env_scheme"
  shows "returns_within (queue_cost (at_queue att) * (2 * limit))
    (cf_loop E skip limit att b :: (('w, 'x) sys_scheme, 'ws option \<times> string option \<times> bool) io)"
proof (induction "queue_weight (at_queue att)" arbitrary: att b rule: less_induct)
  case less
  let ?go = "\<lambda>att b. cf_loop E skip limit att b :: (('w, 'x) sys_scheme, 'ws option \<times> string option \<times> bool) io"
  show ?case
  proof (cases "next_domain att")
    case None
    then show ?thesis by (subst cf_loop.simps) (simp add: within_mono [OF within_return])
  next
    case (Some p)
    obtain d att1 where p: "p = (d, att1)" by (rule prod.exhaust)
    obtain k where k: "queue_cost (at_queue att) = Suc k"
      using cf_after_cost [of att d att1] Some p by (cases "queue_cost (at_queue att)") auto
    have loop: "returns_within (k * (2 * limit)) (?go (fst (cf_after d r att1 b)) (snd (cf_after d r att1 b)))"
      for r :: "'ws ws_connect_result"
    proof (rule within_mono)
      show "returns_within (queue_cost (at_queue (fst (cf_after d r att1 b))) * (2 * limit))
          (?go (fst (cf_after d r att1 b)) (snd (cf_after d r att1 b)))"
        by (rule less) (use cf_after_weight Some p in auto)
      show "queue_cost (at_queue (fst (cf_after d r att1 b))) * (2 * limit) \<le> k * (2 * limit)"
        using cf_after_cost [of att d att1 r b] Some p k by simp
    qed
    have "returns_within (k * (2 * limit))
        (case r of Connected ws \<Rightarrow> io_return (Some ws, Some d, False)
         | _ \<Rightarrow> (let n = cf_after d r att1 b in ?go (fst n) (snd n)))" for r
      unfolding Let_def by (rule within_after_result) (auto intro: within_mono [OF within_return] loop)
    then have "returns_within (2 * limit + k * (2 * limit)) (?go att b)"
      by (subst cf_loop.simps) (simp add: Some p within_bind within_connect_ws)
    then show ?thesis by (simp add: k)
  qed
qed

section \<open>Certificates\<close>

text \<open>
  What \<open>rustls\<close> and \<open>tungstenite\<close> document: the server name of a request is the host of its URL, and a
  handshake only completes when the verifier of its configuration has accepted the peer's chain for that name. The
  law is stated for URLs whose host is spelt with letters, digits, hyphens and dots, where a URL parser
  returns the text between \<open>wss://\<close> and the next slash. \<open>chain_of\<close> is the chain
  behind a stream; a resumed session is one whose chain that configuration accepted before.
  Nothing is said about the streams of the fronted path, which hands \<open>tungstenite\<close> a finished TLS stream.
\<close>

definition host_char :: "char \<Rightarrow> bool" where
  "host_char c \<longleftrightarrow> digit_of 36 c \<noteq> None \<or> c = CHR ''-'' \<or> c = CHR ''.''"

definition plain_host :: "string \<Rightarrow> bool" where
  "plain_host h \<longleftrightarrow> h \<noteq> [] \<and> list_all host_char h"

definition rustls_verifies :: "('w, 'st, 'ws, 'e) env_scheme \<Rightarrow> ('ws \<Rightarrow> chain) \<Rightarrow> bool" where
  "rustls_verifies E chain_of \<longleftrightarrow>
     (\<forall>cfg rq host path st w ws status d w'.
        rq_url rq = ''wss://'' @ host @ ''/'' @ path \<longrightarrow> plain_host host \<longrightarrow>
        ws_client_tls_op E cfg rq st w = (Some (Inr (ws, status), d), w') \<longrightarrow>
        accepts_chain (cc_verifier cfg) host (chain_of ws))"

definition certified_for :: "('w, 'st, 'ws, 'e) env_scheme \<Rightarrow> ('ws \<Rightarrow> chain) \<Rightarrow> string \<Rightarrow> 'ws \<Rightarrow> bool" where
  "certified_for E chain_of host ws \<longleftrightarrow> webpki_accepts (e_tls E) host (chain_of ws)"

lemma plain_host_append: "plain_host (xs @ ys) \<longleftrightarrow> xs @ ys \<noteq> [] \<and> list_all host_char xs \<and> list_all host_char ys"
  by (auto simp: plain_host_def)

lemma host_char_digits [simp]: "list_all host_char (decimal n)"
proof -
  have "digit_of 36 c \<noteq> None" if "digit_of 10 c \<noteq> None" for c
    using that by (auto simp: digit_of_def Let_def split: if_splits)
  then show ?thesis by (auto simp: list_all_iff host_char_def dest!: decimal_digits)
qed

lemma ws_domains_plain: "h \<in> set (ws_domains dc m) \<Longrightarrow> plain_host h"
proof -
  have "list_all host_char ''kws''" "list_all host_char ''.web.telegram.org''" "list_all host_char ''-1.web.telegram.org''"
    by code_simp+
  then show "h \<in> set (ws_domains dc m) \<Longrightarrow> plain_host h"
    by (auto simp: ws_domains_def ordered_records_def Let_def plain_host_append simp del: append.simps split: if_splits)
qed

lemma cf_ws_domains_plain:
  assumes "h \<in> set (cf_ws_domains dc ds m)" "\<forall>d \<in> set ds. plain_host d"
  shows "plain_host h"
proof -
  have "list_all host_char ''kws''" "list_all host_char ''.''" "list_all host_char ''-1.''" by code_simp+
  with assms show ?thesis
    by (auto simp: cf_ws_domains_def ordered_records_def plain_host_append plain_host_def
        simp del: append.simps split: if_splits)
qed

definition connected_certified ::
  "('w, 'st, 'ws, 'e) env_scheme \<Rightarrow> ('ws \<Rightarrow> chain) \<Rightarrow> string \<Rightarrow> 'ws ws_connect_result \<Rightarrow> bool" where
  "connected_certified E chain_of host r \<longleftrightarrow> (\<forall>ws. r = Connected ws \<longrightarrow> certified_for E chain_of host ws)"

lemma keeps_handshake:
  assumes "rustls_verifies E chain_of" "off_net I" "rq_url rq = ''wss://'' @ host @ ''/'' @ path" "plain_host host"
  shows "keeps I (\<lambda>r. \<forall>ws status. r = Inr (ws, status) \<longrightarrow> certified_for E chain_of host ws)
    (tls_handshake_and_upgrade E tcp rq False None)"
  unfolding tls_handshake_and_upgrade_def option.case
proof (rule keeps_perform [OF assms(2)], intro allI impI)
  fix w r d w' ws status
  assume "ws_client_tls_op E (build_tls_connector (e_tls E) False) rq tcp w = (Some (r, d), w')" "r = Inr (ws, status)"
  then have "accepts_chain (cc_verifier (build_tls_connector (e_tls E) False)) host (chain_of ws)"
    using assms(1,3,4) unfolding rustls_verifies_def by blast
  then show "certified_for E chain_of host ws" by (simp add: certified_for_def)
qed

lemma classify_upgrade_Connected:
  "classify_upgrade u = Connected ws \<Longrightarrow> \<exists>status. u = Some (Inr (ws, status))"
  by (auto simp: classify_upgrade_def split: option.splits sum.splits ws_error.splits if_splits prod.splits)

lemma keeps_connect_path:
  assumes "rustls_verifies E chain_of" "off_net I" "plain_host domain"
  shows "keeps I (connected_certified E chain_of domain) (connect_ws_with_path E ip domain (CHR ''/'' # path) b False limit None)"
  unfolding connect_ws_with_path_def Let_def
proof (intro keeps_then [OF keeps_outbound_connect [OF assms(2)]] keeps_case_sum keeps_case_option
    keeps_bind [OF keeps_timeout [OF assms(2) keeps_handshake [OF assms(1,2) _ assms(3)]]] keeps_return)
  fix u :: "(ws_error + 'c \<times> nat) option"
  assume "\<forall>x. u = Some x \<longrightarrow> (\<forall>ws status. x = Inr (ws, status) \<longrightarrow> certified_for E chain_of domain ws)"
  then show "connected_certified E chain_of domain (classify_upgrade u)"
    by (auto simp: connected_certified_def dest!: classify_upgrade_Connected)
qed (simp_all add: connected_certified_def)

lemma keeps_connect_ws:
  assumes "rustls_verifies E chain_of" "off_net I" "plain_host domain"
  shows "keeps I (connected_certified E chain_of domain) (connect_ws_with_outbound E ip domain False limit None)"
  unfolding connect_ws_with_outbound_def by (rule keeps_connect_path [OF assms])

text \<open>\<open>from_hosts hs ws\<close>: the stream was opened to one of the hosts.\<close>

definition from_hosts :: "('w, 'st, 'ws, 'e) env_scheme \<Rightarrow> ('ws \<Rightarrow> chain) \<Rightarrow> string set \<Rightarrow> 'ws \<Rightarrow> bool" where
  "from_hosts E chain_of hs ws \<longleftrightarrow> (\<exists>h \<in> hs. certified_for E chain_of h ws)"

lemma from_hosts_mono: "from_hosts E ch hs ws \<Longrightarrow> hs \<subseteq> hs' \<Longrightarrow> from_hosts E ch hs' ws"
  by (auto simp: from_hosts_def)

lemma keeps_domain_loop:
  fixes E :: "('w, 'st, 'ws, 'e) env_scheme" and I :: "('w, 'x) sys_scheme \<Rightarrow> bool"
  assumes "rustls_verifies E chain_of" "off_net I" "set ds \<subseteq> hs" "\<forall>d \<in> set ds. plain_host d"
  shows "keeps I (\<lambda>a. \<forall>ws. wa_ws a = Some ws \<longrightarrow> from_hosts E chain_of hs ws)
    (ws_domain_loop E ip False limit None ds flags)"
  using assms(3,4)
proof (induction ds arbitrary: flags)
  case (Cons d ds)
  let ?P = "\<lambda>a :: 'ws ws_attempt. \<forall>ws. wa_ws a = Some ws \<longrightarrow> from_hosts E chain_of hs ws"
  have "keeps I ?P (case r of Connected ws \<Rightarrow> io_return (attempt_connected ws)
      | _ \<Rightarrow> ws_domain_loop E ip False limit None ds (note_outcome r flags))"
    if "connected_certified E chain_of d r" for r
    using that Cons by (cases r) (auto intro!: keeps_return simp: attempt_connected_def connected_certified_def from_hosts_def)
  moreover have "plain_host d" using Cons.prems by simp
  ultimately show ?case
    unfolding ws_domain_loop.simps by (intro keeps_bind [OF keeps_connect_ws [OF assms(1,2)]])
qed (simp add: keeps_return)

lemma keeps_connect_dc:
  assumes "rustls_verifies E chain_of" "off_net I"
  shows "keeps I (\<lambda>a. \<forall>ws. wa_ws a = Some ws \<longrightarrow> from_hosts E chain_of (set (ws_domains dc m)) ws)
    (connect_ws_for_dc_with_outbound E ip dc m False limit None)"
  unfolding connect_ws_for_dc_with_outbound_def by (rule keeps_domain_loop [OF assms order_refl]) (simp add: ws_domains_plain)

lemma keeps_cf_record:
  assumes "rustls_verifies E chain_of" "off_net I" "plain_host rec"
  shows "keeps I (\<lambda>r. \<forall>ws. r = Some ws \<longrightarrow> certified_for E chain_of rec ws)
    (connect_cf_record_with_outbound E rec False limit)"
  unfolding connect_cf_record_with_outbound_def
  by (rule keeps_bind [OF keeps_connect_ws [OF assms]])
     (auto intro!: keeps_return simp: connected_certified_def split: ws_connect_result.split)

lemma keeps_cf_worker:
  assumes "rustls_verifies E chain_of" "off_net I" "plain_host domain"
  shows "keeps I (\<lambda>r. \<forall>ws. r = Some ws \<longrightarrow> certified_for E chain_of domain ws)
    (connect_cf_worker_ws_for_dc_with_outbound E domain dst dc m False limit)"
  unfolding connect_cf_worker_ws_for_dc_with_outbound_def cf_worker_path_def append_Cons
  by (rule keeps_bind [OF keeps_connect_path [OF assms]])
     (auto intro!: keeps_return simp: connected_certified_def split: ws_connect_result.split)

section \<open>Properties\<close>

text \<open>The specification of a walk: the outcomes in order, up to the first connection, and what they say.\<close>

fun ws_outcomes ::
  "('w, 'st, 'ws, 'e) env_scheme \<Rightarrow> string \<Rightarrow> bool \<Rightarrow> nat \<Rightarrow> string option \<Rightarrow> string list
   \<Rightarrow> (('w, 'b) sys_scheme, 'ws ws_connect_result list) io" where
  "ws_outcomes E ip skip limit sni [] = io_return []"
| "ws_outcomes E ip skip limit sni (d # ds) =
     io_bind (connect_ws_with_outbound E ip d skip limit sni) (\<lambda>r.
       case r of
         Connected ws \<Rightarrow> io_return [r]
       | _ \<Rightarrow> io_bind (ws_outcomes E ip skip limit sni ds) (\<lambda>rs. io_return (r # rs)))"

fun connection_of :: "'ws ws_connect_result list \<Rightarrow> 'ws option" where
  "connection_of [] = None"
| "connection_of (Connected ws # rs) = Some ws"
| "connection_of (r # rs) = connection_of rs"

fun is_redirect_result :: "'ws ws_connect_result \<Rightarrow> bool" where
  "is_redirect_result (Redirect _) = True"
| "is_redirect_result _ = False"

fun is_connect_timeout :: "'ws ws_connect_result \<Rightarrow> bool" where
  "is_connect_timeout (ConnectTimedOut _) = True"
| "is_connect_timeout _ = False"

fun is_upgrade_timeout :: "'ws ws_connect_result \<Rightarrow> bool" where
  "is_upgrade_timeout TimedOut = True"
| "is_upgrade_timeout _ = False"

definition summarise :: "'ws ws_connect_result list \<Rightarrow> 'ws ws_attempt" where
  "summarise rs =
     (case connection_of rs of
        Some ws \<Rightarrow> \<lparr>wa_ws = Some ws, wa_all_redirects = False, wa_upgrade_timed_out = False, wa_connect_timed_out = False\<rparr>
      | None \<Rightarrow> \<lparr>wa_ws = None, wa_all_redirects = list_all is_redirect_result rs,
          wa_upgrade_timed_out = list_ex is_upgrade_timeout rs, wa_connect_timed_out = list_ex is_connect_timeout rs\<rparr>)"

definition summarise_from :: "bool \<times> bool \<times> bool \<Rightarrow> 'ws ws_connect_result list \<Rightarrow> 'ws ws_attempt" where
  "summarise_from flags rs =
     (case connection_of rs of
        Some ws \<Rightarrow> attempt_connected ws
      | None \<Rightarrow> \<lparr>wa_ws = None, wa_all_redirects = (fst flags \<and> list_all is_redirect_result rs),
          wa_upgrade_timed_out = (fst (snd flags) \<or> list_ex is_upgrade_timeout rs),
          wa_connect_timed_out = (snd (snd flags) \<or> list_ex is_connect_timeout rs)\<rparr>)"

lemma summarise_from_step:
  "\<forall>ws. r \<noteq> Connected ws \<Longrightarrow> summarise_from (note_outcome r flags) rs = summarise_from flags (r # rs)"
  by (cases flags; cases r) (auto simp: summarise_from_def split: option.splits)

lemma io_bind_assoc: "io_bind (io_bind m f) g = io_bind m (\<lambda>x. io_bind (f x) g)"
  by (auto simp: io_bind_def fun_eq_iff split: prod.splits option.splits)

lemma ws_domain_loop_outcomes:
  fixes E :: "('w, 'st, 'ws, 'e) env_scheme"
  shows "(ws_domain_loop E ip skip limit sni ds flags :: (('w, 'x) sys_scheme, 'ws ws_attempt) io) =
    io_bind (ws_outcomes E ip skip limit sni ds) (\<lambda>rs. io_return (summarise_from flags rs))"
proof (induction ds arbitrary: flags)
  case Nil
  then show ?case by (simp add: summarise_from_def)
next
  case (Cons d ds)
  have "(case r of Connected ws \<Rightarrow> io_return (attempt_connected ws)
       | _ \<Rightarrow> ws_domain_loop E ip skip limit sni ds (note_outcome r flags)) =
      (io_bind (case r of Connected ws \<Rightarrow> io_return [r]
        | _ \<Rightarrow> io_bind (ws_outcomes E ip skip limit sni ds) (\<lambda>rs. io_return (r # rs)))
        (\<lambda>rs. io_return (summarise_from flags rs)) :: (('w, 'x) sys_scheme, 'ws ws_attempt) io)" for r
    using summarise_from_step [of r flags]
    by (cases r) (simp_all add: Cons.IH io_bind_assoc summarise_from_def [of flags "[Connected _]"])
  then show ?case by (simp add: io_bind_assoc)
qed

text \<open>(C26) Walking a data centre's two host names computes exactly the summary of the outcomes met:
  the first connection wins and clears every flag; without one, \<open>all_redirects\<close> holds iff every
  host answered with a redirect, \<open>upgrade_timed_out\<close> iff a TLS or upgrade handshake stalled, and
  \<open>connect_timed_out\<close> iff a TCP connect did. These flags decide between fronting, skipping the
  address and plain TCP.\<close>

theorem ws_attempt_summarises:
  "connect_ws_for_dc_with_outbound E ip dc is_media skip limit sni =
     io_bind (ws_outcomes E ip skip limit sni (ws_domains dc is_media)) (\<lambda>rs. io_return (summarise rs))"
proof -
  have "summarise_from (True, False, False) rs = summarise rs" for rs :: "'c ws_connect_result list"
    by (simp add: summarise_from_def summarise_def attempt_connected_def split: option.split)
  then show ?thesis
    unfolding connect_ws_for_dc_with_outbound_def ws_domain_loop_outcomes by simp
qed

text \<open>A Cloudflare zone whose own name has no \<open>-1.\<close> label: its base record never retries, and its
  \<open>-1\<close> record falls back to the base record once.\<close>

lemma digits_no_dash: "CHR ''-'' \<notin> set (decimal n)"
  using decimal_digits [of "CHR ''-''" n] by (auto simp: digit_of_def)

lemma contains_str_skip:
  "CHR ''-'' \<notin> set xs \<Longrightarrow> contains_str ''-1.'' (xs @ ys) = contains_str ''-1.'' ys"
  by (induction xs) (auto simp: starts_with_def)

lemma replace_first_skip:
  "CHR ''-'' \<notin> set xs \<Longrightarrow> replace_first ''-1.'' q (xs @ ys) = xs @ replace_first ''-1.'' q ys"
  by (induction xs) (auto simp: starts_with_def)

definition kws_base :: "u32 \<Rightarrow> string \<Rightarrow> string" where
  "kws_base dc d = ''kws'' @ decimal (unat dc) @ ''.'' @ d"

definition kws_dash :: "u32 \<Rightarrow> string \<Rightarrow> string" where
  "kws_dash dc d = ''kws'' @ decimal (unat dc) @ ''-1.'' @ d"

lemma base_of_kws:
  assumes "\<not> contains_str ''-1.'' d"
  shows "base_cf_record (kws_base dc d) = None" "base_cf_record (kws_dash dc d) = Some (kws_base dc d)"
proof -
  have s: "CHR ''-'' \<notin> set (''kws'' @ decimal (unat dc))" using digits_no_dash by simp
  have b: "kws_base dc d = (''kws'' @ decimal (unat dc)) @ (''.'' @ d)"
    and m: "kws_dash dc d = (''kws'' @ decimal (unat dc)) @ (''-1.'' @ d)"
    by (simp_all add: kws_base_def kws_dash_def)
  show "base_cf_record (kws_base dc d) = None"
    unfolding base_cf_record_def b contains_str_skip [OF s] using assms by (simp add: starts_with_def)
  show "base_cf_record (kws_dash dc d) = Some (kws_base dc d)"
    unfolding base_cf_record_def m contains_str_skip [OF s] replace_first_skip [OF s]
    by (simp add: starts_with_def kws_base_def)
qed

lemma cf_ws_domains_cost:
  assumes "\<forall>d \<in> set ds. \<not> contains_str ''-1.'' d"
  shows "queue_cost (at_queue (cf_attempts_new (cf_ws_domains dc ds m))) = 3 * length ds"
  using assms
proof (induction ds)
  case (Cons d ds)
  have "dash_retries (kws_base dc d) = 0" "dash_retries (kws_dash dc d) = 1"
    using Cons.prems base_of_kws [of d dc] by (simp_all add: dash_retries.simps)
  then show ?case
    using Cons by (simp add: cf_ws_domains_def cf_attempts_new_def queue_cost_def ordered_records_def
        kws_base_def kws_dash_def)
qed (simp add: cf_ws_domains_def cf_attempts_new_def queue_cost_def)

text \<open>Every host the Cloudflare walk dials comes from its queue or is the base record of one that does.\<close>

definition queued :: "cf_attempts \<Rightarrow> string set" where
  "queued att = ca_domain ` set (at_queue att)"

lemma next_from_queue_in:
  "next_from_queue q tried = Some (d, q', tried') \<Longrightarrow> d \<in> ca_domain ` set q \<and> set q' \<subseteq> set q"
  by (induction q) (auto split: if_splits)

lemma next_domain_in: "next_domain att = Some (d, att1) \<Longrightarrow> d \<in> queued att \<and> queued att1 \<subseteq> queued att"
  by (auto simp: next_domain_def queued_def dest!: next_from_queue_in)

lemma cf_after_in:
  "d \<in> hs \<Longrightarrow> queued att \<subseteq> hs \<Longrightarrow> (\<And>b. base_cf_record d = Some b \<Longrightarrow> b \<in> hs) \<Longrightarrow>
   queued (fst (cf_after d r att all)) \<subseteq> hs"
  by (auto simp: cf_after_def queued_def retry_base_of_def note_timed_out_def
      split: ws_connect_result.splits option.splits if_splits)

definition from_record ::
  "('w, 'st, 'ws, 'e) env_scheme \<Rightarrow> ('ws \<Rightarrow> chain) \<Rightarrow> string set \<Rightarrow> 'ws option \<times> string option \<times> bool \<Rightarrow> bool" where
  "from_record E chain_of hs r \<longleftrightarrow>
     (\<forall>ws. fst r = Some ws \<longrightarrow> (\<exists>d \<in> hs. fst (snd r) = Some d \<and> certified_for E chain_of d ws))"

lemma keeps_cf_loop:
  fixes E :: "('w, 'st, 'ws, 'e) env_scheme" and I :: "('w, 'x) sys_scheme \<Rightarrow> bool"
  assumes "rustls_verifies E chain_of" "off_net I" and plain: "\<forall>h \<in> hs. plain_host h"
    and closed: "\<And>d b. d \<in> hs \<Longrightarrow> base_cf_record d = Some b \<Longrightarrow> b \<in> hs" and "queued att \<subseteq> hs"
  shows "keeps I (from_record E chain_of hs) (cf_loop E False limit att all)"
  using assms(5)
proof (induction "queue_weight (at_queue att)" arbitrary: att all rule: less_induct)
  case less
  show ?case
  proof (cases "next_domain att")
    case None
    then show ?thesis by (subst cf_loop.simps) (simp add: keeps_return from_record_def)
  next
    case (Some p)
    obtain d att1 where p: "next_domain att = Some (d, att1)" using Some by (cases p) simp
    have d: "d \<in> hs" "queued att1 \<subseteq> hs" using next_domain_in [OF p] less.prems by auto
    have "keeps I (from_record E chain_of hs)
        (case r of Connected ws \<Rightarrow> io_return (Some ws, Some d, False)
         | _ \<Rightarrow> (let n = cf_after d r att1 all in cf_loop E False limit (fst n) (snd n)))"
      if r: "connected_certified E chain_of d r" for r
    proof (cases "\<exists>ws. r = Connected ws")
      case True
      with r d show ?thesis by (auto intro!: keeps_return simp: from_record_def connected_certified_def)
    next
      case False
      have "keeps I (from_record E chain_of hs) (cf_loop E False limit (fst (cf_after d r att1 all)) (snd (cf_after d r att1 all)))"
        by (rule less.hyps [OF cf_after_weight [OF p] cf_after_in [OF d closed [OF d(1)]]])
      with False show ?thesis by (cases r) (simp_all add: Let_def)
    qed
    then show ?thesis
      by (subst cf_loop.simps) (simp add: p d plain keeps_bind [OF keeps_connect_ws [OF assms(1,2)]])
  qed
qed

lemma cf_ws_domains_set: "set (cf_ws_domains dc ds m) = kws_base dc ` set ds \<union> kws_dash dc ` set ds"
  by (auto simp: cf_ws_domains_def ordered_records_def kws_base_def kws_dash_def)

lemma keeps_cf_connect:
  assumes "rustls_verifies E chain_of" "off_net I" "\<forall>d \<in> set ds. \<not> contains_str ''-1.'' d"
    and "\<forall>d \<in> set ds. plain_host d"
  shows "keeps I (from_record E chain_of (set (cf_ws_domains dc ds m)))
    (connect_cf_ws_for_dc_with_outbound E dc ds m False limit)"
  unfolding connect_cf_ws_for_dc_with_outbound_def
proof (rule keeps_cf_loop [OF assms(1,2)])
  show "\<forall>h \<in> set (cf_ws_domains dc ds m). plain_host h" using cf_ws_domains_plain assms(4) by blast
  show "b \<in> set (cf_ws_domains dc ds m)" if "d \<in> set (cf_ws_domains dc ds m)" "base_cf_record d = Some b" for d b
    using that assms(3) base_of_kws by (auto simp: cf_ws_domains_set)
  show "queued (cf_attempts_new (cf_ws_domains dc ds m)) \<subseteq> set (cf_ws_domains dc ds m)"
    by (auto simp: queued_def cf_attempts_new_def)
qed

lemma within_cf_connect:
  assumes "\<forall>d \<in> set ds. \<not> contains_str ''-1.'' d"
  shows "returns_within (length ds * (6 * limit)) (connect_cf_ws_for_dc_with_outbound E dc ds m skip limit)"
  using within_cf_loop [of "cf_attempts_new (cf_ws_domains dc ds m)" limit E skip True]
  unfolding connect_cf_ws_for_dc_with_outbound_def cf_ws_domains_cost [OF assms]
  by (simp add: mult.commute mult.left_commute)

text \<open>(C17) The Cloudflare walk always ends, although a missing \<open>-1\<close> record keeps adding attempts to its queue: with
  \<open>n\<close> zones whose names contain no \<open>-1.\<close> of their own it comes back within \<open>6 * n\<close> connect
  timeouts, whatever the network answers.\<close>

theorem cf_connect_bounded:
  assumes "\<forall>d \<in> set cf_domains. \<not> contains_str ''-1.'' d"
  shows "\<exists>r t. connect_cf_ws_for_dc_with_outbound E dc cf_domains is_media skip limit s = (Some r, t)
    \<and> clock s \<le> clock t \<and> clock t \<le> clock s + length cf_domains * (6 * limit)"
  using within_Some [OF within_cf_connect [OF assms]] by blast

definition url_host :: "string \<Rightarrow> string" where
  "url_host url = before_slash (drop (length ''wss://'') url)"

text \<open>A network that refuses every TCP connect at once with a given reason and logs the addresses dialled.\<close>

definition refusing :: "(string \<Rightarrow> string) \<Rightarrow> (string list, unit, unit) env" where
  "refusing answer =
     \<lparr>tcp_connect_op = (\<lambda>addr w. (Some (Inl (answer addr), 0), w @ [addr])),
      http_connect_op = (\<lambda>st h p c w. (None, w)),
      socks5_connect_op = (\<lambda>a t c w. (None, w)),
      lookup_host_op = (\<lambda>h p w. (None, w)),
      request_error = (\<lambda>u. None),
      server_name_ok = (\<lambda>n. True),
      e_tls = example_tls,
      tls_connect_op = (\<lambda>cfg n st w. (None, w)),
      ws_client_op = (\<lambda>r st w. (None, w)),
      ws_client_tls_op = (\<lambda>b r st w. (None, w)),
      e_crates = no_crates,
      e_outbound = outbound_direct\<rparr>"

lemma connect_refused:
  "connect_ws_with_outbound (refusing answer) h h skip limit None s =
     (Some (Failed (''TCP connect: '' @ answer (authority h 443))), s\<lparr>net := net s @ [authority h 443]\<rparr>)"
  by (simp add: connect_ws_with_outbound_def connect_ws_with_path_def outbound_connect_def outbound_direct_def
      refusing_def connect_direct_def timeout_def connect_tcp_def io_result_def perform_def io_bind_def
      io_return_def classify_connect_def error_failed_def)

theorem cf_connect_bounded_witness:
  "\<exists>r t. connect_cf_ws_for_dc_with_outbound (refusing (\<lambda>_. ''refused'')) 2 [''a.org'', ''b.org''] True False 10
      \<lparr>clock = 0, net = []\<rparr> = (Some r, t) \<and> clock t \<le> 120"
proof -
  have "\<not> contains_str ''-1.'' ''a.org''" "\<not> contains_str ''-1.'' ''b.org''" by code_simp+
  then have "\<forall>d \<in> set [''a.org'', ''b.org'']. \<not> contains_str ''-1.'' d" by simp
  from cf_connect_bounded [OF this, of "refusing (\<lambda>_. ''refused'')" 2 True False 10 "\<lparr>clock = 0, net = []\<rparr>"]
  show ?thesis by auto
qed

subsection \<open>The Cloudflare walk, zone by zone\<close>

text \<open>One attempt: a connection ends the walk, any other outcome is handed on.\<close>

definition try_host ::
  "('w, 'st, 'ws, 'e) env_scheme \<Rightarrow> bool \<Rightarrow> nat \<Rightarrow> string
   \<Rightarrow> ('ws ws_connect_result \<Rightarrow> (('w, 'b) sys_scheme, 'ws option \<times> string option \<times> bool) io)
   \<Rightarrow> (('w, 'b) sys_scheme, 'ws option \<times> string option \<times> bool) io" where
  "try_host E skip limit h k =
     io_bind (connect_ws_with_outbound E h h skip limit None) (\<lambda>r.
       case r of Connected ws \<Rightarrow> io_return (Some ws, Some h, False) | _ \<Rightarrow> k r)"

fun is_missing :: "'ws ws_connect_result \<Rightarrow> bool" where
  "is_missing (Failed reason) = is_dns_not_found reason"
| "is_missing _ = False"

fun is_expired :: "'ws ws_connect_result \<Rightarrow> bool" where
  "is_expired TimedOut = True"
| "is_expired (ConnectTimedOut reason) = True"
| "is_expired _ = False"

fun was_redirect :: "'ws ws_connect_result \<Rightarrow> bool" where
  "was_redirect (Redirect code) = True"
| "was_redirect _ = False"

text \<open>What the comments of \<open>CfAttempts\<close> ask for, written out for one zone. Ordinary data centres dial the base record, then the
  \<open>-1\<close> record, and the base again when the \<open>-1\<close> record is missing from DNS and the base did not run out the clock. Media
  dial the \<open>-1\<close> record first; when it is missing the base gets two attempts, otherwise one.\<close>

definition walk_zone ::
  "('w, 'st, 'ws, 'e) env_scheme \<Rightarrow> u32 \<Rightarrow> bool \<Rightarrow> bool \<Rightarrow> nat \<Rightarrow> string
   \<Rightarrow> (bool \<Rightarrow> (('w, 'b) sys_scheme, 'ws option \<times> string option \<times> bool) io)
   \<Rightarrow> (('w, 'b) sys_scheme, 'ws option \<times> string option \<times> bool) io" where
  "walk_zone E dc is_media skip limit d k =
     (let base = kws_base dc d; dash = kws_dash dc d in
      if is_media then
        try_host E skip limit dash (\<lambda>r1.
          if is_missing r1 then
            try_host E skip limit base (\<lambda>r2. try_host E skip limit base (\<lambda>r3. k (was_redirect r2 \<and> was_redirect r3)))
          else try_host E skip limit base (\<lambda>r2. k (was_redirect r1 \<and> was_redirect r2)))
      else
        try_host E skip limit base (\<lambda>r1.
        try_host E skip limit dash (\<lambda>r2.
          if is_missing r2 \<and> \<not> is_expired r1 then
            try_host E skip limit base (\<lambda>r3. k (was_redirect r1 \<and> was_redirect r3))
          else k (was_redirect r1 \<and> was_redirect r2))))"

fun walk_zones ::
  "('w, 'st, 'ws, 'e) env_scheme \<Rightarrow> u32 \<Rightarrow> bool \<Rightarrow> bool \<Rightarrow> nat \<Rightarrow> string list \<Rightarrow> bool
   \<Rightarrow> (('w, 'b) sys_scheme, 'ws option \<times> string option \<times> bool) io" where
  "walk_zones E dc is_media skip limit [] all_redirects = io_return (None, None, all_redirects)"
| "walk_zones E dc is_media skip limit (d # ds) all_redirects =
     walk_zone E dc is_media skip limit d (\<lambda>b. walk_zones E dc is_media skip limit ds (all_redirects \<and> b))"

lemma try_host_cong:
  assumes "\<And>r. (\<forall>ws. r \<noteq> Connected ws) \<Longrightarrow> k r = k' r"
  shows "try_host E skip limit h k = try_host E skip limit h k'"
  unfolding try_host_def by (rule arg_cong [where f = "io_bind _"], rule ext) (simp add: assms split: ws_connect_result.split)

lemma cf_loop_step:
  assumes "next_domain att = Some (d, att1)"
  shows "cf_loop E skip limit att all_redirects =
    try_host E skip limit d (\<lambda>r. cf_loop E skip limit (fst (cf_after d r att1 all_redirects)) (snd (cf_after d r att1 all_redirects)))"
  by (subst cf_loop.simps) (unfold assms option.case prod.case try_host_def Let_def, rule refl)

lemma kws_inj: "kws_base dc d = kws_base dc d' \<longleftrightarrow> d = d'" "kws_dash dc d = kws_dash dc d' \<longleftrightarrow> d = d'"
  "kws_dash dc d \<noteq> kws_base dc d'" "kws_base dc d' \<noteq> kws_dash dc d"
  by (simp_all add: kws_base_def kws_dash_def)

abbreviation turn :: "string \<Rightarrow> cf_attempt" where "turn h \<equiv> \<lparr>ca_domain = h, ca_forced = False\<rparr>"
abbreviation retry :: "string \<Rightarrow> cf_attempt" where "retry h \<equiv> \<lparr>ca_domain = h, ca_forced = True\<rparr>"

lemma next_turn:
  "h \<notin> T \<Longrightarrow> next_domain \<lparr>at_queue = turn h # q, at_tried = T, at_timed_out = X\<rparr>
     = Some (h, \<lparr>at_queue = q, at_tried = insert h T, at_timed_out = X\<rparr>)"
  "next_domain \<lparr>at_queue = retry h # q, at_tried = T, at_timed_out = X\<rparr>
     = Some (h, \<lparr>at_queue = q, at_tried = T, at_timed_out = X\<rparr>)"
  by (simp_all add: next_domain_def)

lemma cf_after_other:
  assumes "\<forall>ws. r \<noteq> Connected ws" "is_missing r \<Longrightarrow> retry_base_of h att = None"
  shows "cf_after h r att b = ((if is_expired r then note_timed_out h att else att), b \<and> was_redirect r)"
  using assms by (cases r) (simp_all add: cf_after_def)

lemma cf_after_missing:
  assumes "is_missing r" "base_cf_record h = Some base" "base \<notin> X"
  shows "cf_after h r \<lparr>at_queue = q, at_tried = T, at_timed_out = X\<rparr> b
    = (\<lparr>at_queue = retry base # q, at_tried = T, at_timed_out = X\<rparr>, b)"
  using assms by (cases r) (simp_all add: cf_after_def retry_base_of_def)

lemma after_states:
  "fst (cf_after h r \<lparr>at_queue = q, at_tried = T, at_timed_out = X\<rparr> b)
     = \<lparr>at_queue = q, at_tried = T, at_timed_out = (if is_expired r then insert h X else X)\<rparr>
   \<and> snd (cf_after h r \<lparr>at_queue = q, at_tried = T, at_timed_out = X\<rparr> b) = (b \<and> was_redirect r)"
  if "\<forall>ws. r \<noteq> Connected ws" "is_missing r \<Longrightarrow> retry_base_of h \<lparr>at_queue = q, at_tried = T, at_timed_out = X\<rparr> = None"
  using cf_after_other [OF that] by (simp add: note_timed_out_def)

lemma loop_media_zone:
  assumes plain: "\<not> contains_str ''-1.'' d" and fresh: "kws_base dc d \<notin> T \<union> X" "kws_dash dc d \<notin> T"
    and rest: "\<And>X' b. X' \<subseteq> {kws_base dc d, kws_dash dc d} \<union> X \<Longrightarrow>
      cf_loop E skip limit \<lparr>at_queue = q, at_tried = {kws_base dc d, kws_dash dc d} \<union> T, at_timed_out = X'\<rparr> b = K b"
  shows "cf_loop E skip limit \<lparr>at_queue = turn (kws_dash dc d) # turn (kws_base dc d) # q, at_tried = T, at_timed_out = X\<rparr> all_redirects
    = walk_zone E dc True skip limit d (\<lambda>b. K (all_redirects \<and> b))"
proof -
  let ?base = "kws_base dc d" and ?dash = "kws_dash dc d"
  have next_zone: "cf_loop E skip limit \<lparr>at_queue = q, at_tried = insert ?base (insert ?dash T), at_timed_out = X'\<rparr> b = K b"
    if "X' \<subseteq> insert ?base (insert ?dash X)" for X' b using rest [of X' b] that by simp
  have none: "retry_base_of ?base att = None" for att by (simp add: retry_base_of_def base_of_kws [OF plain])
  have own: "cf_loop E skip limit \<lparr>at_queue = turn ?base # q, at_tried = insert ?dash T, at_timed_out = X'\<rparr> b
      = try_host E skip limit ?base (\<lambda>r. K (b \<and> was_redirect r))" if "X' \<subseteq> {?base, ?dash} \<union> X" for X' b
    using fresh that
    by (subst cf_loop_step [OF next_turn(1)], simp add: kws_inj, intro try_host_cong)
       (auto simp: after_states none intro!: next_zone)
  show ?thesis
    unfolding walk_zone_def Let_def if_True
  proof (subst cf_loop_step [OF next_turn(1) [OF fresh(2)]], intro try_host_cong)
    fix r :: "'c ws_connect_result"
    assume r: "\<forall>ws. r \<noteq> Connected ws"
    let ?n = "cf_after ?dash r \<lparr>at_queue = turn ?base # q, at_tried = insert ?dash T, at_timed_out = X\<rparr> all_redirects"
    show "cf_loop E skip limit (fst ?n) (snd ?n) = (if is_missing r
        then try_host E skip limit ?base (\<lambda>r2. try_host E skip limit ?base (\<lambda>r3. K (all_redirects \<and> was_redirect r2 \<and> was_redirect r3)))
        else try_host E skip limit ?base (\<lambda>r2. K (all_redirects \<and> was_redirect r \<and> was_redirect r2)))"
    proof (cases "is_missing r")
      case True
      then have n: "?n = (\<lparr>at_queue = retry ?base # turn ?base # q, at_tried = insert ?dash T, at_timed_out = X\<rparr>, all_redirects)"
        using fresh(1) base_of_kws(2) [OF plain] by (intro cf_after_missing) simp_all
      show ?thesis
        unfolding n fst_conv snd_conv if_P [OF True]
        by (subst cf_loop_step [OF next_turn(2)], intro try_host_cong) (auto simp: after_states none conj_assoc intro!: trans [OF own])
    next
      case False
      then have "is_missing r \<Longrightarrow> retry_base_of ?dash \<lparr>at_queue = turn ?base # q, at_tried = insert ?dash T, at_timed_out = X\<rparr> = None"
        by simp
      from after_states [OF r this, of all_redirects] have n: "?n = (\<lparr>at_queue = turn ?base # q, at_tried = insert ?dash T,
          at_timed_out = (if is_expired r then insert ?dash X else X)\<rparr>, all_redirects \<and> was_redirect r)"
        by (simp add: prod_eq_iff)
      show ?thesis unfolding n fst_conv snd_conv if_not_P [OF False] by (rule trans [OF own]) (auto simp: conj_assoc)
    qed
  qed
qed

lemma loop_ordinary_zone:
  assumes plain: "\<not> contains_str ''-1.'' d" and fresh: "kws_base dc d \<notin> T \<union> X" "kws_dash dc d \<notin> T"
    and rest: "\<And>X' b. X' \<subseteq> {kws_base dc d, kws_dash dc d} \<union> X \<Longrightarrow>
      cf_loop E skip limit \<lparr>at_queue = q, at_tried = {kws_base dc d, kws_dash dc d} \<union> T, at_timed_out = X'\<rparr> b = K b"
  shows "cf_loop E skip limit \<lparr>at_queue = turn (kws_base dc d) # turn (kws_dash dc d) # q, at_tried = T, at_timed_out = X\<rparr> all_redirects
    = walk_zone E dc False skip limit d (\<lambda>b. K (all_redirects \<and> b))"
proof -
  let ?base = "kws_base dc d" and ?dash = "kws_dash dc d"
  have next_zone: "cf_loop E skip limit \<lparr>at_queue = q, at_tried = insert ?base (insert ?dash T), at_timed_out = X'\<rparr> b = K b"
    if "X' \<subseteq> insert ?base (insert ?dash X)" for X' b using rest [of X' b] that by simp
  have none: "retry_base_of ?base att = None" for att by (simp add: retry_base_of_def base_of_kws [OF plain])
  have T: "insert ?dash (insert ?base T) = {?base, ?dash} \<union> T" by auto
  have again: "cf_loop E skip limit \<lparr>at_queue = retry ?base # q, at_tried = insert ?dash (insert ?base T), at_timed_out = X\<rparr> b
      = try_host E skip limit ?base (\<lambda>r. K (b \<and> was_redirect r))" for b
    unfolding T by (subst cf_loop_step [OF next_turn(2)], intro try_host_cong) (auto simp: after_states none intro!: next_zone)
  show ?thesis
    unfolding walk_zone_def Let_def if_False
  proof (subst cf_loop_step [OF next_turn(1)], use fresh in simp, intro try_host_cong)
    fix r :: "'c ws_connect_result"
    assume r: "\<forall>ws. r \<noteq> Connected ws"
    let ?X = "if is_expired r then insert ?base X else X"
    have dash: "?dash \<notin> insert ?base T" using fresh by (simp add: kws_inj)
    show "cf_loop E skip limit
         (fst (cf_after ?base r \<lparr>at_queue = turn ?dash # q, at_tried = insert ?base T, at_timed_out = X\<rparr> all_redirects))
         (snd (cf_after ?base r \<lparr>at_queue = turn ?dash # q, at_tried = insert ?base T, at_timed_out = X\<rparr> all_redirects))
       = try_host E skip limit ?dash (\<lambda>r2. if is_missing r2 \<and> \<not> is_expired r
           then try_host E skip limit ?base (\<lambda>r3. K (all_redirects \<and> was_redirect r \<and> was_redirect r3))
           else K (all_redirects \<and> was_redirect r \<and> was_redirect r2))"
      unfolding conjunct1 [OF after_states [OF r none]] conjunct2 [OF after_states [OF r none]]
    proof (subst cf_loop_step [OF next_turn(1) [OF dash]], intro try_host_cong)
      fix r2 :: "'c ws_connect_result"
      assume r2: "\<forall>ws. r2 \<noteq> Connected ws"
      let ?n = "cf_after ?dash r2 \<lparr>at_queue = q, at_tried = insert ?dash (insert ?base T), at_timed_out = ?X\<rparr> (all_redirects \<and> was_redirect r)"
      show "cf_loop E skip limit (fst ?n) (snd ?n) = (if is_missing r2 \<and> \<not> is_expired r
          then try_host E skip limit ?base (\<lambda>r3. K (all_redirects \<and> was_redirect r \<and> was_redirect r3))
          else K (all_redirects \<and> was_redirect r \<and> was_redirect r2))"
      proof (cases "is_missing r2 \<and> \<not> is_expired r")
        case True
        then have n: "?n = (\<lparr>at_queue = retry ?base # q, at_tried = insert ?dash (insert ?base T), at_timed_out = X\<rparr>, all_redirects \<and> was_redirect r)"
          using fresh(1) base_of_kws(2) [OF plain] cf_after_missing [of r2 ?dash ?base X] by simp
        show ?thesis unfolding n fst_conv snd_conv if_P [OF True] again by (simp add: conj_assoc)
      next
        case False
        then have "is_missing r2 \<Longrightarrow> retry_base_of ?dash \<lparr>at_queue = q, at_tried = insert ?dash (insert ?base T), at_timed_out = ?X\<rparr> = None"
          by (simp add: retry_base_of_def base_of_kws [OF plain])
        from after_states [OF r2 this] have n: "?n = (\<lparr>at_queue = q, at_tried = {?base, ?dash} \<union> T,
            at_timed_out = (if is_expired r2 then insert ?dash ?X else ?X)\<rparr>, all_redirects \<and> was_redirect r \<and> was_redirect r2)"
          by (simp add: prod_eq_iff T conj_assoc)
        show ?thesis unfolding n fst_conv snd_conv if_not_P [OF False] by (rule rest) auto
      qed
    qed
  qed
qed

lemma disjoint_extend: "A \<inter> H = {} \<Longrightarrow> (T \<union> X) \<inter> H = {} \<Longrightarrow> X' \<subseteq> A \<union> X \<Longrightarrow> (A \<union> T \<union> X') \<inter> H = {}"
  by blast

lemma cf_loop_zones:
  fixes E :: "('w, 'st, 'ws, 'e) env_scheme"
  assumes "distinct ds" "\<forall>d \<in> set ds. \<not> contains_str ''-1.'' d"
    and "(T \<union> X) \<inter> (kws_base dc ` set ds \<union> kws_dash dc ` set ds) = {}"
  shows "cf_loop E skip limit \<lparr>at_queue = map turn (cf_ws_domains dc ds is_media), at_tried = T, at_timed_out = X\<rparr> all_redirects
    = (walk_zones E dc is_media skip limit ds all_redirects :: (('w, 'b) sys_scheme, _) io)"
  using assms
proof (induction ds arbitrary: T X all_redirects)
  case Nil
  show ?case by (subst cf_loop.simps) (simp add: cf_ws_domains_def next_domain_def)
next
  case (Cons d ds)
  let ?base = "kws_base dc d" and ?dash = "kws_dash dc d"
  have q: "map turn (cf_ws_domains dc (d # ds) is_media) =
      (if is_media then [turn ?dash, turn ?base] else [turn ?base, turn ?dash]) @ map turn (cf_ws_domains dc ds is_media)"
    by (simp add: cf_ws_domains_def ordered_records_def kws_base_def kws_dash_def)
  have fresh: "?base \<notin> T \<union> X" "?dash \<notin> T" "\<not> contains_str ''-1.'' d" using Cons.prems by auto
  have rest: "cf_loop E skip limit \<lparr>at_queue = map turn (cf_ws_domains dc ds is_media), at_tried = {?base, ?dash} \<union> T, at_timed_out = X'\<rparr> b
      = (walk_zones E dc is_media skip limit ds b :: (('w, 'b) sys_scheme, _) io)" if "X' \<subseteq> {?base, ?dash} \<union> X" for X' b
  proof (rule Cons.IH)
    let ?H = "kws_base dc ` set ds \<union> kws_dash dc ` set ds"
    have "{?base, ?dash} \<inter> ?H = {}" using Cons.prems(1) by (auto simp: kws_inj)
    moreover have "(T \<union> X) \<inter> ?H = {}" using Cons.prems(3) by auto
    ultimately show "({?base, ?dash} \<union> T \<union> X') \<inter> ?H = {}" using that by (rule disjoint_extend)
  qed (use Cons.prems in simp_all)
  show ?case
  proof (cases is_media)
    case True
    then have m: "is_media = True" by simp
    show ?thesis
      unfolding m q [unfolded m if_True append_Cons append_Nil] walk_zones.simps
      by (rule loop_media_zone [OF fresh(3,1,2) rest [unfolded m]])
  next
    case False
    then have m: "is_media = False" by simp
    show ?thesis
      unfolding m q [unfolded m if_False append_Cons append_Nil] walk_zones.simps
      by (rule loop_ordinary_zone [OF fresh(3,1,2) rest [unfolded m]])
  qed
qed

text \<open>(C27) The attempt queue, with its set of tried names, its set of names that timed out and its forced retries,
  amounts to one simple walk per zone, whatever the network answers. For distinct zones without a \<open>-1.\<close> of their own: an
  ordinary data centre dials the base record, then the \<open>-1\<close> record, then the base record again when the
  \<open>-1\<close> record is missing from DNS and the base record had not timed out; media dial the \<open>-1\<close> record
  first, then the base record twice when the \<open>-1\<close> record is missing and once otherwise. The first connection ends the walk, and
  \<open>all_redirects\<close> is reported when every attempt that counted ended in a redirect.\<close>

theorem cf_walk_by_zones:
  assumes "distinct cf_domains" and "\<forall>d \<in> set cf_domains. \<not> contains_str ''-1.'' d"
  shows "connect_cf_ws_for_dc_with_outbound E dc cf_domains is_media skip limit
    = walk_zones E dc is_media skip limit cf_domains True"
  using cf_loop_zones [OF assms, of "{}" "{}"] by (simp add: connect_cf_ws_for_dc_with_outbound_def cf_attempts_new_def)

theorem cf_walk_by_zones_witness:
  "net (snd (connect_cf_ws_for_dc_with_outbound
      (refusing (\<lambda>addr. if addr = ''kws2-1.a.org:443'' then ''No such host is known'' else ''refused''))
      2 [''a.org''] True False 10 \<lparr>clock = 0, net = []\<rparr>)) =
    [''kws2-1.a.org:443'', ''kws2.a.org:443'', ''kws2.a.org:443'']"
proof -
  have h: "authority (kws_dash 2 ''a.org'') 443 = ''kws2-1.a.org:443''"
      "authority (kws_base 2 ''a.org'') 443 = ''kws2.a.org:443''" by code_simp+
  have p: "\<not> contains_str ''-1.'' ''a.org''" "is_dns_not_found (''TCP connect: '' @ ''No such host is known'')"
      "\<not> is_dns_not_found (''TCP connect: '' @ ''refused'')" by code_simp+
  then have "\<forall>d \<in> set [''a.org'']. \<not> contains_str ''-1.'' d" by simp
  note walk = cf_walk_by_zones [OF _ this, simplified]
  show ?thesis
    unfolding walk using p(2,3)
    by (simp add: walk_zone_def try_host_def Let_def io_bind_def io_return_def connect_refused h)
qed

text \<open>The base record is found by rewriting the first \<open>-1.\<close> anywhere in the name, so a zone with such a
  label of its own is rewritten into a different zone.\<close>

lemma base_record_leaves_zone: "base_cf_record ''kws2.my-1.com'' = Some ''kws2.my.com''"
  by code_simp


end
