(* ===== verification/Runtime.thy ===== *)
theory Runtime
  imports Ws_Client
begin

text \<open>
  Shared runtime state (\<open>rust/src/runtime.rs\<close>): the outbound connector, the fronting domain and
  the sticky fronting window. The constant part extends the environment, the window extends
  the state.
\<close>

record 'w rt_state = "'w sys" +
  fronting_until :: "nat option"

record ('w, 'st, 'ws) rt_env = "('w, 'st, 'ws) env" +
  r_fronting_domain :: "string option"
  r_fronting_cooldown :: nat

definition DEFAULT_FRONTING_COOLDOWN :: nat where
  "DEFAULT_FRONTING_COOLDOWN = from_secs 1800"

definition runtime_new :: "('w, 'st, 'ws) env \<Rightarrow> ('w, 'st, 'ws) rt_env" where
  "runtime_new E = env.extend E \<lparr>r_fronting_domain = None, r_fronting_cooldown = DEFAULT_FRONTING_COOLDOWN\<rparr>"

definition with_fronting ::
  "string option \<Rightarrow> nat \<Rightarrow> ('w, 'st, 'ws) rt_env \<Rightarrow> ('w, 'st, 'ws) rt_env" where
  "with_fronting domain cooldown R = R\<lparr>r_fronting_domain := domain, r_fronting_cooldown := cooldown\<rparr>"

definition runtime_outbound :: "('w, 'st, 'ws, 'x) rt_env_scheme \<Rightarrow> outbound_config" where
  "runtime_outbound R = e_outbound R"

definition runtime_websocket_dc :: "u32 \<Rightarrow> u32" where
  "runtime_websocket_dc dc = websocket_dc dc"

definition fronting_domain :: "('w, 'st, 'ws, 'x) rt_env_scheme \<Rightarrow> string option" where
  "fronting_domain R = r_fronting_domain R"

definition fallback_ip :: "u32 \<Rightarrow> string option" where
  "fallback_ip dc = default_dc_ip dc"

definition fronting_active :: "('w, 'b) rt_state_scheme \<Rightarrow> bool" where
  "fronting_active s = (case fronting_until s of Some until \<Rightarrow> clock s < until | None \<Rightarrow> False)"

definition activate_fronting ::
  "('w, 'st, 'ws, 'x) rt_env_scheme \<Rightarrow> ('w, 'b) rt_state_scheme \<Rightarrow> ('w, 'b) rt_state_scheme" where
  "activate_fronting R s = s\<lparr>fronting_until := Some (clock s + r_fronting_cooldown R)\<rparr>"

definition deactivate_fronting :: "('w, 'b) rt_state_scheme \<Rightarrow> ('w, 'b) rt_state_scheme" where
  "deactivate_fronting s = s\<lparr>fronting_until := None\<rparr>"

text \<open>The SNI to present while the window is open.\<close>

definition sticky_fronting ::
  "('w, 'st, 'ws, 'x) rt_env_scheme \<Rightarrow> ('w, 'b) rt_state_scheme \<Rightarrow> string option" where
  "sticky_fronting R s = (if fronting_active s then r_fronting_domain R else None)"

lemma activate_then_active:
  "clock t = clock s + d \<Longrightarrow> fronting_until t = fronting_until (activate_fronting R s) \<Longrightarrow>
   fronting_active t \<longleftrightarrow> d < r_fronting_cooldown R"
  by (simp add: fronting_active_def activate_fronting_def)

lemma clock_fronting [simp]:
  "clock (activate_fronting R s) = clock s" "clock (deactivate_fronting s) = clock s"
  by (simp_all add: activate_fronting_def deactivate_fronting_def)

lemma not_active_after_deactivate [simp]: "\<not> fronting_active (deactivate_fronting s)"
  by (simp add: fronting_active_def deactivate_fronting_def)

end
