(* ===== verification/Pool.thy ===== *)
theory Pool
  imports Runtime "HOL-Library.Multiset"
begin

text \<open>
  The pool of pre-opened WebSocket connections (\<open>rust/src/pool.rs\<close>): taking a fresh connection,
  the background refills with their one-at-a-time guard, the Cloudflare spares, and the
  warm-up at start.

  A bucket is the vector of its entries, newest last. Spawned tasks are recorded in the
  state. The operations are built from the sections the code runs under one lock, and the last
  part of the theory lets those sections of many tasks interleave freely.
\<close>

section \<open>State\<close>

definition CF_POOL_MAX :: nat where "CF_POOL_MAX = 1"

datatype cf_tier = Worker | Proxy

fun tier_label :: "cf_tier \<Rightarrow> string" where
  "tier_label Worker = ''CF Worker''"
| "tier_label Proxy = ''CF proxy''"

record 'ws pool_entry =
  pe_ws :: 'ws
  pe_created :: nat

record 'ws cf_entry =
  ce_ws :: 'ws
  ce_created :: nat
  ce_domain :: string
  ce_dst :: string
  ce_skip_tls_verify :: bool
  ce_connect_timeout :: nat

record cf_target =
  ct_tier :: cf_tier
  ct_dc :: u32
  ct_is_media :: bool
  ct_dst :: string
  ct_domain :: string
  ct_skip_tls_verify :: bool
  ct_connect_timeout :: nat

type_synonym dc_key = "u32 \<times> bool"
type_synonym cf_key = "cf_tier \<times> u32 \<times> bool"

definition cf_target_key :: "cf_target \<Rightarrow> cf_key" where
  "cf_target_key t = (ct_tier t, ct_dc t, ct_is_media t)"

datatype spawned_task = SpawnRefill u32 bool string bool | SpawnCfRefill cf_target

record ('w, 'ws) pool_state = "'w rt_state" +
  idle :: "dc_key \<rightharpoonup> 'ws pool_entry list"
  cf_idle :: "cf_key \<rightharpoonup> 'ws cf_entry list"
  cf_refilling :: "cf_key set"
  refilling :: "dc_key set"
  spawned :: "spawned_task list"

text \<open>The pool's parameters, and the non-blocking poll of an idle connection: it says whether
  anything (a close, an error or data) is ready.\<close>

record ('w, 'st, 'ws) pool_env = "('w, 'st, 'ws) rt_env" +
  pool_size :: nat
  max_age :: nat
  poll_op :: "'ws \<Rightarrow> 'w \<Rightarrow> bool \<times> 'w"

text \<open>\<open>WsPool::with_runtime\<close>: the parameters, and the empty tables on top of the runtime's state.\<close>

definition with_runtime ::
  "nat \<Rightarrow> nat \<Rightarrow> ('ws \<Rightarrow> 'w \<Rightarrow> bool \<times> 'w) \<Rightarrow> ('w, 'st, 'ws) rt_env \<Rightarrow> ('w, 'st, 'ws) pool_env" where
  "with_runtime p_size age poll R = rt_env.extend R (pool_env.fields p_size age poll)"

definition pool_tables :: "'w rt_state \<Rightarrow> ('w, 'ws) pool_state" where
  "pool_tables s = rt_state.extend s (pool_state.fields Map.empty Map.empty {} {} [])"

definition pool_new ::
  "nat \<Rightarrow> nat \<Rightarrow> ('ws \<Rightarrow> 'w \<Rightarrow> bool \<times> 'w) \<Rightarrow> ('w, 'st, 'ws) env \<Rightarrow> ('w, 'st, 'ws) pool_env" where
  "pool_new p_size age poll E = with_runtime p_size age poll (runtime_new (E\<lparr>e_outbound := outbound_direct\<rparr>))"

definition bucket_of :: "('k \<rightharpoonup> 'e list) \<Rightarrow> 'k \<Rightarrow> 'e list" where
  "bucket_of m k = (case m k of Some b \<Rightarrow> b | None \<Rightarrow> [])"

section \<open>Taking a connection\<close>

text \<open>Popping from the back until an entry is young enough and silent; the argument is the bucket
  reversed.\<close>

fun pop_fresh ::
  "('w, 'st, 'ws, 'x) pool_env_scheme \<Rightarrow> ('e \<Rightarrow> nat) \<Rightarrow> ('e \<Rightarrow> 'ws) \<Rightarrow> nat \<Rightarrow> 'e list \<Rightarrow> 'w \<Rightarrow> 'e option \<times> 'e list \<times> 'w" where
  "pop_fresh E created ws now [] w = (None, [], w)"
| "pop_fresh E created ws now (e # es) w =
     (if max_age E < now - created e then pop_fresh E created ws now es w
      else
        let p = poll_op E (ws e) w in
        if fst p then pop_fresh E created ws now es (snd p) else (Some e, es, snd p))"

definition pool_get ::
  "('w, 'st, 'ws, 'x) pool_env_scheme \<Rightarrow> u32 \<Rightarrow> bool \<Rightarrow> string \<Rightarrow> bool \<Rightarrow> bool
   \<Rightarrow> (('w, 'ws, 'b) pool_state_scheme, 'ws option) io" where
  "pool_get E dc is_media target_ip skip_tls_verify allow_refill s =
     (let r = pop_fresh E pe_created pe_ws (clock s) (rev (bucket_of (idle s) (dc, is_media))) (net s) in
      (Some (map_option pe_ws (fst r)),
       s\<lparr>net := snd (snd r), idle := (idle s)((dc, is_media) \<mapsto> rev (fst (snd r))),
         spawned := spawned s @ (if allow_refill then [SpawnRefill dc is_media target_ip skip_tls_verify] else [])\<rparr>))"

definition cf_prefetch :: "cf_target \<Rightarrow> ('w, 'ws, 'b) pool_state_scheme \<Rightarrow> ('w, 'ws, 'b) pool_state_scheme" where
  "cf_prefetch target s = s\<lparr>spawned := spawned s @ [SpawnCfRefill target]\<rparr>"

definition cf_get ::
  "('w, 'st, 'ws, 'x) pool_env_scheme \<Rightarrow> cf_tier \<Rightarrow> u32 \<Rightarrow> bool
   \<Rightarrow> (('w, 'ws, 'b) pool_state_scheme, ('ws \<times> string) option) io" where
  "cf_get E tier dc is_media s =
     (case cf_idle s (tier, dc, is_media) of
        None \<Rightarrow> (Some None, s)
      | Some bucket \<Rightarrow>
          let r = pop_fresh E ce_created ce_ws (clock s) (rev bucket) (net s);
              s1 = s\<lparr>net := snd (snd r), cf_idle := (cf_idle s)((tier, dc, is_media) \<mapsto> rev (fst (snd r)))\<rparr>
          in case fst r of
               None \<Rightarrow> (Some None, s1)
             | Some e \<Rightarrow>
                 (Some (Some (ce_ws e, ce_domain e)),
                  cf_prefetch \<lparr>ct_tier = tier, ct_dc = dc, ct_is_media = is_media, ct_dst = ce_dst e,
                    ct_domain = ce_domain e, ct_skip_tls_verify = ce_skip_tls_verify e,
                    ct_connect_timeout = ce_connect_timeout e\<rparr> s1))"

section \<open>Opening connections\<close>

fun batch_loop ::
  "('w, 'st, 'ws, 'x) pool_env_scheme \<Rightarrow> string \<Rightarrow> u32 \<Rightarrow> bool \<Rightarrow> bool \<Rightarrow> string option \<Rightarrow> nat \<Rightarrow> 'ws list
   \<Rightarrow> (('w, 'ws, 'b) pool_state_scheme, 'ws list) io" where
  "batch_loop E ip dc is_media skip sni 0 results = io_return results"
| "batch_loop E ip dc is_media skip sni (Suc n) results =
     io_bind (connect_ws_for_dc_with_outbound E ip dc is_media skip (from_secs 8) sni) (\<lambda>a.
       case wa_ws a of
         Some ws \<Rightarrow> batch_loop E ip dc is_media skip sni n (results @ [ws])
       | None \<Rightarrow> io_return results)"

definition connect_batch ::
  "('w, 'st, 'ws, 'x) pool_env_scheme \<Rightarrow> string \<Rightarrow> u32 \<Rightarrow> bool \<Rightarrow> bool \<Rightarrow> nat
   \<Rightarrow> (('w, 'ws, 'b) pool_state_scheme, 'ws list) io" where
  "connect_batch E ip dc is_media skip_tls n =
     io_bind (io_get (sticky_fronting E)) (\<lambda>sni. batch_loop E ip dc is_media skip_tls sni n [])"

definition cf_connect_one ::
  "('w, 'st, 'ws, 'x) pool_env_scheme \<Rightarrow> cf_target \<Rightarrow> (('w, 'ws, 'b) pool_state_scheme, 'ws option) io" where
  "cf_connect_one E t =
     (case ct_tier t of
        Worker \<Rightarrow> connect_cf_worker_ws_for_dc_with_outbound E (ct_domain t) (ct_dst t) (ct_dc t)
          (ct_is_media t) (ct_skip_tls_verify t) (ct_connect_timeout t)
      | Proxy \<Rightarrow> connect_cf_record_with_outbound E (ct_domain t) (ct_skip_tls_verify t) (ct_connect_timeout t))"

section \<open>Refills\<close>

definition refill_register :: "dc_key \<Rightarrow> (('w, 'ws, 'b) pool_state_scheme, bool) io" where
  "refill_register k s = (Some (k \<notin> refilling s), s\<lparr>refilling := insert k (refilling s)\<rparr>)"

definition refill_needed ::
  "('w, 'st, 'ws, 'x) pool_env_scheme \<Rightarrow> dc_key \<Rightarrow> ('w, 'ws, 'b) pool_state_scheme \<Rightarrow> nat option" where
  "refill_needed E k s =
     (let current = length (bucket_of (idle s) k) in
      if pool_size E \<le> current then None else Some (pool_size E - current))"

definition refill_commit ::
  "('w, 'st, 'ws, 'x) pool_env_scheme \<Rightarrow> dc_key \<Rightarrow> 'ws list
   \<Rightarrow> ('w, 'ws, 'b) pool_state_scheme \<Rightarrow> ('w, 'ws, 'b) pool_state_scheme" where
  "refill_commit E k new_conns s =
     (if new_conns = [] then s
      else
        let bucket = bucket_of (idle s) k;
            can_add = pool_size E - length bucket
        in s\<lparr>idle := (idle s)(k \<mapsto>
             bucket @ map (\<lambda>ws. \<lparr>pe_ws = ws, pe_created = clock s\<rparr>) (take can_add new_conns))\<rparr>)"

definition refill_release :: "dc_key \<Rightarrow> ('w, 'ws, 'b) pool_state_scheme \<Rightarrow> ('w, 'ws, 'b) pool_state_scheme" where
  "refill_release k s = s\<lparr>refilling := refilling s - {k}\<rparr>"

definition refill ::
  "('w, 'st, 'ws, 'x) pool_env_scheme \<Rightarrow> u32 \<Rightarrow> bool \<Rightarrow> string \<Rightarrow> bool \<Rightarrow> (('w, 'ws, 'b) pool_state_scheme, unit) io" where
  "refill E dc is_media target_ip skip_tls =
     io_bind (refill_register (dc, is_media)) (\<lambda>registered.
       if \<not> registered then io_return ()
       else
         io_bind (io_get (refill_needed E (dc, is_media))) (\<lambda>needed.
           case needed of
             None \<Rightarrow> io_update (refill_release (dc, is_media))
           | Some n \<Rightarrow>
               io_bind (connect_batch E target_ip dc is_media skip_tls n) (\<lambda>new_conns.
                 io_update (\<lambda>s. refill_release (dc, is_media) (refill_commit E (dc, is_media) new_conns s)))))"

definition cf_budget :: "('w, 'st, 'ws, 'x) pool_env_scheme \<Rightarrow> nat" where
  "cf_budget E = min CF_POOL_MAX (pool_size E)"

definition cf_register :: "cf_key \<Rightarrow> (('w, 'ws, 'b) pool_state_scheme, bool) io" where
  "cf_register k s = (Some (k \<notin> cf_refilling s), s\<lparr>cf_refilling := insert k (cf_refilling s)\<rparr>)"

definition cf_full ::
  "('w, 'st, 'ws, 'x) pool_env_scheme \<Rightarrow> cf_key \<Rightarrow> ('w, 'ws, 'b) pool_state_scheme \<Rightarrow> bool" where
  "cf_full E k s \<longleftrightarrow> cf_budget E \<le> length (bucket_of (cf_idle s) k)"

definition cf_commit ::
  "('w, 'st, 'ws, 'x) pool_env_scheme \<Rightarrow> cf_target \<Rightarrow> 'ws \<Rightarrow> ('w, 'ws, 'b) pool_state_scheme \<Rightarrow> ('w, 'ws, 'b) pool_state_scheme" where
  "cf_commit E t ws s =
     (let k = cf_target_key t; bucket = bucket_of (cf_idle s) k in
      s\<lparr>cf_idle := (cf_idle s)(k \<mapsto>
          (if length bucket < cf_budget E
           then bucket @ [\<lparr>ce_ws = ws, ce_created = clock s, ce_domain = ct_domain t, ce_dst = ct_dst t,
                  ce_skip_tls_verify = ct_skip_tls_verify t, ce_connect_timeout = ct_connect_timeout t\<rparr>]
           else bucket))\<rparr>)"

definition cf_release :: "cf_key \<Rightarrow> ('w, 'ws, 'b) pool_state_scheme \<Rightarrow> ('w, 'ws, 'b) pool_state_scheme" where
  "cf_release k s = s\<lparr>cf_refilling := cf_refilling s - {k}\<rparr>"

definition cf_refill ::
  "('w, 'st, 'ws, 'x) pool_env_scheme \<Rightarrow> cf_target \<Rightarrow> (('w, 'ws, 'b) pool_state_scheme, unit) io" where
  "cf_refill E t =
     (let k = cf_target_key t in
      io_bind (cf_register k) (\<lambda>registered.
        if \<not> registered then io_return ()
        else
          io_bind (io_get (cf_full E k)) (\<lambda>full.
            if full then io_update (cf_release k)
            else
              io_bind (cf_connect_one E t) (\<lambda>r.
                case r of
                  None \<Rightarrow> io_update (cf_release k)
                | Some ws \<Rightarrow> io_update (\<lambda>s. cf_release k (cf_commit E t ws s))))))"

section \<open>Warm-up\<close>

definition warmup_push :: "dc_key \<Rightarrow> 'ws list \<Rightarrow> ('w, 'ws, 'b) pool_state_scheme \<Rightarrow> ('w, 'ws, 'b) pool_state_scheme" where
  "warmup_push k new_conns s =
     s\<lparr>idle := (idle s)(k \<mapsto>
        bucket_of (idle s) k @ map (\<lambda>ws. \<lparr>pe_ws = ws, pe_created = clock s\<rparr>) new_conns)\<rparr>"

text \<open>\<open>order\<close> lists the buckets in the order the hash map yields its keys, both media flags of each.\<close>

fun warmup_loop ::
  "('w, 'st, 'ws, 'x) pool_env_scheme \<Rightarrow> bool \<Rightarrow> (dc_key \<times> string) list \<Rightarrow> (('w, 'ws, 'b) pool_state_scheme, unit) io" where
  "warmup_loop E skip_tls [] = io_return ()"
| "warmup_loop E skip_tls ((k, ip) # rest) =
     io_bind (connect_batch E ip (fst k) (snd k) skip_tls (pool_size E)) (\<lambda>new_conns.
     io_bind (io_update (warmup_push k new_conns)) (\<lambda>_. warmup_loop E skip_tls rest))"

definition warmup ::
  "('w, 'st, 'ws, 'x) pool_env_scheme \<Rightarrow> bool \<Rightarrow> (u32 \<times> string) list \<Rightarrow> (('w, 'ws, 'b) pool_state_scheme, unit) io" where
  "warmup E skip_tls redirects =
     warmup_loop E skip_tls (concat (map (\<lambda>(dc, ip). [((dc, False), ip), ((dc, True), ip)]) redirects))"

section \<open>Interleavings\<close>

text \<open>
  Any number of clients, refill tasks and one warm-up run at once; a task holds a lock only inside
  one of the sections above. The state of the running tasks is what they have decided so far:
  \<open>Checking\<close> and \<open>CfChecking\<close> have registered, \<open>Connecting k n\<close> is opening at most \<open>n\<close> connections for
  bucket \<open>k\<close>. The warm-up is the list of buckets it has still to fill.
\<close>

datatype task = Checking dc_key | Connecting dc_key nat | CfChecking cf_target | CfConnecting cf_target

type_synonym ('w, 'ws) system = "task multiset \<times> dc_key list \<times> ('w, 'ws) pool_state"

definition forget_spawn :: "spawned_task \<Rightarrow> ('w, 'ws) pool_state \<Rightarrow> ('w, 'ws) pool_state" where
  "forget_spawn t s = s\<lparr>spawned := remove1 t (spawned s)\<rparr>"

inductive pool_step :: "('w, 'st, 'ws, 'x) pool_env_scheme \<Rightarrow> ('w, 'ws) system \<Rightarrow> ('w, 'ws) system \<Rightarrow> bool"
  for E :: "('w, 'st, 'ws, 'x) pool_env_scheme" where
  client_get: "pool_get E dc m ip skip allow s = (r, s') \<Longrightarrow> pool_step E (ts, warm, s) (ts, warm, s')"
| client_cf_get: "cf_get E tier dc m s = (r, s') \<Longrightarrow> pool_step E (ts, warm, s) (ts, warm, s')"
| client_prefetch: "pool_step E (ts, warm, s) (ts, warm, cf_prefetch t s)"
| network: "clock s \<le> c \<Longrightarrow> pool_step E (ts, warm, s) (ts, warm, s\<lparr>clock := c, net := w\<rparr>)"
| refill_start:
    "SpawnRefill dc m ip skip \<in> set (spawned s) \<Longrightarrow>
     refill_register (dc, m) (forget_spawn (SpawnRefill dc m ip skip) s) = (Some registered, s') \<Longrightarrow>
     pool_step E (ts, warm, s) (if registered then add_mset (Checking (dc, m)) ts else ts, warm, s')"
| refill_enough:
    "refill_needed E k s = None \<Longrightarrow>
     pool_step E (add_mset (Checking k) ts, warm, s) (ts, warm, refill_release k s)"
| refill_connect:
    "refill_needed E k s = Some n \<Longrightarrow>
     pool_step E (add_mset (Checking k) ts, warm, s) (add_mset (Connecting k n) ts, warm, s)"
| refill_done:
    "length conns \<le> n \<Longrightarrow>
     pool_step E (add_mset (Connecting k n) ts, warm, s) (ts, warm, refill_release k (refill_commit E k conns s))"
| cf_start:
    "SpawnCfRefill t \<in> set (spawned s) \<Longrightarrow>
     cf_register (cf_target_key t) (forget_spawn (SpawnCfRefill t) s) = (Some registered, s') \<Longrightarrow>
     pool_step E (ts, warm, s) (if registered then add_mset (CfChecking t) ts else ts, warm, s')"
| cf_enough:
    "cf_full E (cf_target_key t) s \<Longrightarrow>
     pool_step E (add_mset (CfChecking t) ts, warm, s) (ts, warm, cf_release (cf_target_key t) s)"
| cf_connect:
    "\<not> cf_full E (cf_target_key t) s \<Longrightarrow>
     pool_step E (add_mset (CfChecking t) ts, warm, s) (add_mset (CfConnecting t) ts, warm, s)"
| cf_failed:
    "pool_step E (add_mset (CfConnecting t) ts, warm, s) (ts, warm, cf_release (cf_target_key t) s)"
| cf_done:
    "pool_step E (add_mset (CfConnecting t) ts, warm, s)
       (ts, warm, cf_release (cf_target_key t) (cf_commit E t ws s))"
| warm_push:
    "length conns \<le> pool_size E \<Longrightarrow> pool_step E (ts, k # warm, s) (ts, warm, warmup_push k conns s)"

inductive_cases pool_stepE: "pool_step E c c'"

definition pool_init :: "('w, 'ws) pool_state \<Rightarrow> bool" where
  "pool_init s \<longleftrightarrow>
     idle s = Map.empty \<and> cf_idle s = Map.empty \<and> refilling s = {} \<and> cf_refilling s = {} \<and> spawned s = []"

lemma pool_tables_init: "pool_init (pool_tables s)"
  by (simp add: pool_init_def pool_tables_def rt_state.extend_def pool_state.fields_def)

inductive pool_reach ::
  "('w, 'st, 'ws, 'x) pool_env_scheme \<Rightarrow> dc_key list \<Rightarrow> ('w, 'ws) system \<Rightarrow> bool"
  for E :: "('w, 'st, 'ws, 'x) pool_env_scheme" and warm :: "dc_key list" where
  start: "pool_init s \<Longrightarrow> pool_reach E warm ({#}, warm, s)"
| step: "pool_reach E warm c \<Longrightarrow> pool_step E c c' \<Longrightarrow> pool_reach E warm c'"

subsection \<open>At most one refill per bucket\<close>

fun refill_key :: "task \<Rightarrow> dc_key option" where
  "refill_key (Checking k) = Some k"
| "refill_key (Connecting k n) = Some k"
| "refill_key _ = None"

fun cf_refill_key :: "task \<Rightarrow> cf_key option" where
  "cf_refill_key (CfChecking t) = Some (cf_target_key t)"
| "cf_refill_key (CfConnecting t) = Some (cf_target_key t)"
| "cf_refill_key _ = None"

definition refills_on :: "dc_key \<Rightarrow> task multiset \<Rightarrow> nat" where
  "refills_on k ts = size (filter_mset (\<lambda>t. refill_key t = Some k) ts)"

definition cf_refills_on :: "cf_key \<Rightarrow> task multiset \<Rightarrow> nat" where
  "cf_refills_on k ts = size (filter_mset (\<lambda>t. cf_refill_key t = Some k) ts)"

text \<open>A guard set agrees with the number of holders of each key: one for a member, none otherwise.\<close>

definition guarded :: "('k \<Rightarrow> nat) \<Rightarrow> 'k set \<Rightarrow> bool" where
  "guarded n G \<longleftrightarrow> (\<forall>k. n k = (if k \<in> G then 1 else 0))"

lemma guarded_register:
  "guarded n G \<Longrightarrow> k \<notin> G \<Longrightarrow> guarded (\<lambda>j. if k = j then Suc (n j) else n j) (insert k G)"
  unfolding guarded_def by (simp del: split_paired_All)

lemma guarded_release:
  assumes "guarded (\<lambda>j. if k = j then Suc (n j) else n j) G"
  shows "guarded n (G - {k})"
  unfolding guarded_def
proof
  fix j
  have "(if k = j then Suc (n j) else n j) = (if j \<in> G then 1 else 0)"
    using assms unfolding guarded_def by blast
  then show "n j = (if j \<in> G - {k} then 1 else 0)" by (cases "k = j") (simp_all split: if_splits)
qed

lemma guarded_le: "guarded n G \<Longrightarrow> n k \<le> 1"
  unfolding guarded_def by (simp del: split_paired_All)

definition guard_inv :: "('w, 'ws) system \<Rightarrow> bool" where
  "guard_inv c \<longleftrightarrow>
     guarded (\<lambda>k. refills_on k (fst c)) (refilling (snd (snd c))) \<and>
     guarded (\<lambda>k. cf_refills_on k (fst c)) (cf_refilling (snd (snd c)))"

lemma refills_on_add [simp]:
  "refills_on k (add_mset t ts) = (if refill_key t = Some k then Suc (refills_on k ts) else refills_on k ts)"
  "cf_refills_on j (add_mset t ts) =
     (if cf_refill_key t = Some j then Suc (cf_refills_on j ts) else cf_refills_on j ts)"
  by (simp_all add: refills_on_def cf_refills_on_def)

lemma pool_ops_guards:
  "pool_get E dc m ip skip allow s = (r, s') \<Longrightarrow> refilling s' = refilling s \<and> cf_refilling s' = cf_refilling s"
  "cf_get E tier dc m s = (r', s') \<Longrightarrow> refilling s' = refilling s \<and> cf_refilling s' = cf_refilling s"
  by (auto simp: pool_get_def cf_get_def cf_prefetch_def Let_def split: option.splits)

lemma guards_of_updates [simp]:
  "refilling (cf_prefetch t s) = refilling s" "cf_refilling (cf_prefetch t s) = cf_refilling s"
  "refilling (refill_release k s) = refilling s - {k}" "cf_refilling (refill_release k s) = cf_refilling s"
  "refilling (refill_commit E k conns s) = refilling s" "cf_refilling (refill_commit E k conns s) = cf_refilling s"
  "refilling (cf_release j s) = refilling s" "cf_refilling (cf_release j s) = cf_refilling s - {j}"
  "refilling (cf_commit E t ws s) = refilling s" "cf_refilling (cf_commit E t ws s) = cf_refilling s"
  "refilling (warmup_push k conns s) = refilling s" "cf_refilling (warmup_push k conns s) = cf_refilling s"
  "refilling (forget_spawn st s') = refilling s'" "cf_refilling (forget_spawn st s') = cf_refilling s'"
  by (simp_all add: cf_prefetch_def refill_release_def refill_commit_def cf_release_def cf_commit_def
      warmup_push_def forget_spawn_def Let_def)

lemma register_results:
  "refill_register k s = (Some ok, s') \<Longrightarrow> ok = (k \<notin> refilling s) \<and> refilling s' = insert k (refilling s) \<and>
     cf_refilling s' = cf_refilling s \<and> idle s' = idle s \<and> cf_idle s' = cf_idle s"
  "cf_register j s = (Some ok, s') \<Longrightarrow> ok = (j \<notin> cf_refilling s) \<and> cf_refilling s' = insert j (cf_refilling s) \<and>
     refilling s' = refilling s \<and> idle s' = idle s \<and> cf_idle s' = cf_idle s"
  by (auto simp: refill_register_def cf_register_def)

lemma guard_inv_step: "pool_step E c c' \<Longrightarrow> guard_inv c \<Longrightarrow> guard_inv c'"
proof (induction rule: pool_step.induct)
  case (refill_start dc m ip skip s registered s' ts warm)
  then show ?case
    using register_results(1) [OF refill_start(2)] guarded_register
    by (auto simp: guard_inv_def insert_absorb)
next
  case (cf_start t s registered s' ts warm)
  then show ?case
    using register_results(2) [OF cf_start(2)] guarded_register
    by (auto simp: guard_inv_def insert_absorb)
qed (simp_all add: guard_inv_def guarded_release pool_ops_guards)

lemma guard_inv_reach: "pool_reach E warm c \<Longrightarrow> guard_inv c"
proof (induction rule: pool_reach.induct)
  case (start s)
  then show ?case by (simp add: guard_inv_def guarded_def pool_init_def refills_on_def cf_refills_on_def)
qed (rule guard_inv_step)

subsection \<open>Bounded buckets\<close>

lemma pop_fresh_length: "length (fst (snd (pop_fresh E c f now es w))) \<le> length es"
  by (induction es arbitrary: w) (auto simp: Let_def le_SucI)

lemma bucket_of_upd [simp]: "bucket_of (m(k \<mapsto> b)) j = (if j = k then b else bucket_of m j)"
  by (simp add: bucket_of_def)

lemma pool_get_buckets:
  "pool_get E dc m ip skip allow s = (r, s') \<Longrightarrow>
   length (bucket_of (idle s') k) \<le> length (bucket_of (idle s) k) \<and> cf_idle s' = cf_idle s"
  using pop_fresh_length [of E pe_created pe_ws "clock s" "rev (bucket_of (idle s) (dc, m))" "net s"]
  by (auto simp: pool_get_def Let_def)

lemma cf_get_buckets:
  "cf_get E tier dc m s = (r, s') \<Longrightarrow>
   length (bucket_of (cf_idle s') k) \<le> length (bucket_of (cf_idle s) k) \<and> idle s' = idle s"
  using pop_fresh_length [of E ce_created ce_ws "clock s" "rev (bucket_of (cf_idle s) (tier, dc, m))" "net s"]
  by (auto simp: cf_get_def cf_prefetch_def Let_def bucket_of_def split: option.splits if_splits)

definition bucket_cap :: "nat \<Rightarrow> dc_key set \<Rightarrow> dc_key \<Rightarrow> nat" where
  "bucket_cap n warmed k = (if k \<in> warmed then 2 * n else n)"

definition capped :: "('k \<rightharpoonup> 'e list) \<Rightarrow> ('k \<Rightarrow> nat) \<Rightarrow> bool" where
  "capped m cap \<longleftrightarrow> (\<forall>k. length (bucket_of m k) \<le> cap k)"

lemma cappedD: "capped m c \<Longrightarrow> length (bucket_of m k) \<le> c k"
  unfolding capped_def by blast

lemma capped_mono: "capped m c \<Longrightarrow> (\<And>k. length (bucket_of m' k) \<le> length (bucket_of m k)) \<Longrightarrow> capped m' c"
  unfolding capped_def by (meson le_trans)

lemma capped_upd: "capped m c \<Longrightarrow> length b \<le> c k \<Longrightarrow> capped (m(k \<mapsto> b)) c"
  unfolding capped_def by (simp del: split_paired_All)

lemma capped_weaken: "capped m c \<Longrightarrow> (\<And>k. c k \<le> c' k) \<Longrightarrow> capped m c'"
  unfolding capped_def by (meson le_trans)

definition cap_inv :: "('w, 'st, 'ws, 'x) pool_env_scheme \<Rightarrow> dc_key list \<Rightarrow> ('w, 'ws) system \<Rightarrow> bool" where
  "cap_inv E warm0 c \<longleftrightarrow>
     capped (idle (snd (snd c))) (bucket_cap (pool_size E) (set warm0 - set (fst (snd c)))) \<and>
     capped (cf_idle (snd (snd c))) (\<lambda>_. cf_budget E) \<and>
     set (fst (snd c)) \<subseteq> set warm0 \<and> distinct (fst (snd c)) \<and>
     (\<forall>k n. Connecting k n \<in># fst c \<longrightarrow> n \<le> pool_size E)"

lemma buckets_of_updates [simp]:
  "idle (cf_prefetch t s) = idle s" "cf_idle (cf_prefetch t s) = cf_idle s"
  "idle (refill_release k s) = idle s" "cf_idle (refill_release k s) = cf_idle s"
  "idle (cf_release j s) = idle s" "cf_idle (cf_release j s) = cf_idle s"
  "cf_idle (refill_commit E k conns s) = cf_idle s" "idle (cf_commit E t ws s) = idle s"
  "cf_idle (warmup_push k conns s) = cf_idle s"
  "idle (forget_spawn st s') = idle s'" "cf_idle (forget_spawn st s') = cf_idle s'"
  by (simp_all add: cf_prefetch_def refill_release_def refill_commit_def cf_release_def cf_commit_def
      warmup_push_def forget_spawn_def Let_def)

lemma capped_refill_commit:
  assumes "capped (idle s) (bucket_cap (pool_size E) W)"
  shows "capped (idle (refill_commit E k conns s)) (bucket_cap (pool_size E) W)"
proof -
  have b: "length (bucket_of (idle s) k) \<le> bucket_cap (pool_size E) W k" using assms by (rule cappedD)
  have "pool_size E \<le> bucket_cap (pool_size E) W k" by (simp add: bucket_cap_def)
  with b have "length (bucket_of (idle s) k) + (pool_size E - length (bucket_of (idle s) k)) \<le> bucket_cap (pool_size E) W k"
    by linarith
  then show ?thesis
    using assms by (auto simp: refill_commit_def Let_def intro!: capped_upd)
qed

lemma capped_warmup_push:
  assumes "capped (idle s) (bucket_cap n W)" "k \<notin> W" "length conns \<le> n"
  shows "capped (idle (warmup_push k conns s)) (bucket_cap n (insert k W))"
proof -
  have "length (bucket_of (idle s) k) \<le> n" using cappedD [OF assms(1), of k] assms(2) by (simp add: bucket_cap_def)
  moreover have "capped (idle s) (bucket_cap n (insert k W))"
    by (rule capped_weaken [OF assms(1)]) (simp add: bucket_cap_def)
  ultimately show ?thesis
    using assms(3) by (simp add: warmup_push_def capped_upd bucket_cap_def)
qed

lemma capped_cf_commit: "capped (cf_idle s) (\<lambda>_. cf_budget E) \<Longrightarrow> capped (cf_idle (cf_commit E t ws s)) (\<lambda>_. cf_budget E)"
  using cappedD [of "cf_idle s" "\<lambda>_. cf_budget E" "cf_target_key t"]
  by (simp add: cf_commit_def Let_def capped_upd)

lemma cap_inv_step: "pool_step E c c' \<Longrightarrow> cap_inv E warm0 c \<Longrightarrow> cap_inv E warm0 c'"
proof (induction rule: pool_step.induct)
  case (client_get dc m ip skip allow s r s' ts warm)
  then show ?case
    using pool_get_buckets [OF client_get(1)] by (auto simp: cap_inv_def intro: capped_mono)
next
  case (client_cf_get tier dc m s r s' ts warm)
  then show ?case
    using cf_get_buckets [OF client_cf_get(1)] by (auto simp: cap_inv_def intro: capped_mono)
next
  case (refill_start dc m ip skip s registered s' ts warm)
  then show ?case using register_results(1) [OF refill_start(2)] by (auto simp: cap_inv_def)
next
  case (cf_start t s registered s' ts warm)
  then show ?case using register_results(2) [OF cf_start(2)] by (auto simp: cap_inv_def)
next
  case (refill_connect k s n ts warm)
  then show ?case by (auto simp: cap_inv_def refill_needed_def Let_def split: if_splits)
next
  case (warm_push conns ts k warm s)
  then have "set warm0 - set warm = insert k (set warm0 - set (k # warm))" by (auto simp: cap_inv_def)
  with warm_push show ?case
    using capped_warmup_push [of s "pool_size E" "set warm0 - set (k # warm)" k conns] by (auto simp: cap_inv_def)
qed (auto simp: cap_inv_def capped_refill_commit capped_cf_commit)

lemma cap_inv_reach: "pool_reach E warm c \<Longrightarrow> distinct warm \<Longrightarrow> cap_inv E warm c"
proof (induction rule: pool_reach.induct)
  case (start s)
  then show ?case by (simp add: cap_inv_def pool_init_def capped_def bucket_of_def)
next
  case (step c c')
  then show ?case using cap_inv_step by blast
qed


subsection \<open>Properties\<close>

definition in_flight :: "dc_key \<Rightarrow> task multiset \<Rightarrow> nat" where
  "in_flight k ts = sum_mset (image_mset (\<lambda>t. case t of Connecting j n \<Rightarrow> if j = k then n else 0 | _ \<Rightarrow> 0) ts)"

lemma in_flight_le:
  assumes "\<forall>k n. Connecting k n \<in># ts \<longrightarrow> n \<le> p"
  shows "in_flight k ts \<le> refills_on k ts * p"
  using assms
proof (induction ts)
  case (add t ts)
  then have ih: "in_flight k ts \<le> refills_on k ts * p" by auto
  show ?case
  proof (cases t)
    case (Connecting j n)
    with add.prems have "n \<le> p" by (metis union_single_eq_member)
    with ih Connecting show ?thesis by (auto simp: in_flight_def intro: add_mono)
  qed (use ih in \<open>auto simp: in_flight_def\<close>)
qed (simp add: in_flight_def)

text \<open>(C13) In every interleaving of clients, refills and the warm-up, each bucket has at most one
  refill in flight, direct and Cloudflare alike, and the guard sets hold exactly the buckets
  being refilled: no key is leaked, so a bucket can always be refilled again.\<close>

theorem refills_exclusive:
  assumes "pool_reach E warm (ts, w, s)"
  shows "refills_on k ts \<le> 1 \<and> (k \<in> refilling s \<longleftrightarrow> refills_on k ts = 1)
    \<and> cf_refills_on j ts \<le> 1 \<and> (j \<in> cf_refilling s \<longleftrightarrow> cf_refills_on j ts = 1)"
proof -
  have g: "guarded (\<lambda>k. refills_on k ts) (refilling s)" "guarded (\<lambda>k. cf_refills_on k ts) (cf_refilling s)"
    using guard_inv_reach [OF assms] by (simp_all add: guard_inv_def)
  have "refills_on k ts = (if k \<in> refilling s then 1 else 0)" using g(1) unfolding guarded_def by blast
  moreover have "cf_refills_on j ts = (if j \<in> cf_refilling s then 1 else 0)" using g(2) unfolding guarded_def by blast
  ultimately show ?thesis by simp
qed

text \<open>(C11) The pool stays within its descriptor budget in every interleaving. A Cloudflare bucket
  never holds more than one spare, and none with \<open>--pool-size 0\<close>. A bucket that the warm-up does
  not touch never holds more than \<open>pool_size\<close> idle connections, nor more than twice that with
  the ones its refill is opening. Only the warm-up, which does not re-check the bucket, can push it
  past \<open>pool_size\<close>, and never past twice that.\<close>

theorem pool_within_budget:
  assumes "pool_reach E warm (ts, w, s)" and "distinct warm"
  shows "length (bucket_of (cf_idle s) j) \<le> min 1 (pool_size E)
    \<and> length (bucket_of (idle s) k) \<le> (if k \<in> set warm - set w then 2 * pool_size E else pool_size E)
    \<and> (k \<notin> set warm \<longrightarrow> length (bucket_of (idle s) k) + in_flight k ts \<le> 2 * pool_size E)"
proof -
  have c: "capped (idle s) (bucket_cap (pool_size E) (set warm - set w))" "capped (cf_idle s) (\<lambda>_. cf_budget E)"
      "\<forall>k n. Connecting k n \<in># ts \<longrightarrow> n \<le> pool_size E"
    using cap_inv_reach [OF assms] by (simp_all add: cap_inv_def)
  have "guarded (\<lambda>k. refills_on k ts) (refilling s)"
    using guard_inv_reach [OF assms(1)] by (simp add: guard_inv_def)
  then have "refills_on k ts \<le> 1" by (rule guarded_le)
  then have "in_flight k ts \<le> pool_size E"
    using in_flight_le [OF c(3), of k] by (cases "refills_on k ts") auto
  moreover have "length (bucket_of (idle s) k) \<le> (if k \<in> set warm - set w then 2 * pool_size E else pool_size E)"
    using cappedD [OF c(1), of k] by (simp add: bucket_cap_def)
  moreover have "length (bucket_of (cf_idle s) j) \<le> min 1 (pool_size E)"
    using cappedD [OF c(2), of j] by (simp add: cf_budget_def CF_POOL_MAX_def)
  ultimately show ?thesis by auto
qed


definition example_pool :: "(string list, unit, unit) pool_env" where
  "example_pool =
     with_runtime 2 55 (\<lambda>_ w. (False, w)) (runtime_new (refusing (\<lambda>_. ''refused'')))"

definition empty_pool :: "(string list, unit) pool_state" where
  "empty_pool = \<lparr>clock = 0, net = [], fronting_until = None, idle = Map.empty, cf_idle = Map.empty,
     cf_refilling = {}, refilling = {}, spawned = []\<rparr>"

definition busy_pool :: "(string list, unit) pool_state" where
  "busy_pool = empty_pool\<lparr>idle := [(2, False) \<mapsto> []], refilling := {(2, False)}\<rparr>"

lemma busy_pool_reach:
  "pool_reach example_pool [(2, True)] ({# Connecting (2, False) 2 #}, [(2, True)], busy_pool)"
proof -
  let ?k = "(2, False) :: dc_key" and ?st = "SpawnRefill 2 False ''1.2.3.4'' False"
  let ?s1 = "empty_pool\<lparr>idle := [?k \<mapsto> []], spawned := [?st]\<rparr>"
  have p: "pool_size example_pool = 2" by (simp add: example_pool_def with_runtime_def rt_env.extend_def pool_env.fields_def)
  have "pool_reach example_pool [(2, True)] ({#}, [(2, True)], empty_pool)"
    by (rule pool_reach.start) (simp add: pool_init_def empty_pool_def)
  moreover have "pool_step example_pool ({#}, [(2, True)], empty_pool) ({#}, [(2, True)], ?s1)"
    by (rule pool_step.client_get [where dc = 2 and m = False and ip = "''1.2.3.4''" and skip = False and allow = True])
       (simp add: pool_get_def empty_pool_def bucket_of_def)
  moreover have "pool_step example_pool ({#}, [(2, True)], ?s1)
      (if True then add_mset (Checking ?k) {#} else {#}, [(2, True)], busy_pool)"
    by (rule pool_step.refill_start [where ip = "''1.2.3.4''" and skip = False])
       (simp_all add: refill_register_def forget_spawn_def empty_pool_def busy_pool_def)
  moreover have "pool_step example_pool (add_mset (Checking ?k) {#}, [(2, True)], busy_pool)
      (add_mset (Connecting ?k 2) {#}, [(2, True)], busy_pool)"
    by (rule pool_step.refill_connect) (simp add: refill_needed_def busy_pool_def bucket_of_def p)
  ultimately show ?thesis by (simp add: pool_reach.step) (meson pool_reach.step)
qed

theorem refills_exclusive_witness:
  "refills_on (2, False) {# Connecting (2, False) 2 #} \<le> 1 \<and> (2, False) \<in> refilling busy_pool"
  using refills_exclusive [OF busy_pool_reach, of "(2, False)"] by (simp add: busy_pool_def)

theorem pool_within_budget_witness:
  "length (bucket_of (idle busy_pool) (2, False)) + in_flight (2, False) {# Connecting (2, False) 2 #} \<le> 4"
proof -
  have "pool_size example_pool = 2" by (simp add: example_pool_def with_runtime_def rt_env.extend_def pool_env.fields_def)
  then show ?thesis
    using pool_within_budget [OF busy_pool_reach, of "(Worker, 2, False)" "(2, False)"] by simp
qed


lemma pop_fresh_Some:
  "pop_fresh E created ws now es w = (Some e, rest, w') \<Longrightarrow>
   \<exists>pre w0. es = pre @ e # rest \<and> now - created e \<le> max_age E \<and> poll_op E (ws e) w0 = (False, w')"
proof (induction es arbitrary: w)
  case (Cons x es)
  obtain b w1 where p: "poll_op E (ws x) w = (b, w1)" by (rule prod.exhaust)
  show ?case
  proof (cases "max_age E < now - created x \<or> b")
    case True
    then obtain w2 where "pop_fresh E created ws now es w2 = (Some e, rest, w')"
      using Cons.prems p by (auto simp: Let_def split: if_splits)
    from Cons.IH [OF this] obtain pre w0 where "es = pre @ e # rest \<and> now - created e \<le> max_age E \<and> poll_op E (ws e) w0 = (False, w')"
      by blast
    then have "x # es = (x # pre) @ e # rest \<and> now - created e \<le> max_age E \<and> poll_op E (ws e) w0 = (False, w')" by simp
    then show ?thesis by blast
  next
    case False
    with Cons.prems p show ?thesis
      by (intro exI [of _ "[]"] exI [of _ w]) (auto simp: Let_def not_less)
  qed
qed simp

lemma pop_fresh_None: "pop_fresh E created ws now es w = (None, rest, w') \<Longrightarrow> rest = []"
  by (induction es arbitrary: w) (auto simp: Let_def split: if_splits)

text \<open>(C22) What a pool hit hands out: the connection comes from the data centre's own bucket, is no
  older than the maximum age and was silent when polled, everything newer was discarded and
  everything older is kept; a miss leaves the bucket empty. A refill is scheduled exactly when
  the caller allows one, hit or miss.\<close>

theorem pool_get_fresh:
  assumes "pool_get E dc is_media ip skip allow s = (Some r, s')"
  shows "spawned s' = spawned s @ (if allow then [SpawnRefill dc is_media ip skip] else [])
    \<and> (case r of
         None \<Rightarrow> bucket_of (idle s') (dc, is_media) = []
       | Some ws \<Rightarrow> (\<exists>e newer w0. bucket_of (idle s) (dc, is_media) = bucket_of (idle s') (dc, is_media) @ e # newer
           \<and> pe_ws e = ws \<and> clock s - pe_created e \<le> max_age E \<and> poll_op E ws w0 = (False, net s')))"
proof -
  let ?b = "bucket_of (idle s) (dc, is_media)"
  obtain e rest w' where p: "pop_fresh E pe_created pe_ws (clock s) (rev ?b) (net s) = (e, rest, w')"
    by (rule prod_cases3)
  have s': "r = map_option pe_ws e" "net s' = w'" "bucket_of (idle s') (dc, is_media) = rev rest"
      "spawned s' = spawned s @ (if allow then [SpawnRefill dc is_media ip skip] else [])"
    using assms p by (auto simp: pool_get_def)
  show ?thesis
  proof (cases e)
    case None
    with p s' show ?thesis by (auto dest: pop_fresh_None)
  next
    case (Some x)
    obtain pre w0 where x: "rev ?b = pre @ x # rest" "clock s - pe_created x \<le> max_age E"
        "poll_op E (pe_ws x) w0 = (False, w')"
      using pop_fresh_Some [OF p [unfolded Some]] by blast
    from x(1) have "?b = rev rest @ x # rev pre" by (metis append.assoc append_Cons append_Nil rev.simps(2) rev_append rev_rev_ident)
    with Some s' x show ?thesis by auto
  qed
qed

definition stocked_pool :: "(string list, unit) pool_state" where
  "stocked_pool = empty_pool\<lparr>clock := 100, idle := [(2, False) \<mapsto>
     [\<lparr>pe_ws = (), pe_created = 10\<rparr>, \<lparr>pe_ws = (), pe_created = 60\<rparr>]]\<rparr>"

theorem pool_get_fresh_witness:
  "\<exists>s'. pool_get example_pool 2 False ''1.2.3.4'' False True stocked_pool = (Some (Some ()), s')
     \<and> spawned s' = [SpawnRefill 2 False ''1.2.3.4'' False]"
proof -
  obtain s' where g: "pool_get example_pool 2 False ''1.2.3.4'' False True stocked_pool = (Some (Some ()), s')"
    by (simp add: pool_get_def stocked_pool_def empty_pool_def example_pool_def with_runtime_def rt_env.extend_def
        pool_env.fields_def bucket_of_def)
  have "spawned stocked_pool = []" by (simp add: stocked_pool_def empty_pool_def)
  with pool_get_fresh [OF g] g show ?thesis by auto
qed


end
