(* ===== verification/Cooldown.thy ===== *)
theory Cooldown
  imports Prelude
begin

text \<open>
  The failure cooldowns and the round-robin rotation of \<open>rust/src/proxy.rs\<close>. A cooldown map holds a
  deadline per key; its hash map is created by the first failure. Times are clock ticks.
\<close>

section \<open>Cooldown maps\<close>

type_synonym 'k cooldown_map = "('k \<rightharpoonup> nat) option"

definition cooldown_new :: "'k cooldown_map" where
  "cooldown_new = None"

definition cooldown_set :: "nat \<Rightarrow> 'k \<Rightarrow> nat \<Rightarrow> 'k cooldown_map \<Rightarrow> 'k cooldown_map" where
  "cooldown_set now key cooldown m =
     Some ((case m of Some entries \<Rightarrow> entries | None \<Rightarrow> Map.empty)(key \<mapsto> now + cooldown))"

definition cooldown_clear :: "'k \<Rightarrow> 'k cooldown_map \<Rightarrow> 'k cooldown_map" where
  "cooldown_clear key m = (case m of Some entries \<Rightarrow> Some (entries(key := None)) | None \<Rightarrow> None)"

definition cooldown_active :: "nat \<Rightarrow> 'k \<Rightarrow> 'k cooldown_map \<Rightarrow> bool" where
  "cooldown_active now key m =
     (case (case m of Some entries \<Rightarrow> entries key | None \<Rightarrow> None) of
        Some until \<Rightarrow> now < until
      | None \<Rightarrow> False)"

text \<open>A history of failures (time, key, cooldown) and successes, its effect on a map, and the last
  event of a key: the time and cooldown of a failure, nothing after a success.\<close>

type_synonym 'k event = "(nat \<times> 'k \<times> nat) + 'k"

fun apply_event :: "(nat \<Rightarrow> 'k \<Rightarrow> nat \<Rightarrow> 'm \<Rightarrow> 'm) \<Rightarrow> ('k \<Rightarrow> 'm \<Rightarrow> 'm) \<Rightarrow> 'k event \<Rightarrow> 'm \<Rightarrow> 'm" where
  "apply_event fail ok (Inl (t, k, d)) m = fail t k d m"
| "apply_event fail ok (Inr k) m = ok k m"

fun last_event :: "'k \<Rightarrow> 'k event list \<Rightarrow> (nat \<times> nat) option" where
  "last_event k [] = None"
| "last_event k (e # es) =
     (case e of
        Inl (t, k', d) \<Rightarrow> if k' = k then Some (t, d) else last_event k es
      | Inr k' \<Rightarrow> if k' = k then None else last_event k es)"

text \<open>
  What the routing code relies on: a failure blocks its key for the cooldown and nothing longer, and
  leaves the other keys alone; a success unblocks its key; a block is only ever lifted by time
  or by a success on the same key.
\<close>

locale backoff =
  fixes new :: 'm
    and fail :: "nat \<Rightarrow> 'k \<Rightarrow> nat \<Rightarrow> 'm \<Rightarrow> 'm"
    and ok :: "'k \<Rightarrow> 'm \<Rightarrow> 'm"
    and blocked :: "nat \<Rightarrow> 'k \<Rightarrow> 'm \<Rightarrow> bool"
  assumes blocked_new: "\<not> blocked t k new"
    and blocked_fail: "blocked t k (fail t0 k' d m) = (if k = k' then t < t0 + d else blocked t k m)"
    and blocked_ok: "blocked t k (ok k' m) = (k \<noteq> k' \<and> blocked t k m)"
    and blocked_expires: "blocked t k m \<Longrightarrow> t' \<le> t \<Longrightarrow> blocked t' k m"
begin

lemma blocked_history:
  "blocked t k (fold (apply_event fail ok) es new) =
     (case last_event k (rev es) of Some (t0, d) \<Rightarrow> t < t0 + d | None \<Rightarrow> False)"
proof (induction es rule: rev_induct)
  case Nil
  then show ?case by (simp add: blocked_new)
next
  case (snoc e es)
  then show ?case by (cases e) (auto simp: blocked_fail blocked_ok split: option.splits if_splits)
qed

lemma recovers: "\<exists>t0. \<forall>t \<ge> t0. \<not> blocked t k (fold (apply_event fail ok) es new)"
proof (cases "last_event k (rev es)")
  case (Some p)
  then show ?thesis
    by (intro exI [of _ "fst p + snd p"]) (auto simp: blocked_history split: prod.splits)
qed (simp add: blocked_history)

end

interpretation cooldowns: backoff cooldown_new cooldown_set cooldown_clear cooldown_active
  by unfold_locales
     (auto simp: cooldown_new_def cooldown_set_def cooldown_clear_def cooldown_active_def split: option.splits)

section \<open>Round-robin order\<close>

text \<open>The counter is a \<open>usize\<close>, a word of the target's width that wraps; a list of at most one domain leaves it alone.\<close>

definition balanced :: "string list \<Rightarrow> 'u::len word \<Rightarrow> string list \<times> 'u word" where
  "balanced domains counter =
     (let n = length domains in
      if n \<le> 1 then (domains, counter)
      else
        let idx = unat counter mod n in
        (map (\<lambda>i. domains ! ((idx + i) mod n)) [0..<n], counter + 1))"

definition balance_order :: "string list \<Rightarrow> bool \<Rightarrow> 'u::len word \<Rightarrow> string list \<times> 'u word" where
  "balance_order domains enabled counter = (if enabled then balanced domains counter else (domains, counter))"

lemma map_rotate: "n = length xs \<Longrightarrow> map (\<lambda>i. xs ! ((k + i) mod n)) [0..<n] = rotate k xs"
  by (rule nth_equalityI) (auto simp: nth_rotate)

lemma balanced_rotate: "fst (balanced domains c) = rotate (unat c) domains"
proof (cases "length domains \<le> 1")
  case True
  then have "rotate (unat c) domains = domains"
    by (cases domains) (auto simp: rotate_length01)
  with True show ?thesis by (simp add: balanced_def Let_def)
next
  case False
  then show ?thesis
    using map_rotate [OF refl, of domains "unat c mod length domains"]
    by (simp add: balanced_def Let_def rotate_conv_mod [of "unat c"])
qed

lemma length_balance_order [simp]: "length (fst (balance_order ds b c)) = length ds"
  by (simp add: balance_order_def balanced_rotate)

lemma set_balance_order [simp]: "set (fst (balance_order ds b c)) = set ds"
  by (simp add: balance_order_def balanced_rotate)

text \<open>The orders \<open>k\<close> connections in a row get: each leaves the counter to the next.\<close>

fun orders :: "nat \<Rightarrow> string list \<Rightarrow> bool \<Rightarrow> 'u::len word \<Rightarrow> string list list \<times> 'u word" where
  "orders 0 domains enabled c = ([], c)"
| "orders (Suc k) domains enabled c =
     (let r = balance_order domains enabled c; rest = orders k domains enabled (snd r)
      in (fst r # fst rest, snd rest))"

lemma balanced_counter: "1 < length domains \<Longrightarrow> snd (balanced domains c) = c + 1"
  by (simp add: balanced_def Let_def)

lemma orders_balanced:
  assumes "1 < length domains"
  shows "orders k domains True c = (map (\<lambda>i. rotate (unat (c + of_nat i)) domains) [0..<k], c + of_nat k)"
proof (induction k arbitrary: c)
  case (Suc k)
  have "map (\<lambda>i. rotate (unat (c + of_nat i)) domains) [0..<Suc k]
      = rotate (unat c) domains # map (\<lambda>i. rotate (unat (c + 1 + of_nat i)) domains) [0..<k]"
    by (simp add: upt_conv_Cons map_Suc_upt [symmetric] add.assoc del: upt_Suc)
  then show ?case
    using Suc [of "c + 1"] assms by (simp add: balance_order_def balanced_rotate balanced_counter Let_def add.assoc)
qed simp

lemma orders_fixed: "orders k domains False c = (replicate k domains, c)"
  by (induction k) (simp_all add: balance_order_def Let_def)

text \<open>(C36) Balancing serves the domains evenly. Let any number of connections draw their order one after the other, each
  from the counter the one before left. With balancing on, every connection gets the configured list rotated by its counter value,
  through the wrap of the counter too, so no order loses or repeats a domain; and in any \<open>n\<close> consecutive connections
  that do not cross the wrap each of the \<open>n\<close> domains comes first exactly once. With balancing off everyone gets the configured order
  and the counter stays.\<close>

theorem balanced_fair:
  fixes c :: "'u::len word"
  assumes "1 < length domains"
  shows "orders k domains True c = (map (\<lambda>i. rotate ((unat c + i) mod 2 ^ LENGTH('u)) domains) [0..<k], c + of_nat k)
    \<and> (unat c + length domains \<le> 2 ^ LENGTH('u) \<longrightarrow>
         map hd (fst (orders (length domains) domains True c)) = rotate (unat c) domains)
    \<and> orders k domains False c = (replicate k domains, c)"
proof -
  let ?n = "length domains" and ?N = "2 ^ LENGTH('u) :: nat"
  have u: "unat (c + of_nat i) = (unat c + i) mod ?N" for i
    by (simp add: unat_word_ariths unsigned_of_nat take_bit_eq_mod mod_add_right_eq)
  then have o: "orders j domains True c = (map (\<lambda>i. rotate ((unat c + i) mod ?N) domains) [0..<j], c + of_nat j)" for j
    by (simp add: orders_balanced [OF assms])
  have "map hd (fst (orders ?n domains True c)) = rotate (unat c) domains" if "unat c + ?n \<le> ?N"
  proof -
    have "domains \<noteq> []" using assms by auto
    then have "map hd (fst (orders ?n domains True c)) = map (\<lambda>i. domains ! ((unat c + i) mod ?n)) [0..<?n]"
      using that by (simp add: o hd_rotate_conv_nth)
    then show ?thesis by (simp add: map_rotate)
  qed
  then show ?thesis using o orders_fixed by blast
qed

text \<open>Four connections over three domains, through the wrap of a 2-bit counter, and three that do not reach it.\<close>

theorem balanced_fair_witness:
  "map hd (fst (orders 4 [''a'', ''b'', ''c''] True (2 :: 2 word))) = [''c'', ''a'', ''a'', ''b'']
    \<and> snd (orders 4 [''a'', ''b'', ''c''] True (2 :: 2 word)) = 2
    \<and> map hd (fst (orders (length [''a'', ''b'', ''c'']) [''a'', ''b'', ''c''] True (1 :: 2 word))) = [''b'', ''c'', ''a'']"
proof -
  let ?ds = "[''a'', ''b'', ''c'']"
  have l: "1 < length ?ds" by simp
  have four: "orders 4 ?ds True (2 :: 2 word)
      = (map (\<lambda>i. rotate ((unat (2 :: 2 word) + i) mod 2 ^ LENGTH(2)) ?ds) [0..<4], 2 + of_nat 4)"
    using balanced_fair [OF l, of 4 "2 :: 2 word"] by (rule conjunct1)
  have "map hd (map (\<lambda>i. rotate ((unat (2 :: 2 word) + i) mod 2 ^ LENGTH(2)) ?ds) [0..<4]) = [''c'', ''a'', ''a'', ''b'']"
    "2 + of_nat 4 = (2 :: 2 word)" "unat (1 :: 2 word) + length ?ds \<le> 2 ^ LENGTH(2)" "rotate (unat (1 :: 2 word)) ?ds = [''b'', ''c'', ''a'']"
    by code_simp+
  moreover have "map hd (fst (orders (length ?ds) ?ds True (1 :: 2 word))) = rotate (unat (1 :: 2 word)) ?ds"
    using balanced_fair [OF l, of 4 "1 :: 2 word"] calculation(3) by blast
  ultimately show ?thesis unfolding four fst_conv snd_conv by simp
qed

text \<open>(C35) Cooldowns never become a blacklist: after any history of failures and successes, a key
  is blocked exactly while the deadline of its last failure has not passed, if no success came
  after it; keys do not affect each other, and every key is free again from some time on.\<close>

theorem cooldown_history:
  "cooldown_active t k (fold (apply_event cooldown_set cooldown_clear) es cooldown_new) =
     (case last_event k (rev es) of Some (t0, d) \<Rightarrow> t < t0 + d | None \<Rightarrow> False)
   \<and> (\<exists>t0. \<forall>u. \<not> cooldown_active (t0 + u) k (fold (apply_event cooldown_set cooldown_clear) es cooldown_new))"
proof -
  obtain t0 where "\<forall>t \<ge> t0. \<not> cooldown_active t k (fold (apply_event cooldown_set cooldown_clear) es cooldown_new)"
    using cooldowns.recovers [of k es] by blast
  then have "\<forall>u. \<not> cooldown_active (t0 + u) k (fold (apply_event cooldown_set cooldown_clear) es cooldown_new)" by simp
  then show ?thesis using cooldowns.blocked_history [of t k es] by (intro conjI exI)
qed

end
