(* ===== verification/Faketls.thy ===== *)
theory Faketls
  imports Crypto Rust_Io
begin

text \<open>
  The FakeTLS disguise (\<open>rust/src/faketls.rs\<close>): building and signing the ClientHello sent
  to an upstream proxy, validating an inbound ClientHello, answering it with a ServerHello
  packet, draining an upstream's ServerHello, and the Application Data records of the data
  phase.

  A reader is the list of bytes the peer delivers before the stream ends; every failed
  \<open>read_exact\<close> leaves it empty. A writer is the record of \<open>Rust_Io\<close>.
\<close>

section \<open>Constants and types\<close>

definition TLS_RECORD_HANDSHAKE :: byte where [layout_simps]: "TLS_RECORD_HANDSHAKE = 0x16"
definition TLS_RECORD_CHANGE_CIPHER_SPEC :: byte where
  [layout_simps]: "TLS_RECORD_CHANGE_CIPHER_SPEC = 0x14"
definition TLS_RECORD_APPLICATION_DATA :: byte where
  [layout_simps]: "TLS_RECORD_APPLICATION_DATA = 0x17"
definition TLS_RECORD_ALERT :: byte where [layout_simps]: "TLS_RECORD_ALERT = 0x15"

definition TLS_VERSION_12 :: bytes where [layout_simps]: "TLS_VERSION_12 = [0x03, 0x03]"
definition TLS_RECORD_VERSION :: bytes where [layout_simps]: "TLS_RECORD_VERSION = [0x03, 0x01]"

definition TLS_MAX_RECORD_PAYLOAD :: nat where [layout_simps]: "TLS_MAX_RECORD_PAYLOAD = 16384"
definition TLS_MAX_APPDATA_WRITE :: nat where
  [layout_simps]: "TLS_MAX_APPDATA_WRITE = TLS_MAX_RECORD_PAYLOAD"
definition TLS_MAX_HANDSHAKE_RECORDS :: nat where [layout_simps]: "TLS_MAX_HANDSHAKE_RECORDS = 20"

definition TLS_DIGEST_POS :: nat where [layout_simps]: "TLS_DIGEST_POS = 11"
definition TLS_DIGEST_LEN :: nat where [layout_simps]: "TLS_DIGEST_LEN = 32"
definition TLS_HANDSHAKE_CLIENT_HELLO :: byte where [layout_simps]: "TLS_HANDSHAKE_CLIENT_HELLO = 0x01"
definition TLS_HANDSHAKE_SERVER_HELLO :: byte where [layout_simps]: "TLS_HANDSHAKE_SERVER_HELLO = 0x02"
definition TLS_CLIENT_RANDOM_OFFSET_IN_HANDSHAKE :: nat where
  [layout_simps]: "TLS_CLIENT_RANDOM_OFFSET_IN_HANDSHAKE = 6"
definition TLS_SERVER_RANDOM_OFFSET_IN_PACKET :: nat where
  [layout_simps]: "TLS_SERVER_RANDOM_OFFSET_IN_PACKET = 11"
definition TLS_CHANGE_CIPHER_SPEC_VALUE :: byte where [layout_simps]: "TLS_CHANGE_CIPHER_SPEC_VALUE = 0x01"

record fake_tls_client_hello =
  fh_random :: bytes
  fh_session_id :: bytes
  fh_cipher_suite :: bytes
  fh_hostname :: "string option"

section \<open>ClientHello construction\<close>

text \<open>The SNI extension, whose lengths are \<open>u16\<close> sums of a truncated host length.\<close>

definition sni_extension :: "bytes \<Rightarrow> bytes" where
  "sni_extension host_b =
     (let host_len = of_nat (length host_b) :: u16;
          sni_entry_len = 1 + 2 + host_len;
          sni_list_len = sni_entry_len;
          sni_data_len = 2 + sni_list_len
      in u16_to_be 0x0000 @ u16_to_be sni_data_len @ u16_to_be sni_list_len @ [0x00]
         @ u16_to_be host_len @ host_b)"

definition fixed_extensions :: bytes where
  "fixed_extensions =
     [0x00, 0x17, 0x00, 0x00]
     @ [0xff, 0x01, 0x00, 0x01, 0x00]
     @ [0x00, 0x0a, 0x00, 0x0a, 0x00, 0x08,
        0x00, 0x1d, 0x00, 0x17, 0x00, 0x18, 0x00, 0x19]
     @ [0x00, 0x0b, 0x00, 0x02, 0x01, 0x00]
     @ [0x00, 0x23, 0x00, 0x00]
     @ [0x00, 0x0d, 0x00, 0x14, 0x00, 0x12,
        0x04, 0x03, 0x08, 0x04, 0x04, 0x01,
        0x05, 0x03, 0x08, 0x05, 0x05, 0x01,
        0x08, 0x06, 0x06, 0x01, 0x02, 0x01]"

definition client_cipher_suites :: bytes where
  "client_cipher_suites =
     [0x13, 0x01, 0x13, 0x02, 0x13, 0x03, 0xc0, 0x2b, 0xc0, 0x2f, 0xc0, 0x2c, 0xc0, 0x30,
      0xcc, 0xa9, 0xcc, 0xa8, 0xc0, 0x13, 0xc0, 0x14, 0x00, 0x9c, 0x00, 0x9d, 0x00, 0x2f,
      0x00, 0x35, 0x00, 0x0a]"

definition client_hello_record :: "bytes \<Rightarrow> bytes \<Rightarrow> bytes" where
  "client_hello_record host_b session_id =
     (let exts = sni_extension host_b @ fixed_extensions;
          hello = TLS_VERSION_12 @ replicate 32 0 @ [0x20] @ session_id
            @ u16_to_be (of_nat (length client_cipher_suites)) @ client_cipher_suites
            @ [0x01] @ [0x00] @ u16_to_be (of_nat (length exts)) @ exts;
          hello_len = of_nat (length hello) :: u32;
          handshake = [0x01] @ [ucast (drop_bit 16 hello_len)] @ [ucast (drop_bit 8 hello_len)]
            @ [ucast hello_len] @ hello
      in [TLS_RECORD_HANDSHAKE] @ TLS_RECORD_VERSION @ u16_to_be (of_nat (length handshake))
         @ handshake)"

definition build_faketls_client_hello :: "string \<Rightarrow> bytes \<Rightarrow> (bytes \<times> bytes) run" where
  "build_faketls_client_hello hostname rng =
     run_bind (fill_bytes 32 rng) (\<lambda>r.
       Done (client_hello_record (as_bytes hostname) (fst r), snd r))"

text \<open>Signing fills the \<open>random\<close> field; a record too short to hold one panics. The Unix time
  in seconds, cut to 32 bits, is an argument.\<close>

definition sign_faketls_client_hello :: "prims \<Rightarrow> u32 \<Rightarrow> bytes \<Rightarrow> bytes \<Rightarrow> bytes run" where
  "sign_faketls_client_hello P timestamp record0 secret =
     (if length record0 < TLS_DIGEST_POS + TLS_DIGEST_LEN then Panic
      else
        let record1 = overwrite TLS_DIGEST_POS (replicate TLS_DIGEST_LEN 0) record0;
            computed = hmac_sha256 P secret record1;
            record2 = overwrite TLS_DIGEST_POS (take 28 computed) record1;
            ts_bytes = u32_to_le timestamp
        in Done (write_loop (TLS_DIGEST_POS + 28) 4
             (\<lambda>i. computed ! (28 + i) XOR ts_bytes ! i) record2))"

section \<open>Validating an inbound ClientHello\<close>

function parse_sni_extension :: "bytes \<Rightarrow> string option" where
  "parse_sni_extension extensions =
     (if length extensions < 4 then None
      else
        let ext_type = u16_from_be (extensions ! 0) (extensions ! 1);
            ext_len = unat (u16_from_be (extensions ! 2) (extensions ! 3));
            rest = drop 4 extensions
        in if length rest < ext_len then None
           else
             let ext = take ext_len rest; rest' = drop ext_len rest in
             if ext_type \<noteq> 0x0000 \<or> length ext < 5 then parse_sni_extension rest'
             else
               let list_len = unat (u16_from_be (ext ! 0) (ext ! 1)) in
               if length ext < 2 + list_len \<or> list_len < 3 \<or> ext ! 2 \<noteq> 0 then None
               else
                 let host_len = unat (u16_from_be (ext ! 3) (ext ! 4)) in
                 if length ext < 5 + host_len then None
                 else from_utf8 (subrange 5 (5 + host_len) ext))"
  by pat_completeness auto
termination
  by (relation "measure length") auto

declare parse_sni_extension.simps [simp del]

text \<open>The fields after the authenticated \<open>random\<close>, parsed from the ClientHello body.\<close>

definition parse_hello_body :: "bytes \<Rightarrow> bytes \<Rightarrow> fake_tls_client_hello option" where
  "parse_hello_body client_random body =
     (if length body < 2 + 32 + 1 then None
      else
        let session_id_len = unat (body ! 34);
            session_start = 35;
            session_end = session_start + session_id_len
        in if length body < session_end + 2 then None
           else
             let session_id = subrange session_start session_end body;
                 cipher_suites_len = unat (u16_from_be (body ! session_end) (body ! (session_end + 1)))
             in if cipher_suites_len < 2 \<or> length body < session_end + 2 + cipher_suites_len + 1 then None
                else
                  let cipher_suite = [body ! (session_end + 2), body ! (session_end + 3)];
                      p = session_end + 2 + cipher_suites_len
                  in if length body \<le> p then None
                     else
                       let compression_len = unat (body ! p);
                           p = p + 1 + compression_len
                       in if length body < p + 2 then None
                          else
                            let extensions_len = unat (u16_from_be (body ! p) (body ! (p + 1)));
                                p = p + 2
                            in if length body < p + extensions_len then None
                               else Some \<lparr>fh_random = client_random, fh_session_id = session_id,
                                 fh_cipher_suite = cipher_suite,
                                 fh_hostname = parse_sni_extension (subrange p (p + extensions_len) body)\<rparr>)"

definition parse_faketls_client_hello :: "prims \<Rightarrow> bytes \<Rightarrow> bytes \<Rightarrow> fake_tls_client_hello option" where
  "parse_faketls_client_hello P rec secret =
     (if length rec < 5 + 4 + TLS_CLIENT_RANDOM_OFFSET_IN_HANDSHAKE + TLS_DIGEST_LEN then None
      else if rec ! 0 \<noteq> TLS_RECORD_HANDSHAKE then None
      else
        let record_len = unat (u16_from_be (rec ! 3) (rec ! 4)) in
        if length rec \<noteq> 5 + record_len then None
        else
          let handshake = drop 5 rec in
          if length handshake < 4 \<or> handshake ! 0 \<noteq> TLS_HANDSHAKE_CLIENT_HELLO then None
          else
            let handshake_len =
                  push_bit 16 (unat (handshake ! 1)) OR push_bit 8 (unat (handshake ! 2))
                  OR unat (handshake ! 3)
            in if length handshake \<noteq> 4 + handshake_len then None
               else
                 let random_offset = 5 + TLS_CLIENT_RANDOM_OFFSET_IN_HANDSHAKE;
                     client_random = subrange random_offset (random_offset + TLS_DIGEST_LEN) rec;
                     signed = overwrite random_offset (replicate TLS_DIGEST_LEN 0) rec;
                     computed = hmac_sha256 P secret signed;
                     xored = map (\<lambda>i. computed ! i XOR client_random ! i) [0..<TLS_DIGEST_LEN]
                 in if list_ex (\<lambda>b. b \<noteq> 0) (take 28 xored) then None
                    else parse_hello_body client_random (drop 4 handshake))"

section \<open>The answering ServerHello\<close>

definition push_tls_record :: "bytes \<Rightarrow> byte \<Rightarrow> bytes \<Rightarrow> bytes" where
  "push_tls_record out record_type payload =
     out @ [record_type] @ TLS_VERSION_12 @ u16_to_be (of_nat (length payload)) @ payload"

definition server_hello_body :: "fake_tls_client_hello \<Rightarrow> bytes \<Rightarrow> bytes" where
  "server_hello_body hello key_share =
     TLS_VERSION_12 @ replicate TLS_DIGEST_LEN 0 @ [of_nat (length (fh_session_id hello))]
     @ fh_session_id hello @ fh_cipher_suite hello
     @ [0x00, 0x00, 0x2e, 0x00, 0x2b, 0x00, 0x02, 0x03, 0x04, 0x00, 0x33, 0x00, 0x24, 0x00, 0x1d,
        0x00, 0x20]
     @ key_share"

definition server_hello_packet :: "fake_tls_client_hello \<Rightarrow> bytes \<Rightarrow> bytes \<Rightarrow> bytes" where
  "server_hello_packet hello key_share cert =
     (let server_body = server_hello_body hello key_share;
          n = length server_body;
          handshake = [TLS_HANDSHAKE_SERVER_HELLO] @ [of_nat (n div 65536 mod 256)]
            @ [of_nat (n div 256 mod 256)] @ [of_nat (n mod 256)] @ server_body;
          packet = push_tls_record [] TLS_RECORD_HANDSHAKE handshake;
          packet = push_tls_record packet TLS_RECORD_CHANGE_CIPHER_SPEC [TLS_CHANGE_CIPHER_SPEC_VALUE]
      in push_tls_record packet TLS_RECORD_APPLICATION_DATA cert)"

definition build_faketls_server_hello ::
  "prims \<Rightarrow> bytes \<Rightarrow> fake_tls_client_hello \<Rightarrow> bytes \<Rightarrow> (bytes \<times> bytes) run" where
  "build_faketls_server_hello P secret hello rng =
     run_bind (fill_bytes 32 rng) (\<lambda>ks.
     run_bind (fill_bytes 4 (snd ks)) (\<lambda>u.
     let next_u32 = u32_from_le (fst u ! 0) (fst u ! 1) (fst u ! 2) (fst u ! 3) in
     run_bind (fill_bytes (1024 + unat next_u32 mod 3092) (snd u)) (\<lambda>cert.
     let packet = server_hello_packet hello (fst ks) (fst cert);
         digest = hmac_sha256 P secret (fh_random hello @ packet)
     in Done (overwrite TLS_SERVER_RANDOM_OFFSET_IN_PACKET digest packet, snd cert))))"

section \<open>Reading records\<close>

datatype record_read = NoRecord | RecordIoError | TlsRecord byte bytes bytes

definition read_tls_record :: "nat \<Rightarrow> bytes \<Rightarrow> record_read \<times> bytes" where
  "read_tls_record max_payload_len reader =
     (case read_exact 5 reader of
        None \<Rightarrow> (NoRecord, [])
      | Some (header, reader) \<Rightarrow>
          let payload_len = unat (u16_from_be (header ! 3) (header ! 4)) in
          if max_payload_len < payload_len then (NoRecord, reader)
          else
            case read_exact payload_len reader of
              None \<Rightarrow> (RecordIoError, [])
            | Some (payload, reader) \<Rightarrow> (TlsRecord (header ! 0) [header ! 1, header ! 2] payload, reader))"

fun drain_loop :: "nat \<Rightarrow> bytes \<Rightarrow> bool \<times> bytes" where
  "drain_loop 0 reader = (False, reader)"
| "drain_loop (Suc n) reader =
     (case read_exact 5 reader of
        None \<Rightarrow> (False, [])
      | Some (header, reader) \<Rightarrow>
          let record_type = header ! 0;
              version = [header ! 1, header ! 2];
              payload_len = unat (u16_from_be (header ! 3) (header ! 4))
          in if version \<noteq> TLS_VERSION_12 then (False, reader)
             else if TLS_MAX_RECORD_PAYLOAD + 256 < payload_len then (False, reader)
             else
               case read_exact payload_len reader of
                 None \<Rightarrow> (False, [])
               | Some (payload, reader) \<Rightarrow>
                   if record_type = TLS_RECORD_HANDSHAKE \<or> record_type = TLS_RECORD_CHANGE_CIPHER_SPEC
                   then drain_loop n reader
                   else if record_type = TLS_RECORD_APPLICATION_DATA then (True, reader)
                   else (False, reader))"

definition drain_faketls_server_hello :: "bytes \<Rightarrow> bool \<times> bytes" where
  "drain_faketls_server_hello reader = drain_loop TLS_MAX_HANDSHAKE_RECORDS reader"

section \<open>Application Data records\<close>

definition appdata_header :: "nat \<Rightarrow> bytes" where
  "appdata_header len =
     [TLS_RECORD_APPLICATION_DATA, TLS_VERSION_12 ! 0, TLS_VERSION_12 ! 1,
      of_nat (len div 256), of_nat len]"

function write_appdata_loop :: "writer \<Rightarrow> bytes \<Rightarrow> nat \<Rightarrow> writer option" where
  "write_appdata_loop writer data offset =
     (if offset < length data then
        let stop = min (offset + TLS_MAX_APPDATA_WRITE) (length data);
            chunk = subrange offset stop data
        in case write_all writer (appdata_header (length chunk)) of
             None \<Rightarrow> None
           | Some writer \<Rightarrow>
               (case write_all writer chunk of
                  None \<Rightarrow> None
                | Some writer \<Rightarrow> write_appdata_loop writer data stop)
      else Some writer)"
  by pat_completeness auto
termination
  by (relation "measure (\<lambda>(w, data, offset). length data - offset)") (auto simp: layout_simps)

declare write_appdata_loop.simps [simp del]

definition write_tls_appdata :: "writer \<Rightarrow> bytes \<Rightarrow> writer option" where
  "write_tls_appdata writer data = write_appdata_loop writer data 0"

text \<open>\<open>read_tls_appdata\<close> never fails; the result is the filled prefix of the buffer (\<open>Ok(n)\<close> is
  its length) and the rest of the stream.\<close>

function read_tls_appdata :: "nat \<Rightarrow> bytes \<Rightarrow> bytes \<times> bytes" where
  "read_tls_appdata buf_len reader =
     (if length reader < 5 then ([], [])
      else
        let header = take 5 reader; reader = drop 5 reader;
            record_type = header ! 0;
            payload_len = unat (u16_from_be (header ! 3) (header ! 4))
        in if buf_len < payload_len then ([], reader)
           else if record_type = TLS_RECORD_APPLICATION_DATA then
             (case read_exact payload_len reader of
                None \<Rightarrow> ([], [])
              | Some (payload, reader) \<Rightarrow> (payload, reader))
           else if record_type = TLS_RECORD_CHANGE_CIPHER_SPEC then
             (if length reader < payload_len then ([], [])
              else read_tls_appdata buf_len (drop payload_len reader))
           else ([], reader))"
  by pat_completeness auto
termination
  by (relation "measure (\<lambda>(b, r). length r)") auto

declare read_tls_appdata.simps [simp del]

section \<open>Layout of the signed ClientHello\<close>

lemma u16_be_roundtrip [codec_simps]:
  "n < 65536 \<Longrightarrow> unat (u16_from_be (u16_to_be (of_nat n) ! 0) (u16_to_be (of_nat n) ! Suc 0)) = n"
  by (simp add: codec_simps unat_of_nat_u16)

lemma u16_to_be_unfold: "u16_to_be w = [u16_to_be w ! 0, u16_to_be w ! Suc 0]"
  by (simp add: u16_to_be_def)

lemma u24_bytes:
  fixes n :: nat
  assumes "n < 2 ^ 24"
  shows "push_bit 16 (unat (ucast (drop_bit 16 (of_nat n :: u32)) :: byte))
    OR push_bit 8 (unat (ucast (drop_bit 8 (of_nat n :: u32)) :: byte))
    OR unat (ucast (of_nat n :: u32) :: byte) = n"
proof (rule bit_eqI)
  fix k
  have "bit n k \<longrightarrow> k < 24"
    using assms by (metis bit_take_bit_iff take_bit_nat_eq_self)
  then show "bit (push_bit 16 (unat (ucast (drop_bit 16 (of_nat n :: u32)) :: byte))
    OR push_bit 8 (unat (ucast (drop_bit 8 (of_nat n :: u32)) :: byte))
    OR unat (ucast (of_nat n :: u32) :: byte)) k = bit n k"
    by (auto simp: bit_simps)
qed

text \<open>The bytes before and after the \<open>random\<close> field.\<close>

definition hello_prefix :: "bytes \<Rightarrow> bytes" where
  "hello_prefix host_b =
     (let n = 171 + length host_b; w = of_nat n :: u32; r = u16_to_be (of_nat (4 + n)) in
      [0x16, 0x03, 0x01, r ! 0, r ! 1, 0x01, ucast (drop_bit 16 w), ucast (drop_bit 8 w), ucast w,
       0x03, 0x03])"

definition hello_suffix :: "bytes \<Rightarrow> bytes \<Rightarrow> bytes" where
  "hello_suffix host_b session_id =
     [0x20] @ session_id @ u16_to_be 32 @ client_cipher_suites @ [0x01, 0x00]
     @ u16_to_be (of_nat (66 + length host_b)) @ sni_extension host_b @ fixed_extensions"

lemma length_hello_parts [simp]:
  "length (hello_prefix h) = 11"
  "length fixed_extensions = 57"
  "length client_cipher_suites = 32"
  "length (sni_extension h) = 9 + length h"
  by (simp_all add: hello_prefix_def fixed_extensions_def client_cipher_suites_def sni_extension_def Let_def)

lemma client_hello_layout:
  assumes "length session_id = 32"
  shows "client_hello_record host_b session_id =
    hello_prefix host_b @ replicate 32 0 @ hello_suffix host_b session_id"
proof -
  define n :: u16 where "n = of_nat (175 + length host_b)"
  have "u16_to_be n = [u16_to_be n ! 0, u16_to_be n ! Suc 0]" by (rule u16_to_be_unfold)
  then show ?thesis
    using assms
    by (simp add: client_hello_record_def hello_prefix_def hello_suffix_def Let_def layout_simps n_def
        add.commute)
qed

lemma length_hello_suffix: "length session_id = 32 \<Longrightarrow> length (hello_suffix h session_id) = 136 + length h + 1"
  by (simp add: hello_suffix_def)

text \<open>The digest a signer puts into the \<open>random\<close> field.\<close>

definition signed_random :: "prims \<Rightarrow> u32 \<Rightarrow> bytes \<Rightarrow> bytes \<Rightarrow> bytes" where
  "signed_random P timestamp secret zeroed =
     (let computed = hmac_sha256 P secret zeroed in
      take 28 computed @ map (\<lambda>i. computed ! (28 + i) XOR u32_to_le timestamp ! i) [0..<4])"

lemma length_signed_random [simp]: "prims_ok P \<Longrightarrow> length (signed_random P ts k m) = 32"
  by (simp add: signed_random_def Let_def)

lemma nth_signed_random:
  "prims_ok P \<Longrightarrow> i < 28 \<Longrightarrow> signed_random P ts k m ! i = hmac_sha256 P k m ! i"
  by (simp add: signed_random_def Let_def nth_append)

lemma sign_layout:
  assumes "prims_ok P" "length pre = 11" "length r = 32"
  shows "sign_faketls_client_hello P ts (pre @ r @ suf) secret =
    Done (pre @ signed_random P ts secret (pre @ replicate 32 0 @ suf) @ suf)"
proof -
  define z where "z = pre @ replicate 32 0 @ suf"
  define c where "c = hmac_sha256 P secret z"
  have c: "length c = 32" using assms by (simp add: c_def)
  have z: "overwrite 11 (replicate 32 0) (pre @ r @ suf) = z"
    using assms by (simp add: overwrite_def z_def)
  have w: "write_loop 39 4 (\<lambda>i. c ! (28 + i) XOR u32_to_le ts ! i) (overwrite 11 (take 28 c) z) =
      pre @ (take 28 c @ map (\<lambda>i. c ! (28 + i) XOR u32_to_le ts ! i) [0..<4]) @ suf"
  proof (rule nth_equalityI)
    show "length (write_loop 39 4 (\<lambda>i. c ! (28 + i) XOR u32_to_le ts ! i) (overwrite 11 (take 28 c) z)) =
      length (pre @ (take 28 c @ map (\<lambda>i. c ! (28 + i) XOR u32_to_le ts ! i) [0..<4]) @ suf)"
      using assms c by (simp add: z_def)
  next
    fix k
    assume "k < length (write_loop 39 4 (\<lambda>i. c ! (28 + i) XOR u32_to_le ts ! i) (overwrite 11 (take 28 c) z))"
    then have k: "k < 43 + length suf" using assms c by (simp add: z_def)
    show "write_loop 39 4 (\<lambda>i. c ! (28 + i) XOR u32_to_le ts ! i) (overwrite 11 (take 28 c) z) ! k =
      (pre @ (take 28 c @ map (\<lambda>i. c ! (28 + i) XOR u32_to_le ts ! i) [0..<4]) @ suf) ! k"
      using k assms c
      by (auto simp: nth_write_loop nth_overwrite z_def nth_append)
  qed
  show ?thesis
    using assms c z w
    by (simp add: sign_faketls_client_hello_def layout_simps Let_def signed_random_def
        z_def [symmetric] c_def [symmetric])
qed

lemma parse_sni_first:
  assumes "length h \<le> 65530" "utf8_valid h"
  shows "parse_sni_extension (sni_extension h @ exts) = from_utf8 h"
proof -
  have l: "unat (5 + of_nat (length h) :: u16) = 5 + length h"
      "unat (3 + of_nat (length h) :: u16) = 3 + length h"
      "unat (of_nat (length h) :: u16) = length h"
    using assms unat_of_nat_u16 [of "5 + length h"] unat_of_nat_u16 [of "3 + length h"]
      unat_of_nat_u16 [of "length h"] by (simp_all add: add.commute)
  have [simp]: "(2 :: u16) + (3 + x) = 5 + x" for x by simp
  have e: "sni_extension h = [u16_to_be 0 ! 0, u16_to_be 0 ! Suc 0,
      u16_to_be (5 + of_nat (length h)) ! 0, u16_to_be (5 + of_nat (length h)) ! Suc 0,
      u16_to_be (3 + of_nat (length h)) ! 0, u16_to_be (3 + of_nat (length h)) ! Suc 0, 0,
      u16_to_be (of_nat (length h)) ! 0, u16_to_be (of_nat (length h)) ! Suc 0] @ h"
    by (simp add: sni_extension_def Let_def u16_to_be_def)
  show ?thesis
    unfolding e
    by (subst parse_sni_extension.simps)
       (simp add: codec_simps l subrange_def numeral_eq_Suc Let_def)
qed


lemma xored_prefix_zero:
  fixes c r :: bytes
  assumes "length c = 32" "length r = 32"
  shows "\<not> list_ex (\<lambda>b. b \<noteq> 0) (take 28 (map (\<lambda>i. c ! i XOR r ! i) [0..<32])) \<longleftrightarrow> take 28 r = take 28 c"
proof -
  have "take 28 (map (\<lambda>i. c ! i XOR r ! i) [0..<32]) = map (\<lambda>i. c ! i XOR r ! i) [0..<28]"
    by (simp add: take_map)
  moreover have "a XOR b = 0 \<longleftrightarrow> b = a" for a b :: byte
    by (metis xor_self_eq xor_xor_cancel(2) xor.right_neutral)
  moreover have "take 28 r = take 28 c \<longleftrightarrow> (\<forall>i < 28. r ! i = c ! i)"
    using assms by (auto simp: list_eq_iff_nth_eq)
  ultimately show ?thesis
    by (simp only: list_ex_iff) auto
qed

lemma parse_hello_layout:
  assumes "prims_ok P" "length r = 32" "length sid = 32" "length h \<le> 65360"
  shows "parse_faketls_client_hello P (hello_prefix h @ r @ hello_suffix h sid) secret =
    (if take 28 r = take 28 (hmac_sha256 P secret (hello_prefix h @ replicate 32 0 @ hello_suffix h sid))
     then parse_hello_body r ([3, 3] @ r @ hello_suffix h sid) else None)"
proof -
  let ?rec = "hello_prefix h @ r @ hello_suffix h sid"
  let ?w = "of_nat (171 + length h) :: u32"
  have pre: "hello_prefix h = [0x16, 0x03, 0x01, u16_to_be (of_nat (175 + length h)) ! 0,
      u16_to_be (of_nat (175 + length h)) ! Suc 0, 0x01, ucast (drop_bit 16 ?w), ucast (drop_bit 8 ?w),
      ucast ?w, 3, 3]"
    by (simp add: hello_prefix_def Let_def)
  have len: "length ?rec = 180 + length h" "length (hello_suffix h sid) = 137 + length h"
    using assms by (simp_all add: length_hello_suffix)
  have nths: "?rec ! 0 = 0x16" "?rec ! 3 = u16_to_be (of_nat (175 + length h)) ! 0"
      "?rec ! 4 = u16_to_be (of_nat (175 + length h)) ! Suc 0"
    by (simp_all add: pre)
  have hs: "drop 5 ?rec = [0x01, ucast (drop_bit 16 ?w), ucast (drop_bit 8 ?w), ucast ?w, 3, 3] @ r @ hello_suffix h sid"
    by (simp add: pre)
  have rnd: "subrange 11 43 ?rec = r" "overwrite 11 (replicate 32 0) ?rec = hello_prefix h @ replicate 32 0 @ hello_suffix h sid"
    using assms by (simp_all add: subrange_def overwrite_def)
  have l16: "unat (u16_from_be (u16_to_be (of_nat (175 + length h)) ! 0) (u16_to_be (of_nat (175 + length h)) ! Suc 0)) = 175 + length h"
    using assms by (intro u16_be_roundtrip) simp
  have l24: "push_bit 16 (unat (ucast (drop_bit 16 ?w) :: byte)) OR push_bit 8 (unat (ucast (drop_bit 8 ?w) :: byte))
      OR unat (ucast ?w :: byte) = 171 + length h"
    using assms by (intro u24_bytes) simp
  define R Z where "R = ?rec" and "Z = hello_prefix h @ replicate 32 0 @ hello_suffix h sid"
  define H where "H = drop 5 R"
  have H: "H ! 0 = 1" "H ! Suc 0 = ucast (drop_bit 16 ?w)" "H ! 2 = ucast (drop_bit 8 ?w)" "H ! 3 = ucast ?w"
      "drop 4 H = [3, 3] @ r @ hello_suffix h sid" "length H = 175 + length h"
    using len unfolding H_def R_def hs by (simp_all del: of_nat_add)
  note facts = len(1) nths rnd
  note facts = facts [folded R_def Z_def]
  show ?thesis
    unfolding parse_faketls_client_hello_def Let_def layout_simps R_def [symmetric] Z_def [symmetric]
    using assms xored_prefix_zero [of "hmac_sha256 P secret Z" r]
    by (auto simp: facts l16 l24 H_def [symmetric] H simp del: of_nat_add)
qed

lemma parse_hello_body_layout:
  assumes "length r = 32" "length sid = 32" "length h \<le> 65360" "utf8_valid h"
  shows "parse_hello_body r ([3, 3] @ r @ hello_suffix h sid) =
    Some \<lparr>fh_random = r, fh_session_id = sid, fh_cipher_suite = [0x13, 0x01], fh_hostname = from_utf8 h\<rparr>"
proof -
  let ?b = "[3, 3] @ r @ hello_suffix h sid"
  let ?e = "u16_to_be (of_nat (66 + length h))"
  have len: "length ?b = 171 + length h" using assms by (simp add: length_hello_suffix)
  have e2: "?e = [?e ! 0, ?e ! Suc 0]" by (rule u16_to_be_unfold)
  have b: "?b = ([3, 3] @ r @ [0x20]) @ sid @ [0, 32] @ [0x13, 0x01] @ drop 2 client_cipher_suites @ [1, 0]
      @ [?e ! 0, ?e ! Suc 0] @ sni_extension h @ fixed_extensions"
    by (subst e2 [symmetric])
       (simp add: hello_suffix_def u16_to_be_def client_cipher_suites_def)
  have at: "?b ! 34 = 0x20" "?b ! 67 = 0" "?b ! 68 = 32" "?b ! 69 = 0x13" "?b ! 70 = 0x01" "?b ! 101 = 1"
      "?b ! 103 = ?e ! 0" "?b ! 104 = ?e ! Suc 0" "subrange 35 67 ?b = sid"
      "subrange 105 (171 + length h) ?b = sni_extension h @ fixed_extensions"
    unfolding b using assms by (simp_all add: nth_append subrange_def)
  have l: "unat (u16_from_be (?e ! 0) (?e ! Suc 0)) = 66 + length h"
    using assms by (intro u16_be_roundtrip) simp
  have "unat (u16_from_be 0 32) = 32" by code_simp
  moreover define B where "B = ?b"
  moreover note facts = len at
  note facts = facts [folded B_def]
  ultimately show ?thesis
    unfolding parse_hello_body_def Let_def B_def [symmetric]
    using assms l
    by (simp add: facts parse_sni_first del: of_nat_add)
qed


section \<open>Records on the wire\<close>

text \<open>A record of any type and version.\<close>

definition tls_record :: "byte \<Rightarrow> byte \<Rightarrow> byte \<Rightarrow> bytes \<Rightarrow> bytes" where
  "tls_record t v1 v2 payload = [t, v1, v2] @ u16_to_be (of_nat (length payload)) @ payload"

lemma push_tls_record_eq: "push_tls_record out t p = out @ tls_record t 0x03 0x03 p"
  by (simp add: push_tls_record_def tls_record_def layout_simps)

lemma tls_record_unfold:
  "tls_record t v1 v2 p @ rest =
     t # v1 # v2 # u16_to_be (of_nat (length p)) ! 0 # u16_to_be (of_nat (length p)) ! Suc 0 # p @ rest"
  by (simp add: tls_record_def u16_to_be_def)

lemma length_tls_record [simp]: "length (tls_record t v1 v2 p) = 5 + length p"
  by (simp add: tls_record_def)

lemma read_exact_tls_record:
  "read_exact 5 (tls_record t v1 v2 p @ rest) =
     Some ([t, v1, v2, u16_to_be (of_nat (length p)) ! 0, u16_to_be (of_nat (length p)) ! Suc 0], p @ rest)"
  by (simp add: read_exact_def tls_record_unfold)

lemma appdata_header_eq:
  assumes "length p < 65536"
  shows "appdata_header (length p) @ p = tls_record TLS_RECORD_APPLICATION_DATA 0x03 0x03 p"
proof -
  have "(of_nat (length p div 256) :: byte) = ucast (drop_bit 8 (of_nat (length p) :: u16))"
  proof (rule bit_word_eqI)
    fix k
    have "length p div 256 = drop_bit 8 (length p)" by (simp add: drop_bit_eq_div)
    then show "bit (of_nat (length p div 256) :: byte) k = bit (ucast (drop_bit 8 (of_nat (length p) :: u16)) :: byte) k"
      by (auto simp: bit_simps)
  qed
  moreover have "(of_nat (length p) :: byte) = ucast (of_nat (length p) :: u16)"
    by (rule bit_word_eqI) (auto simp: bit_simps)
  ultimately show ?thesis
    by (simp add: appdata_header_def tls_record_def u16_to_be_def layout_simps)
qed

text \<open>Splitting a byte string into the longest possible chunks.\<close>

function chunks :: "nat \<Rightarrow> bytes \<Rightarrow> bytes list" where
  "chunks n d = (if d = [] \<or> n = 0 then [] else take n d # chunks n (drop n d))"
  by pat_completeness auto
termination
  by (relation "measure (\<lambda>(n, d). length d)") auto

declare chunks.simps [simp del]

lemma concat_chunks: "0 < n \<Longrightarrow> concat (chunks n d) = d"
  by (induction n d rule: chunks.induct) (subst chunks.simps, simp)

lemma chunks_bounds: "\<forall>c \<in> set (chunks n d). c \<noteq> [] \<and> length c \<le> n"
proof (induction n d rule: chunks.induct)
  case (1 n d)
  then show ?case by (subst chunks.simps) auto
qed

definition appdata_wire :: "bytes \<Rightarrow> bytes" where
  "appdata_wire d =
     concat (map (tls_record TLS_RECORD_APPLICATION_DATA 0x03 0x03) (chunks TLS_MAX_APPDATA_WRITE d))"

lemma appdata_wire_step:
  "d \<noteq> [] \<Longrightarrow> appdata_wire d =
     tls_record TLS_RECORD_APPLICATION_DATA 0x03 0x03 (take 16384 d) @ appdata_wire (drop 16384 d)"
  by (simp add: appdata_wire_def layout_simps) (subst chunks.simps, simp)

lemma appdata_wire_Nil [simp]: "appdata_wire [] = []"
  by (simp add: appdata_wire_def chunks.simps)

lemma write_appdata_loop_out:
  "write_appdata_loop w d off = Some w' \<Longrightarrow> w_out w' = w_out w @ appdata_wire (drop off d)"
proof (induction w d off arbitrary: w' rule: write_appdata_loop.induct)
  case (1 w d off)
  show ?case
  proof (cases "off < length d")
    case False
    with "1.prems" show ?thesis
      by (simp add: write_appdata_loop.simps [of w d off])
  next
    case True
    let ?s = "min (off + TLS_MAX_APPDATA_WRITE) (length d)"
    let ?c = "subrange off ?s d"
    from "1.prems" True obtain w1 w2 where w:
      "write_all w (appdata_header (length ?c)) = Some w1" "write_all w1 ?c = Some w2"
      "write_appdata_loop w2 d ?s = Some w'"
      by (subst (asm) write_appdata_loop.simps) (auto simp: Let_def split: option.splits)
    have c: "?c = take 16384 (drop off d)"
      by (simp add: subrange_def layout_simps min_def)
    have r: "drop ?s d = drop 16384 (drop off d)"
      by (simp add: layout_simps min_def add.commute)
    have len: "length ?c < 65536" by (simp add: c)
    have "w_out w' = w_out w @ appdata_header (length ?c) @ ?c @ appdata_wire (drop ?s d)"
      using "1.IH" [OF True refl refl w] w write_all_out by fastforce
    also have "\<dots> = w_out w @ tls_record TLS_RECORD_APPLICATION_DATA 0x03 0x03 ?c @ appdata_wire (drop ?s d)"
      using appdata_header_eq [OF len] by (metis append_assoc)
    also have "\<dots> = w_out w @ appdata_wire (drop off d)"
      using True by (simp add: appdata_wire_step [of "drop off d"] c r)
    finally show ?thesis .
  qed
qed

lemma write_appdata_loop_total:
  "w_budget w = None \<Longrightarrow> \<exists>w'. write_appdata_loop w d off = Some w'"
proof (induction w d off rule: write_appdata_loop.induct)
  case (1 w d off)
  then show ?case
    by (subst write_appdata_loop.simps) (auto simp: Let_def write_all_unlimited)
qed

lemma read_appdata_record:
  assumes "length p \<le> n" "length p < 65536"
  shows "read_tls_appdata n (tls_record TLS_RECORD_APPLICATION_DATA v1 v2 p @ rest) = (p, rest)"
  using assms
  by (subst read_tls_appdata.simps)
     (simp add: tls_record_unfold layout_simps codec_simps Let_def)

lemma read_appdata_skips_ccs:
  assumes "length p \<le> n" "length p < 65536"
  shows "read_tls_appdata n (tls_record TLS_RECORD_CHANGE_CIPHER_SPEC v1 v2 p @ rest) = read_tls_appdata n rest"
  using assms
  by (subst read_tls_appdata.simps)
     (simp add: tls_record_unfold layout_simps codec_simps Let_def)


section \<open>Record layers\<close>

text \<open>
  A record layer turns a payload into wire bytes that a reader takes off the front of the
  stream again, whatever follows. Reading \<open>n\<close> times then returns the \<open>n\<close> payloads in order.
\<close>

fun read_times :: "('s \<Rightarrow> 'a \<times> 's) \<Rightarrow> nat \<Rightarrow> 's \<Rightarrow> 'a list \<times> 's" where
  "read_times rd 0 s = ([], s)"
| "read_times rd (Suc n) s =
     (let r = rd s; t = read_times rd n (snd r) in (fst r # fst t, snd t))"

locale record_layer =
  fixes enc :: "bytes \<Rightarrow> bytes"
    and rd :: "bytes \<Rightarrow> bytes \<times> bytes"
    and ok :: "bytes \<Rightarrow> bool"
  assumes rd_enc: "ok p \<Longrightarrow> rd (enc p @ rest) = (p, rest)"
begin

lemma read_times_enc:
  "\<forall>p \<in> set ps. ok p \<Longrightarrow> read_times rd (length ps) (concat (map enc ps) @ rest) = (ps, rest)"
  by (induction ps) (simp_all add: rd_enc Let_def)

lemma enc_inj: "ok p \<Longrightarrow> ok q \<Longrightarrow> enc p @ r = enc q @ s \<Longrightarrow> p = q \<and> r = s"
  using rd_enc [of p r] rd_enc [of q s] by (metis prod.inject)

end

definition fits_buffer :: "nat \<Rightarrow> bytes \<Rightarrow> bool" where
  "fits_buffer n p \<longleftrightarrow> length p \<le> n \<and> length p < 65536"

interpretation appdata: record_layer
  "tls_record TLS_RECORD_APPLICATION_DATA 0x03 0x03" "read_tls_appdata n" "fits_buffer n" for n
  by unfold_locales (simp add: fits_buffer_def read_appdata_record)

definition expect_record :: "byte \<Rightarrow> nat \<Rightarrow> bytes \<Rightarrow> bytes \<times> bytes" where
  "expect_record t n reader =
     (case read_tls_record n reader of (TlsRecord t' v p, rest) \<Rightarrow> (if t' = t then p else [], rest)
      | (_, rest) \<Rightarrow> ([], rest))"

lemma read_tls_record_wire:
  assumes "length p \<le> n" "length p < 65536"
  shows "read_tls_record n (tls_record t v1 v2 p @ rest) = (TlsRecord t [v1, v2] p, rest)"
  using assms by (simp add: read_tls_record_def read_exact_tls_record codec_simps Let_def)

interpretation any_record: record_layer "tls_record t v1 v2" "expect_record t n" "fits_buffer n" for t v1 v2 n
  by unfold_locales (simp only: expect_record_def fits_buffer_def read_tls_record_wire, simp)

lemma drain_loop_record:
  assumes "length p \<le> 16640"
  shows "drain_loop (Suc n) (tls_record t 3 3 p @ rest) =
    (if t = TLS_RECORD_HANDSHAKE \<or> t = TLS_RECORD_CHANGE_CIPHER_SPEC then drain_loop n rest
     else (t = TLS_RECORD_APPLICATION_DATA, rest))"
  using assms by (simp add: read_exact_tls_record codec_simps layout_simps Let_def)

section \<open>Layout of the ServerHello packet\<close>

definition server_handshake :: "fake_tls_client_hello \<Rightarrow> bytes \<Rightarrow> bytes \<Rightarrow> bytes" where
  "server_handshake hello random key_share =
     (let n = 86 + length (fh_session_id hello) in
      [2, of_nat (n div 65536 mod 256), of_nat (n div 256 mod 256), of_nat (n mod 256), 3, 3] @ random
      @ [of_nat (length (fh_session_id hello))] @ fh_session_id hello @ fh_cipher_suite hello
      @ [0x00, 0x00, 0x2e, 0x00, 0x2b, 0x00, 0x02, 0x03, 0x04, 0x00, 0x33, 0x00, 0x24, 0x00, 0x1d,
         0x00, 0x20] @ key_share)"

definition server_flight :: "fake_tls_client_hello \<Rightarrow> bytes \<Rightarrow> bytes \<Rightarrow> bytes \<Rightarrow> bytes" where
  "server_flight hello random key_share cert =
     tls_record 0x16 3 3 (server_handshake hello random key_share)
     @ tls_record 0x14 3 3 [1] @ tls_record 0x17 3 3 cert"

lemma length_server_handshake:
  "length ks = 32 \<Longrightarrow> length r = 32 \<Longrightarrow> length (fh_cipher_suite h) = 2 \<Longrightarrow>
   length (server_handshake h r ks) = 90 + length (fh_session_id h)"
  by (simp add: server_handshake_def Let_def)

lemma server_hello_packet_layout:
  assumes "length ks = 32" "length (fh_cipher_suite h) = 2"
  shows "server_hello_packet h ks cert = server_flight h (replicate 32 0) ks cert"
proof -
  have "length (server_hello_body h ks) = 86 + length (fh_session_id h)"
    using assms by (simp add: server_hello_body_def layout_simps)
  then show ?thesis
    using assms
    by (simp add: server_hello_packet_def server_flight_def server_handshake_def Let_def push_tls_record_eq
        layout_simps) (simp add: server_hello_body_def layout_simps)
qed

lemma server_flight_overwrite:
  assumes "length r = 32" "length z = 32"
  shows "overwrite 11 r (server_flight h z ks cert) = server_flight h r ks cert"
  using assms by (simp add: server_flight_def server_handshake_def overwrite_def tls_record_def u16_to_be_def Let_def)

lemma server_flight_random:
  assumes "length r = 32"
  shows "subrange 11 43 (server_flight h r ks cert) = r"
  using assms by (simp add: server_flight_def server_handshake_def subrange_def tls_record_def u16_to_be_def Let_def)

lemma drain_server_flight:
  assumes "length ks = 32" "length r = 32" "length (fh_cipher_suite h) = 2"
    and "length (fh_session_id h) < 256" "length cert \<le> 16640"
  shows "drain_faketls_server_hello (server_flight h r ks cert @ rest) = (True, rest)"
proof -
  have twenty: "TLS_MAX_HANDSHAKE_RECORDS = Suc (Suc (Suc 17))" by (simp add: layout_simps)
  have len: "length (server_handshake h r ks) \<le> 16640"
    using assms by (simp add: length_server_handshake)
  show ?thesis
    unfolding drain_faketls_server_hello_def twenty server_flight_def append_assoc
    using assms
    by (subst drain_loop_record [OF len], subst drain_loop_record, simp, subst drain_loop_record)
       (simp_all add: layout_simps del: drain_loop.simps)
qed

section \<open>What a validated ClientHello guarantees\<close>

lemma parse_hello_body_Some:
  assumes "parse_hello_body r body = Some h"
  shows "fh_random h = r \<and> length (fh_session_id h) < 256 \<and> length (fh_cipher_suite h) = 2"
proof -
  let ?e = "35 + unat (body ! 34)"
  from assms have b: "?e + 2 \<le> length body"
    by (auto simp: parse_hello_body_def Let_def split: if_splits)
  from assms have f: "fh_random h = r" "fh_session_id h = subrange 35 ?e body" "length (fh_cipher_suite h) = 2"
    by (auto simp: parse_hello_body_def Let_def split: if_splits)
  have "length (subrange 35 ?e body) = unat (body ! 34)" using b by simp
  with f show ?thesis by simp
qed

lemma parse_client_hello_Some:
  assumes "prims_ok P" "parse_faketls_client_hello P rec secret = Some h"
  shows "47 \<le> length rec"
    and "take 28 (subrange 11 43 rec) = take 28 (hmac_sha256 P secret (overwrite 11 (replicate 32 0) rec))"
    and "parse_hello_body (subrange 11 43 rec) (drop 9 rec) = Some h"
proof -
  let ?r = "subrange 11 43 rec" and ?c = "hmac_sha256 P secret (overwrite 11 (replicate 32 0) rec)"
  show l: "47 \<le> length rec"
    using assms(2) by (auto simp: parse_faketls_client_hello_def layout_simps split: if_splits)
  have x: "\<not> list_ex (\<lambda>b. b \<noteq> 0) (take 28 (map (\<lambda>i. ?c ! i XOR ?r ! i) [0..<32]))"
    and p: "parse_hello_body ?r (drop 4 (drop 5 rec)) = Some h"
    using assms(2) unfolding parse_faketls_client_hello_def layout_simps Let_def
    by (simp_all only: split: if_splits) simp_all
  show "take 28 ?r = take 28 ?c"
    using x xored_prefix_zero [of ?c ?r] l assms(1) by simp
  show "parse_hello_body ?r (drop 9 rec) = Some h" using p by simp
qed

lemma build_server_hello_Done:
  assumes "prims_ok P" "length (fh_cipher_suite h) = 2"
    and "build_faketls_server_hello P secret h rng = Done (packet, rng')"
  obtains ks cert where "length ks = 32" "length cert \<le> 4115"
    and "packet = server_flight h
      (hmac_sha256 P secret (fh_random h @ server_flight h (replicate 32 0) ks cert)) ks cert"
proof -
  from assms(3) obtain ks r1 u r2 cert r3 where
    k: "fill_bytes 32 rng = Done (ks, r1)" and u: "fill_bytes 4 r1 = Done (u, r2)" and
    c: "fill_bytes (1024 + unat (u32_from_le (u ! 0) (u ! 1) (u ! 2) (u ! 3)) mod 3092) r2 = Done (cert, r3)" and
    p: "packet = overwrite 11 (hmac_sha256 P secret (fh_random h @ server_hello_packet h ks cert))
      (server_hello_packet h ks cert)"
    by (auto simp: build_faketls_server_hello_def run_bind_eq_Done Let_def layout_simps)
  have ks: "length ks = 32" using fill_bytes_Done [OF k] by simp
  have cl: "length cert \<le> 4115" using fill_bytes_Done [OF c] by simp
  show ?thesis
    using that [OF ks cl] p assms ks
    by (simp add: server_hello_packet_layout server_flight_overwrite)
qed

text \<open>Change-cipher-spec records that fit the buffer, and the records a data-phase reader consumes.\<close>

definition ccs_records :: "nat \<Rightarrow> (byte \<times> byte \<times> bytes) list \<Rightarrow> bytes" where
  "ccs_records n cs = concat (map (\<lambda>(v1, v2, p). tls_record TLS_RECORD_CHANGE_CIPHER_SPEC v1 v2 p) cs)"

definition all_fit :: "nat \<Rightarrow> (byte \<times> byte \<times> bytes) list \<Rightarrow> bool" where
  "all_fit n cs \<longleftrightarrow> (\<forall>(v1, v2, p) \<in> set cs. fits_buffer n p)"

lemma read_appdata_after_ccs:
  "all_fit n cs \<Longrightarrow> read_tls_appdata n (ccs_records n cs @ rest) = read_tls_appdata n rest"
  by (induction cs) (auto simp: all_fit_def ccs_records_def fits_buffer_def read_appdata_skips_ccs)

lemma record_of_header:
  assumes "5 \<le> length r" "unat (u16_from_be (r ! 3) (r ! 4)) \<le> length r - 5"
  shows "\<exists>p. length p = unat (u16_from_be (r ! 3) (r ! 4)) \<and> length p < 65536
    \<and> r = tls_record (r ! 0) (r ! 1) (r ! 2) p @ drop (5 + length p) r"
proof -
  define m where "m = unat (u16_from_be (r ! 3) (r ! 4))"
  define p where "p = take m (drop 5 r)"
  have m: "m < 65536" unfolding m_def using unsigned_less [of "u16_from_be (r ! 3) (r ! 4)"] by simp
  have p: "length p = m" using assms by (simp add: p_def m_def)
  have "(of_nat m :: u16) = u16_from_be (r ! 3) (r ! 4)" by (simp add: m_def)
  then have "u16_to_be (of_nat m) = [r ! 3, r ! 4]"
    by (auto simp: u16_to_be_def u16_from_be_def intro!: bit_word_eqI)
       (auto simp: bit_simps dest: bit_imp_le_length)
  moreover have "r = [r ! 0, r ! 1, r ! 2, r ! 3, r ! 4] @ drop 5 r"
    using assms(1) by (auto simp: numeral_eq_Suc Suc_le_length_iff)
  moreover have "drop 5 r = p @ drop (5 + m) r"
    unfolding p_def by (metis append_take_drop_id drop_drop add.commute)
  ultimately have "r = tls_record (r ! 0) (r ! 1) (r ! 2) p @ drop (5 + length p) r"
    by (simp add: tls_record_def p)
  then show ?thesis using p m m_def by blast
qed

lemma read_appdata_sound:
  "read_tls_appdata n r = (p, rest) \<Longrightarrow> p \<noteq> [] \<Longrightarrow>
   \<exists>cs v1 v2. all_fit n cs \<and> fits_buffer n p
     \<and> r = ccs_records n cs @ tls_record TLS_RECORD_APPLICATION_DATA v1 v2 p @ rest"
proof (induction r arbitrary: p rest rule: measure_induct_rule [of length])
  case (less r)
  let ?m = "unat (u16_from_be (r ! 3) (r ! 4))"
  from less.prems have g: "5 \<le> length r" "?m \<le> n"
    by (auto simp: read_tls_appdata.simps [of n r] Let_def split: if_splits)
  have len: "?m \<le> length r - 5"
    using less.prems g
    by (auto simp: read_tls_appdata.simps [of n r] Let_def read_exact_def split: if_splits)
  from record_of_header [OF g(1) len] obtain q where q: "length q = ?m" "length q < 65536"
    "r = tls_record (r ! 0) (r ! 1) (r ! 2) q @ drop (5 + length q) r" by blast
  consider "r ! 0 = TLS_RECORD_APPLICATION_DATA" | "r ! 0 = TLS_RECORD_CHANGE_CIPHER_SPEC"
    using less.prems by (auto simp: read_tls_appdata.simps [of n r] Let_def split: if_splits)
  then show ?case
  proof cases
    case 1
    with q g have "read_tls_appdata n r = (q, drop (5 + length q) r)"
      using read_appdata_record [of q n] by metis
    with less.prems(1) q g 1 show ?thesis
      by (intro exI [of _ "[]"] exI [of _ "r ! 1"] exI [of _ "r ! 2"])
         (simp add: all_fit_def ccs_records_def fits_buffer_def)
  next
    case 2
    let ?rest = "drop ?m (drop 5 r)"
    have neq: "TLS_RECORD_CHANGE_CIPHER_SPEC \<noteq> TLS_RECORD_APPLICATION_DATA" by (simp add: layout_simps)
    have step: "read_tls_appdata n r = read_tls_appdata n ?rest"
      using 2 g len neq by (subst read_tls_appdata.simps) (simp add: Let_def)
    have "\<exists>cs v1 v2. all_fit n cs \<and> fits_buffer n p
        \<and> ?rest = ccs_records n cs @ tls_record TLS_RECORD_APPLICATION_DATA v1 v2 p @ rest"
      using g less.prems step by (intro less.IH) simp_all
    then obtain cs v1 v2 where cs: "all_fit n cs" "fits_buffer n p"
      "?rest = ccs_records n cs @ tls_record TLS_RECORD_APPLICATION_DATA v1 v2 p @ rest" by blast
    have "drop (5 + length q) r = ?rest" using q by (simp add: add.commute)
    with q cs g 2 have "r = ccs_records n ((r ! 1, r ! 2, q) # cs) @ tls_record TLS_RECORD_APPLICATION_DATA v1 v2 p @ rest
        \<and> all_fit n ((r ! 1, r ! 2, q) # cs)"
      by (simp add: ccs_records_def all_fit_def fits_buffer_def)
    with cs(2) show ?thesis by blast
  qed
qed


lemma signed_hello_parses:
  assumes "prims_ok P" "valid_string host" "length host \<le> 65360" "length sid = 32"
  shows "\<exists>signed. sign_faketls_client_hello P ts (client_hello_record (as_bytes host) sid) secret = Done signed
    \<and> length signed = 180 + length host
    \<and> parse_faketls_client_hello P signed secret = Some
        \<lparr>fh_random = subrange 11 43 signed, fh_session_id = sid, fh_cipher_suite = [0x13, 0x01],
         fh_hostname = Some host\<rparr>"
proof -
  let ?h = "as_bytes host"
  let ?zeroed = "hello_prefix ?h @ replicate 32 0 @ hello_suffix ?h sid"
  define r where "r = signed_random P ts secret ?zeroed"
  let ?signed = "hello_prefix ?h @ r @ hello_suffix ?h sid"
  have r: "length r = 32" "take 28 r = take 28 (hmac_sha256 P secret ?zeroed)"
    using assms(1) by (simp_all add: r_def) (simp add: signed_random_def Let_def)
  have s: "sign_faketls_client_hello P ts (client_hello_record ?h sid) secret = Done ?signed"
    using sign_layout [OF assms(1), of "hello_prefix ?h" "replicate 32 0"] assms(4)
    by (simp add: client_hello_layout r_def)
  have p: "parse_faketls_client_hello P ?signed secret = Some
      \<lparr>fh_random = r, fh_session_id = sid, fh_cipher_suite = [0x13, 0x01], fh_hostname = Some host\<rparr>"
    using parse_hello_layout [OF assms(1) r(1) assms(4)] parse_hello_body_layout [OF r(1) assms(4)]
      assms r(2) from_utf8_as_bytes [OF assms(2)] by (simp add: valid_string_def)
  have "subrange 11 43 ?signed = r" using r by (simp add: subrange_def)
  with s p assms(4) r show ?thesis by (simp add: length_hello_suffix)
qed

definition example_hello :: bytes where
  "example_hello = (case sign_faketls_client_hello example_prims 5
     (client_hello_record (as_bytes ''a.org'') (replicate 32 9)) [4] of Done r \<Rightarrow> r | _ \<Rightarrow> [])"

lemma example_hello_parses: "\<exists>hello. parse_faketls_client_hello example_prims example_hello [4] = Some hello"
proof -
  have "utf8_valid (as_bytes ''a.org'')" by code_simp
  then show ?thesis
    using signed_hello_parses [OF example_prims_ok, of "''a.org''" "replicate 32 9" 5 "[4]"]
    by (auto simp: valid_string_def example_hello_def)
qed

lemma build_server_hello_total:
  assumes "4151 \<le> length rng"
  shows "\<exists>packet rng'. build_faketls_server_hello P secret hello rng = Done (packet, rng')"
proof -
  define u where "u = take 4 (drop 32 rng)"
  define n where "n = 1024 + unat (u32_from_le (u ! 0) (u ! 1) (u ! 2) (u ! 3)) mod 3092"
  have "n \<le> 4115" unfolding n_def
    using mod_less_divisor [of 3092 "unat (u32_from_le (u ! 0) (u ! 1) (u ! 2) (u ! 3))"] by linarith
  then have c: "fill_bytes n (drop 36 rng) = Done (take n (drop 36 rng), drop n (drop 36 rng))"
    using assms by (simp add: fill_bytes_def)
  have a: "fill_bytes 32 rng = Done (take 32 rng, drop 32 rng)" "fill_bytes 4 (drop 32 rng) = Done (u, drop 36 rng)"
    using assms by (simp_all add: fill_bytes_def u_def)
  show ?thesis
    unfolding build_faketls_server_hello_def Let_def a run_bind_simps fst_conv snd_conv n_def [symmetric] c
    by blast
qed

section \<open>Properties\<close>

text \<open>(C20) A ClientHello that \<open>build_faketls_client_hello\<close> builds and
  \<open>sign_faketls_client_hello\<close> signs is accepted by \<open>parse_faketls_client_hello\<close> under the same
  secret at any timestamp, and the server reads back the random session id, the first cipher
  suite and the host name. It holds for every UTF-8 host name up to 65360 bytes, the longest
  whose record length fits 16 bits.\<close>

theorem faketls_hello_roundtrip:
  assumes "prims_ok P" and "valid_string host" and "length host \<le> 65360"
    and "build_faketls_client_hello host rng = Done (rec, rng')"
  shows "\<exists>signed. sign_faketls_client_hello P timestamp rec secret = Done signed
    \<and> length signed = 180 + length host
    \<and> parse_faketls_client_hello P signed secret = Some
        \<lparr>fh_random = subrange TLS_DIGEST_POS (TLS_DIGEST_POS + TLS_DIGEST_LEN) signed,
         fh_session_id = take 32 rng, fh_cipher_suite = [0x13, 0x01], fh_hostname = Some host\<rparr>"
proof -
  from assms(4) have "length (take 32 rng) = 32" "rec = client_hello_record (as_bytes host) (take 32 rng)"
    by (auto simp: build_faketls_client_hello_def run_bind_eq_Done fill_bytes_def split: if_splits)
  with signed_hello_parses [OF assms(1-3)] show ?thesis by (simp add: layout_simps)
qed

theorem faketls_hello_roundtrip_witness:
  "\<exists>signed. sign_faketls_client_hello example_prims 1700000000
        (client_hello_record (as_bytes ''example.com'') (replicate 32 7)) [1, 2, 3] = Done signed
    \<and> parse_faketls_client_hello example_prims signed [1, 2, 3] = Some
        \<lparr>fh_random = subrange TLS_DIGEST_POS (TLS_DIGEST_POS + TLS_DIGEST_LEN) signed,
         fh_session_id = replicate 32 7, fh_cipher_suite = [0x13, 0x01], fh_hostname = Some ''example.com''\<rparr>"
proof -
  have b: "build_faketls_client_hello ''example.com'' (replicate 40 7) =
      Done (client_hello_record (as_bytes ''example.com'') (replicate 32 7), replicate 8 7)"
    by (simp add: build_faketls_client_hello_def fill_bytes_def)
  have "utf8_valid (as_bytes ''example.com'')" by code_simp
  then have v: "valid_string ''example.com''" by (simp add: valid_string_def)
  have l: "length ''example.com'' \<le> 65360" by simp
  show ?thesis
    using faketls_hello_roundtrip [OF example_prims_ok v l b, of 1700000000 "[1, 2, 3]"] by auto
qed

text \<open>(C10) Authentication of inbound clients: if \<open>parse_faketls_client_hello\<close> accepts a record,
  the first 28 bytes of its \<open>random\<close> field are those of the HMAC-SHA256, keyed with the secret,
  of the record with that field zeroed, so without the key no record passes; and the
  accepted hello has a session id and cipher suite that \<open>build_faketls_server_hello\<close> can echo.\<close>

theorem faketls_hello_authentic:
  assumes "prims_ok P" and "parse_faketls_client_hello P rec secret = Some hello"
  shows "fh_random hello = subrange TLS_DIGEST_POS (TLS_DIGEST_POS + TLS_DIGEST_LEN) rec
    \<and> take 28 (fh_random hello) =
        take 28 (hmac_sha256 P secret (overwrite TLS_DIGEST_POS (replicate TLS_DIGEST_LEN 0) rec))
    \<and> length (fh_random hello) = TLS_DIGEST_LEN
    \<and> length (fh_session_id hello) < 256 \<and> length (fh_cipher_suite hello) = 2"
  using parse_client_hello_Some(1,2) [OF assms] parse_hello_body_Some [OF parse_client_hello_Some(3) [OF assms]]
  by (simp add: layout_simps)

theorem faketls_hello_authentic_witness:
  "take 28 (subrange 11 43 example_hello) =
     take 28 (hmac_sha256 example_prims [4] (overwrite 11 (replicate 32 0) example_hello))"
proof -
  obtain hello where "parse_faketls_client_hello example_prims example_hello [4] = Some hello"
    using example_hello_parses by blast
  note a = faketls_hello_authentic [OF example_prims_ok this]
  show ?thesis
    using a [THEN conjunct2, THEN conjunct1] unfolding a [THEN conjunct1] by (simp add: layout_simps)
qed

text \<open>(C21) The server side of the disguise matches the client side: for every hello the parser
  accepted and any random bytes, the packet of \<open>build_faketls_server_hello\<close> is consumed by
  \<open>drain_faketls_server_hello\<close> to its last byte and no further, and its server random is the
  HMAC over the client random and the packet with that field zeroed.\<close>

theorem faketls_server_hello_drained:
  assumes "prims_ok P" and "parse_faketls_client_hello P rec secret = Some hello"
    and "4151 \<le> length rng"
  shows "\<exists>packet rng'. build_faketls_server_hello P secret hello rng = Done (packet, rng')
    \<and> drain_faketls_server_hello (packet @ rest) = (True, rest)
    \<and> subrange 11 43 packet =
        hmac_sha256 P secret (fh_random hello @ overwrite 11 (replicate 32 0) packet)"
proof -
  have h: "length (fh_cipher_suite hello) = 2" "length (fh_session_id hello) < 256"
    using parse_hello_body_Some [OF parse_client_hello_Some(3) [OF assms(1,2)]] by simp_all
  from build_server_hello_total [OF assms(3)] obtain packet rng' where
    b: "build_faketls_server_hello P secret hello rng = Done (packet, rng')" by blast
  from build_server_hello_Done [OF assms(1) h(1) b] obtain ks cert where k:
    "length ks = 32" "length cert \<le> 4115"
    "packet = server_flight hello (hmac_sha256 P secret (fh_random hello @ server_flight hello (replicate 32 0) ks cert)) ks cert" .
  have "drain_faketls_server_hello (packet @ rest) = (True, rest)"
    using k h assms(1) by (simp add: drain_server_flight)
  moreover have "subrange 11 43 packet = hmac_sha256 P secret (fh_random hello @ overwrite 11 (replicate 32 0) packet)"
    using k assms(1) by (simp add: server_flight_random server_flight_overwrite)
  ultimately show ?thesis using b by blast
qed

theorem faketls_server_hello_drained_witness:
  "\<exists>hello packet rng'. parse_faketls_client_hello example_prims example_hello [4] = Some hello
    \<and> build_faketls_server_hello example_prims [4] hello (replicate 5000 1) = Done (packet, rng')
    \<and> drain_faketls_server_hello (packet @ [1, 2, 3]) = (True, [1, 2, 3])"
proof -
  obtain hello where p: "parse_faketls_client_hello example_prims example_hello [4] = Some hello"
    using example_hello_parses by blast
  show ?thesis
    using faketls_server_hello_drained [OF example_prims_ok p, of "replicate 5000 1" "[1, 2, 3]"] p by auto
qed

text \<open>(C18) Data-phase round trip: to a peer that accepts every byte, \<open>write_tls_appdata\<close>
  always succeeds, and reading the bytes it wrote with \<open>read_tls_appdata\<close> and any buffer of at
  least 16384 bytes returns the data in non-empty chunks of at most 16384 bytes, leaving what
  follows them untouched.\<close>

theorem appdata_roundtrip:
  assumes "w_budget w = None" and "TLS_MAX_APPDATA_WRITE \<le> buf_len"
  shows "\<exists>w' wire ps. write_tls_appdata w data = Some w' \<and> w_out w' = w_out w @ wire
    \<and> (\<forall>rest. read_times (read_tls_appdata buf_len) (length ps) (wire @ rest) = (ps, rest))
    \<and> concat ps = data \<and> list_all (\<lambda>p. p \<noteq> [] \<and> length p \<le> TLS_MAX_APPDATA_WRITE) ps"
proof -
  let ?ps = "chunks TLS_MAX_APPDATA_WRITE data"
  obtain w' where w: "write_tls_appdata w data = Some w'" "w_out w' = w_out w @ appdata_wire data"
    using write_appdata_loop_total [OF assms(1), of data 0] write_appdata_loop_out [of w data 0]
    unfolding write_tls_appdata_def drop_0 by blast
  have "\<forall>p \<in> set ?ps. fits_buffer buf_len p"
  proof
    fix p
    assume "p \<in> set ?ps"
    then have "length p \<le> TLS_MAX_APPDATA_WRITE" using chunks_bounds by blast
    then show "fits_buffer buf_len p" using assms(2) by (simp add: fits_buffer_def layout_simps)
  qed
  then have "read_times (read_tls_appdata buf_len) (length ?ps) (appdata_wire data @ rest) = (?ps, rest)" for rest
    unfolding appdata_wire_def by (rule appdata.read_times_enc)
  moreover have "concat ?ps = data" by (rule concat_chunks) (simp add: layout_simps)
  moreover have "list_all (\<lambda>p. p \<noteq> [] \<and> length p \<le> TLS_MAX_APPDATA_WRITE) ?ps"
    using chunks_bounds [of TLS_MAX_APPDATA_WRITE data] by (simp add: list_all_iff)
  ultimately show ?thesis
    using w by blast
qed

theorem appdata_roundtrip_witness:
  "\<exists>w' wire ps. write_tls_appdata \<lparr>w_out = [9], w_budget = None\<rparr> (replicate 20000 5) = Some w'
    \<and> w_out w' = [9] @ wire
    \<and> read_times (read_tls_appdata 16384) (length ps) (wire @ [7]) = (ps, [7]) \<and> concat ps = replicate 20000 5"
proof -
  have "w_budget \<lparr>w_out = [9], w_budget = None\<rparr> = None" "TLS_MAX_APPDATA_WRITE \<le> 16384"
    by (simp_all add: layout_simps)
  from appdata_roundtrip [OF this, of "replicate 20000 5"] show ?thesis
    unfolding writer.select_convs by blast
qed

text \<open>(C39) Exactly what the data-phase reader accepts: it returns a non-empty payload \<open>p\<close> and the
  rest of the stream if and only if the stream is a run of change-cipher-spec records that
  fit the buffer, then one Application Data record with payload \<open>p\<close> that fits it, then that rest.\<close>

theorem appdata_read_exactly:
  "(read_tls_appdata buf_len stream = (p, rest) \<and> p \<noteq> []) =
   (p \<noteq> [] \<and> (\<exists>cs v1 v2. all_fit buf_len cs \<and> fits_buffer buf_len p
     \<and> stream = ccs_records buf_len cs @ tls_record TLS_RECORD_APPLICATION_DATA v1 v2 p @ rest))"
  using read_appdata_sound [of buf_len stream p rest] read_appdata_after_ccs read_appdata_record
  by (auto simp: fits_buffer_def)


end
