(* ===== verification/Routing.thy ===== *)
theory Routing
  imports Pool Cooldown Faketls
begin

text \<open>
  The fallback ladder of \<open>rust/src/proxy.rs\<close>: from a parsed handshake to the upstream a connection is
  bridged to. The process-wide tables (five cooldown maps, two rotation counters) extend the
  pool's state; one routing attempt runs against them from start to end. The rungs are the
  pool, a direct WebSocket with its domain-fronting retry, the Cloudflare Worker tunnel, the
  Cloudflare proxy, upstream MTProto proxies and plain TCP. Log calls are left out.
\<close>

section \<open>State, timeouts and routes\<close>

type_synonym usize = "64 word"

record ('w, 'ws) proxy_state = "('w, 'ws) pool_state" +
  ws_fail :: "dc_key cooldown_map"
  ip_fail :: "string cooldown_map"
  upstream_fail :: "string cooldown_map"
  cf_worker_fail :: "string cooldown_map"
  fronting_fail :: "dc_key cooldown_map"
  cf_balance_counter :: usize
  cf_worker_balance_counter :: usize

text \<open>The rest of the environment: cryptographic primitives, hex, the source of randomness and of
  Unix time, and writing to or reading from a connected upstream. \<open>flight_op\<close> yields what the peer sends
  until it closes or the reader has what it needs.\<close>

record ('w, 'st, 'ws) proxy_env = "('w, 'st, 'ws) pool_env" +
  p_prims :: prims
  p_hex :: hex_crate
  random_op :: "('w, bytes) prim"
  unix_time :: "nat \<Rightarrow> u32"
  write_op :: "'st \<Rightarrow> bytes \<Rightarrow> ('w, string + unit) prim"
  flight_op :: "'st \<Rightarrow> ('w, bytes) prim"

record timeouts =
  t_ws_connect :: nat
  t_ws_fail_probe :: nat
  t_ws_fail_cooldown :: nat
  t_ws_redirect_cooldown :: nat
  t_ip_fail_cooldown :: nat
  t_handshake :: nat
  t_tcp_fallback :: nat
  t_upstream_connect :: nat
  t_upstream_fail_cooldown :: nat
  t_cf_connect :: nat
  t_cf_fail_cooldown :: nat
  t_fronting_fail_cooldown :: nat

definition timeouts_from_config :: "config \<Rightarrow> timeouts" where
  "timeouts_from_config c =
     \<lparr>t_ws_connect = from_secs (c_ws_connect_timeout c),
      t_ws_fail_probe = from_secs (c_ws_fail_probe_timeout c),
      t_ws_fail_cooldown = from_secs (c_ws_fail_cooldown c),
      t_ws_redirect_cooldown = from_secs (c_ws_redirect_cooldown c),
      t_ip_fail_cooldown = from_secs (c_ip_fail_cooldown c),
      t_handshake = from_secs (c_handshake_timeout c),
      t_tcp_fallback = from_secs (c_tcp_fallback_timeout c),
      t_upstream_connect = from_secs (c_upstream_connect_timeout c),
      t_upstream_fail_cooldown = from_secs (c_upstream_fail_cooldown c),
      t_cf_connect = from_secs (c_cf_connect_timeout c),
      t_cf_fail_cooldown = from_secs (c_cf_fail_cooldown c),
      t_fronting_fail_cooldown = from_secs (c_fronting_fail_cooldown c)\<rparr>"

record 'st upstream_connection =
  uc_stream :: 'st
  uc_pending :: bytes \<comment> \<open>received after the fake handshake\<close>
  uc_enc :: aes_ctr256
  uc_dec :: aes_ctr256
  uc_faketls :: bool

datatype ws_framing = Packets | Tunnel

datatype ('st, 'ws) upstream =
  UpstreamWs 'ws ws_framing | UpstreamMtproto "'st upstream_connection" | UpstreamTcp string

record route =
  rt_config :: config
  rt_timeouts :: timeouts
  rt_dc :: u32
  rt_is_media :: bool
  rt_dc_idx :: i16
  rt_proto :: proto_tag

definition route_key :: "route \<Rightarrow> dc_key" where
  "route_key R = (rt_dc R, rt_is_media R)"

definition upstream_key :: "string \<Rightarrow> u16 \<Rightarrow> string" where
  "upstream_key host port = host @ '':'' @ decimal (unat port)"

section \<open>Cloudflare rungs\<close>

definition cf_target ::
  "route \<Rightarrow> cf_tier \<Rightarrow> string \<Rightarrow> string \<Rightarrow> string list \<Rightarrow> usize \<Rightarrow> cf_target \<times> usize" where
  "cf_target R tier dst domain rotation counter =
     (let b = balanced rotation counter;
          r = (if c_cf_balance (rt_config R)
               then ((case fst b of d # _ \<Rightarrow> d | [] \<Rightarrow> domain), snd b)
               else (domain, counter))
      in (\<lparr>ct_tier = tier, ct_dc = rt_dc R, ct_is_media = rt_is_media R, ct_dst = dst, ct_domain = fst r,
           ct_skip_tls_verify = c_skip_tls_verify (rt_config R),
           ct_connect_timeout = t_cf_connect (rt_timeouts R)\<rparr>, snd r))"

definition has_fallback :: "route \<Rightarrow> bool" where
  "has_fallback R \<longleftrightarrow>
     c_cf_worker_domains (rt_config R) \<noteq> [] \<or> c_cf_domains (rt_config R) \<noteq> [] \<or> c_mtproto_proxies (rt_config R) \<noteq> []"

definition worker_connected ::
  "route \<Rightarrow> string \<Rightarrow> string \<Rightarrow> ('w, 'ws, 'b) proxy_state_scheme \<Rightarrow> ('w, 'ws, 'b) proxy_state_scheme" where
  "worker_connected R dst domain s =
     (let s1 = s\<lparr>cf_worker_fail := cooldown_clear domain (cf_worker_fail s)\<rparr>;
          t = cf_target R Worker dst domain (c_cf_worker_domains (rt_config R)) (cf_worker_balance_counter s1)
      in cf_prefetch (fst t) (s1\<lparr>cf_worker_balance_counter := snd t\<rparr>))"

definition worker_failed ::
  "route \<Rightarrow> string \<Rightarrow> ('w, 'ws, 'b) proxy_state_scheme \<Rightarrow> ('w, 'ws, 'b) proxy_state_scheme" where
  "worker_failed R domain s =
     s\<lparr>cf_worker_fail := cooldown_set (clock s) domain (t_cf_fail_cooldown (rt_timeouts R)) (cf_worker_fail s)\<rparr>"

fun worker_loop ::
  "('w, 'st, 'ws, 'x) proxy_env_scheme \<Rightarrow> route \<Rightarrow> string \<Rightarrow> string list
   \<Rightarrow> (('w, 'ws, 'b) proxy_state_scheme, 'ws option) io" where
  "worker_loop E R dst [] = io_return None"
| "worker_loop E R dst (domain # rest) =
     io_bind (io_get (\<lambda>s. cooldown_active (clock s) domain (cf_worker_fail s))) (\<lambda>cooling.
       if cooling then worker_loop E R dst rest
       else
         io_bind (connect_cf_worker_ws_for_dc_with_outbound E domain dst (rt_dc R) (rt_is_media R)
             (c_skip_tls_verify (rt_config R)) (t_cf_connect (rt_timeouts R))) (\<lambda>ws.
           case ws of
             Some ws \<Rightarrow> io_bind (io_update (worker_connected R dst domain)) (\<lambda>_. io_return (Some ws))
           | None \<Rightarrow> io_bind (io_update (worker_failed R domain)) (\<lambda>_. worker_loop E R dst rest)))"

text \<open>Drawing the next rotation of a counter held in the state.\<close>

definition rotate_workers :: "route \<Rightarrow> (('w, 'ws, 'b) proxy_state_scheme, string list) io" where
  "rotate_workers R s =
     (let b = balance_order (c_cf_worker_domains (rt_config R)) (c_cf_balance (rt_config R)) (cf_worker_balance_counter s)
      in (Some (fst b), s\<lparr>cf_worker_balance_counter := snd b\<rparr>))"

definition rotate_domains :: "route \<Rightarrow> (('w, 'ws, 'b) proxy_state_scheme, string list) io" where
  "rotate_domains R s =
     (let b = balance_order (c_cf_domains (rt_config R)) (c_cf_balance (rt_config R)) (cf_balance_counter s)
      in (Some (fst b), s\<lparr>cf_balance_counter := snd b\<rparr>))"

definition cf_worker ::
  "('w, 'st, 'ws, 'x) proxy_env_scheme \<Rightarrow> route \<Rightarrow> string \<Rightarrow> (('w, 'ws, 'b) proxy_state_scheme, 'ws option) io" where
  "cf_worker E R dst0 =
     (if c_cf_worker_domains (rt_config R) = [] then io_return None
      else
        let dst = (case fallback_ip (rt_dc R) of Some ip \<Rightarrow> ip | None \<Rightarrow> dst0) in
        io_bind (cf_get E Worker (rt_dc R) (rt_is_media R)) (\<lambda>hit.
          case hit of
            Some (ws, domain) \<Rightarrow> io_return (Some ws)
          | None \<Rightarrow> io_bind (rotate_workers R) (\<lambda>workers. worker_loop E R dst workers)))"

definition proxy_connected ::
  "route \<Rightarrow> string \<Rightarrow> ('w, 'ws, 'b) proxy_state_scheme \<Rightarrow> ('w, 'ws, 'b) proxy_state_scheme" where
  "proxy_connected R domain s =
     (let t = cf_target R Proxy [] domain (c_cf_domains (rt_config R)) (cf_balance_counter s)
      in cf_prefetch (fst t) (s\<lparr>cf_balance_counter := snd t\<rparr>))"

definition cf_proxy ::
  "('w, 'st, 'ws, 'x) proxy_env_scheme \<Rightarrow> route \<Rightarrow> (('w, 'ws, 'b) proxy_state_scheme, 'ws option) io" where
  "cf_proxy E R =
     (if c_cf_domains (rt_config R) = [] then io_return None
      else
        io_bind (rotate_domains R) (\<lambda>cf_domains.
        io_bind (cf_get E Proxy (rt_dc R) (rt_is_media R)) (\<lambda>hit.
          case hit of
            Some (ws, domain) \<Rightarrow> io_return (Some ws)
          | None \<Rightarrow>
              io_bind (connect_cf_ws_for_dc_with_outbound E (rt_dc R) cf_domains (rt_is_media R)
                  (c_skip_tls_verify (rt_config R)) (t_cf_connect (rt_timeouts R))) (\<lambda>r.
                case (fst r, fst (snd r)) of
                  (Some ws, Some domain) \<Rightarrow>
                    io_bind (io_update (proxy_connected R domain)) (\<lambda>_. io_return (Some ws))
                | (ws, _) \<Rightarrow> io_return ws))))"

definition cf_tiers ::
  "('w, 'st, 'ws, 'x) proxy_env_scheme \<Rightarrow> route \<Rightarrow> string
   \<Rightarrow> (('w, 'ws, 'b) proxy_state_scheme, ('st, 'ws) upstream option) io" where
  "cf_tiers E R dst =
     io_bind (cf_worker E R dst) (\<lambda>w.
       case w of
         Some ws \<Rightarrow> io_return (Some (UpstreamWs ws Tunnel))
       | None \<Rightarrow> io_bind (cf_proxy E R) (\<lambda>p. io_return (map_option (\<lambda>ws. UpstreamWs ws Packets) p)))"

section \<open>Upstream MTProto proxies\<close>

text \<open>A panic ends the task: the operation does not return.\<close>

definition io_run :: "'a run \<Rightarrow> ('s, 'a) io" where
  "io_run r s = (case r of Done x \<Rightarrow> (Some x, s) | _ \<Rightarrow> (None, s))"

lemma io_run_Some: "io_run r s = (Some x, t) \<longleftrightarrow> r = Done x \<and> t = s"
  by (cases r) (auto simp: io_run_def)

text \<open>\<open>write_tls_appdata\<close> to a peer: a header and a chunk per record, stopping at the first error.\<close>

fun write_records ::
  "('w, 'st, 'ws, 'x) proxy_env_scheme \<Rightarrow> 'st \<Rightarrow> bytes list \<Rightarrow> (('w, 'b) sys_scheme, string + unit) io" where
  "write_records E st [] = io_return (Inr ())"
| "write_records E st (c # cs) =
     io_result (\<lambda>e. e) (perform (write_op E st (appdata_header (length c)))) (\<lambda>_.
     io_result (\<lambda>e. e) (perform (write_op E st c)) (\<lambda>_. write_records E st cs))"

definition connect_mtproto_upstream ::
  "('w, 'st, 'ws, 'x) proxy_env_scheme \<Rightarrow> string \<Rightarrow> u16 \<Rightarrow> string \<Rightarrow> i16 \<Rightarrow> proto_tag \<Rightarrow> nat
   \<Rightarrow> (('w, 'b) sys_scheme, 'st upstream_connection option) io" where
  "connect_mtproto_upstream E host port secret_hex dc_idx proto limit =
     (case hex_decode (p_hex E) secret_hex of
        None \<Rightarrow> io_return None
      | Some secret \<Rightarrow>
          let key_bytes = secret_key secret in
          io_bind (outbound_connect E (e_crates E) (e_outbound E) host port limit) (\<lambda>conn.
          case conn of
            Inl e \<Rightarrow> io_return None
          | Inr stream \<Rightarrow>
              io_bind (perform (random_op E)) (\<lambda>rng.
              io_bind (io_run (generate_client_handshake (p_prims E) key_bytes dc_idx proto rng)) (\<lambda>g.
              let handshake = fst (fst g); enc = fst (snd (fst g)); dec = snd (snd (fst g)) in
              case faketls_hostname secret of
                None \<Rightarrow>
                  io_bind (perform (write_op E stream handshake)) (\<lambda>w.
                    case w of
                      Inl e \<Rightarrow> io_return None
                    | Inr _ \<Rightarrow> io_return (Some \<lparr>uc_stream = stream, uc_pending = [], uc_enc = enc,
                        uc_dec = dec, uc_faketls = False\<rparr>))
              | Some host_bytes \<Rightarrow>
                  (case from_utf8 host_bytes of
                     None \<Rightarrow> io_return None
                   | Some hostname \<Rightarrow>
                       io_bind (io_run (build_faketls_client_hello hostname (snd g))) (\<lambda>hello.
                       io_bind (io_get (\<lambda>s. unix_time E (clock s))) (\<lambda>now.
                       io_bind (io_run (sign_faketls_client_hello (p_prims E) now (fst hello) key_bytes)) (\<lambda>signed.
                       io_bind (perform (write_op E stream signed)) (\<lambda>w.
                         case w of
                           Inl e \<Rightarrow> io_return None
                         | Inr _ \<Rightarrow>
                             io_bind (perform (flight_op E stream)) (\<lambda>input.
                               let d = drain_faketls_server_hello input in
                               if \<not> fst d then io_return None
                               else
                                 io_bind (write_records E stream (chunks TLS_MAX_APPDATA_WRITE handshake)) (\<lambda>w.
                                   case w of
                                     Inl e \<Rightarrow> io_return None
                                   | Inr _ \<Rightarrow> io_return (Some \<lparr>uc_stream = stream, uc_pending = snd d,
                                       uc_enc = enc, uc_dec = dec, uc_faketls = True\<rparr>))))))))))))"

fun upstream_loop ::
  "('w, 'st, 'ws, 'x) proxy_env_scheme \<Rightarrow> route \<Rightarrow> mtproto_proxy list
   \<Rightarrow> (('w, 'ws, 'b) proxy_state_scheme, 'st upstream_connection option) io" where
  "upstream_loop E R [] = io_return None"
| "upstream_loop E R (u # rest) =
     (let key = upstream_key (mp_host u) (mp_port u) in
      io_bind (io_get (\<lambda>s. cooldown_active (clock s) key (upstream_fail s))) (\<lambda>cooling.
        if cooling then upstream_loop E R rest
        else
          io_bind (connect_mtproto_upstream E (mp_host u) (mp_port u) (mp_secret u) (rt_dc_idx R) (rt_proto R)
              (t_upstream_connect (rt_timeouts R))) (\<lambda>conn.
            case conn of
              Some conn \<Rightarrow>
                io_bind (io_update (\<lambda>s. s\<lparr>upstream_fail := cooldown_clear key (upstream_fail s)\<rparr>))
                  (\<lambda>_. io_return (Some conn))
            | None \<Rightarrow>
                io_bind (io_update (\<lambda>s. s\<lparr>upstream_fail :=
                    cooldown_set (clock s) key (t_upstream_fail_cooldown (rt_timeouts R)) (upstream_fail s)\<rparr>))
                  (\<lambda>_. upstream_loop E R rest))))"

definition upstream_proxies ::
  "('w, 'st, 'ws, 'x) proxy_env_scheme \<Rightarrow> route
   \<Rightarrow> (('w, 'ws, 'b) proxy_state_scheme, 'st upstream_connection option) io" where
  "upstream_proxies E R = upstream_loop E R (c_mtproto_proxies (rt_config R))"

definition fallback_chain ::
  "('w, 'st, 'ws, 'x) proxy_env_scheme \<Rightarrow> route \<Rightarrow> string \<Rightarrow> bool
   \<Rightarrow> (('w, 'ws, 'b) proxy_state_scheme, ('st, 'ws) upstream option) io" where
  "fallback_chain E R dst skip_cf =
     io_bind (if skip_cf then io_return None else cf_tiers E R dst) (\<lambda>u.
       case u of
         Some upstream \<Rightarrow> io_return (Some upstream)
       | None \<Rightarrow> io_bind (upstream_proxies E R) (\<lambda>c. io_return (map_option UpstreamMtproto c)))"

section \<open>The direct WebSocket\<close>

definition route_connect_ws ::
  "('w, 'st, 'ws, 'x) proxy_env_scheme \<Rightarrow> route \<Rightarrow> string \<Rightarrow> string option
   \<Rightarrow> (('w, 'ws, 'b) proxy_state_scheme, 'ws ws_attempt) io" where
  "route_connect_ws E R target_ip sni_override =
     io_bind (io_get (\<lambda>s. if cooldown_active (clock s) (route_key R) (ws_fail s)
         then t_ws_fail_probe (rt_timeouts R) else t_ws_connect (rt_timeouts R))) (\<lambda>limit.
       connect_ws_for_dc_with_outbound E target_ip (websocket_dc (rt_dc R)) (rt_is_media R)
         (c_skip_tls_verify (rt_config R)) limit sni_override)"

definition on_fronting_success ::
  "('w, 'st, 'ws, 'x) proxy_env_scheme \<Rightarrow> route \<Rightarrow> ('w, 'ws, 'b) proxy_state_scheme \<Rightarrow> ('w, 'ws, 'b) proxy_state_scheme" where
  "on_fronting_success E R s =
     activate_fronting E (s\<lparr>fronting_fail := cooldown_clear (route_key R) (fronting_fail s)\<rparr>)"

definition fronting_failed ::
  "route \<Rightarrow> ('w, 'ws, 'b) proxy_state_scheme \<Rightarrow> ('w, 'ws, 'b) proxy_state_scheme" where
  "fronting_failed R s =
     s\<lparr>fronting_fail := cooldown_set (clock s) (route_key R) (t_fronting_fail_cooldown (rt_timeouts R)) (fronting_fail s)\<rparr>"

definition reactive_fronting ::
  "('w, 'st, 'ws, 'x) proxy_env_scheme \<Rightarrow> route \<Rightarrow> string \<Rightarrow> bool
   \<Rightarrow> (('w, 'ws, 'b) proxy_state_scheme, 'ws option) io" where
  "reactive_fronting E R target_ip upgrade_timed_out =
     io_bind (io_get (\<lambda>s. cooldown_active (clock s) (route_key R) (fronting_fail s))) (\<lambda>cooling.
       if \<not> upgrade_timed_out \<or> cooling then io_return None
       else
         case r_fronting_domain E of
           None \<Rightarrow> io_return None
         | Some domain \<Rightarrow>
             io_bind (route_connect_ws E R target_ip (Some domain)) (\<lambda>a.
               case wa_ws a of
                 Some ws \<Rightarrow> io_bind (io_update (on_fronting_success E R)) (\<lambda>_. io_return (Some ws))
               | None \<Rightarrow> io_bind (io_update (fronting_failed R)) (\<lambda>_. io_return None)))"

definition cool_down_ws ::
  "route \<Rightarrow> bool \<Rightarrow> ('w, 'ws, 'b) proxy_state_scheme \<Rightarrow> ('w, 'ws, 'b) proxy_state_scheme" where
  "cool_down_ws R all_redirects s =
     s\<lparr>ws_fail := cooldown_set (clock s) (route_key R)
        (if all_redirects then t_ws_redirect_cooldown (rt_timeouts R) else t_ws_fail_cooldown (rt_timeouts R))
        (ws_fail s)\<rparr>"

definition cool_down_ip ::
  "route \<Rightarrow> string \<Rightarrow> ('w, 'ws, 'b) proxy_state_scheme \<Rightarrow> ('w, 'ws, 'b) proxy_state_scheme" where
  "cool_down_ip R target_ip s =
     s\<lparr>ip_fail := cooldown_set (clock s) target_ip (t_ip_fail_cooldown (rt_timeouts R)) (ip_fail s)\<rparr>"

text \<open>The end of a failed direct attempt.\<close>

definition direct_failed ::
  "route \<Rightarrow> string \<Rightarrow> 'ws ws_attempt \<Rightarrow> bool \<Rightarrow> ('w, 'ws, 'b) proxy_state_scheme \<Rightarrow> ('w, 'ws, 'b) proxy_state_scheme" where
  "direct_failed R target_ip a probing s =
     (let s1 = cool_down_ws R (wa_all_redirects a) s in
      if wa_connect_timed_out a \<and> \<not> probing then cool_down_ip R target_ip s1 else s1)"

definition direct_connected ::
  "route \<Rightarrow> string \<Rightarrow> ('w, 'ws, 'b) proxy_state_scheme \<Rightarrow> ('w, 'ws, 'b) proxy_state_scheme" where
  "direct_connected R target_ip s =
     s\<lparr>ws_fail := cooldown_clear (route_key R) (ws_fail s), ip_fail := cooldown_clear target_ip (ip_fail s)\<rparr>"

definition direct_ws ::
  "('w, 'st, 'ws, 'x) proxy_env_scheme \<Rightarrow> route \<Rightarrow> string \<Rightarrow> (('w, 'ws, 'b) proxy_state_scheme, 'ws option) io" where
  "direct_ws E R target_ip =
     io_bind (io_get (sticky_fronting E)) (\<lambda>sticky.
     io_bind (io_get (\<lambda>s. cooldown_active (clock s) (route_key R) (ws_fail s))) (\<lambda>probing.
     io_bind (route_connect_ws E R target_ip sticky) (\<lambda>a.
       let give_up = io_bind (io_update (direct_failed R target_ip a probing)) (\<lambda>_. io_return None) in
       case sticky of
         Some domain \<Rightarrow>
           (case wa_ws a of
              Some ws \<Rightarrow> io_bind (io_update (on_fronting_success E R)) (\<lambda>_. io_return (Some ws))
            | None \<Rightarrow> io_bind (io_update (\<lambda>s. fronting_failed R (deactivate_fronting s))) (\<lambda>_. give_up))
       | None \<Rightarrow>
           (case wa_ws a of
              Some ws \<Rightarrow> io_bind (io_update (direct_connected R target_ip)) (\<lambda>_. io_return (Some ws))
            | None \<Rightarrow>
                io_bind (reactive_fronting E R target_ip (wa_upgrade_timed_out a)) (\<lambda>f.
                  case f of Some ws \<Rightarrow> io_return (Some ws) | None \<Rightarrow> give_up)))))"

section \<open>The ladder\<close>

definition tcp_fallback :: "string \<Rightarrow> ('st, 'ws) upstream" where
  [simp]: "tcp_fallback dst = UpstreamTcp dst"

definition tcp_last_resort :: "route \<Rightarrow> string \<Rightarrow> ('st, 'ws) upstream" where
  "tcp_last_resort R target_ip =
     tcp_fallback (case fallback_ip (rt_dc R) of Some ip \<Rightarrow> ip | None \<Rightarrow> target_ip)"

definition or_else :: "'u \<Rightarrow> 'u option \<Rightarrow> 'u" where
  "or_else d u = (case u of Some x \<Rightarrow> x | None \<Rightarrow> d)"

definition pool_then_direct ::
  "('w, 'st, 'ws, 'x) proxy_env_scheme \<Rightarrow> route \<Rightarrow> string \<Rightarrow> (('w, 'ws, 'b) proxy_state_scheme, 'ws option) io" where
  "pool_then_direct E R target_ip =
     io_bind (io_get (\<lambda>s. \<not> cooldown_active (clock s) target_ip (ip_fail s))) (\<lambda>allow_refill.
     io_bind (pool_get E (rt_dc R) (rt_is_media R) target_ip (c_skip_tls_verify (rt_config R)) allow_refill) (\<lambda>pooled.
       case pooled of
         Some ws \<Rightarrow> io_return (Some ws)
       | None \<Rightarrow> direct_ws E R target_ip))"

definition select_upstream ::
  "('w, 'st, 'ws, 'x) proxy_env_scheme \<Rightarrow> route \<Rightarrow> string option
   \<Rightarrow> (('w, 'ws, 'b) proxy_state_scheme, ('st, 'ws) upstream option) io" where
  "select_upstream E R target =
     (case target of
        None \<Rightarrow>
          (case fallback_ip (rt_dc R) of
             None \<Rightarrow> io_return None
           | Some fallback \<Rightarrow>
               io_bind (fallback_chain E R fallback False)
                 (\<lambda>u. io_return (Some (or_else (tcp_fallback fallback) u))))
      | Some target_ip \<Rightarrow>
          let cf_priority = c_cf_priority (rt_config R) in
          io_bind (if cf_priority then cf_tiers E R target_ip else io_return None) (\<lambda>early.
          case early of
            Some upstream \<Rightarrow> io_return (Some upstream)
          | None \<Rightarrow>
              io_bind (io_get (\<lambda>s. cooldown_active (clock s) target_ip (ip_fail s) \<and> has_fallback R)) (\<lambda>ip_cooling.
              io_bind (if ip_cooling then fallback_chain E R target_ip cf_priority else io_return None) (\<lambda>skipped.
              case skipped of
                Some upstream \<Rightarrow> io_return (Some upstream)
              | None \<Rightarrow>
                  io_bind (pool_then_direct E R target_ip) (\<lambda>ws.
                  case ws of
                    Some ws \<Rightarrow> io_return (Some (UpstreamWs ws Packets))
                  | None \<Rightarrow>
                      if ip_cooling then io_return (Some (tcp_last_resort R target_ip))
                      else
                        io_bind (fallback_chain E R target_ip cf_priority)
                          (\<lambda>u. io_return (Some (or_else (tcp_last_resort R target_ip) u)))))))) "

section \<open>Time bounds\<close>

lemma clock_updates [simp]:
  "clock (worker_connected R dst d s) = clock s" "clock (worker_failed R d s) = clock s"
  "clock (proxy_connected R d s) = clock s" "clock (on_fronting_success E R s) = clock s"
  "clock (fronting_failed R s) = clock s" "clock (direct_failed R ip a p s) = clock s"
  "clock (direct_connected R ip s) = clock s"
  by (simp_all add: worker_connected_def worker_failed_def proxy_connected_def on_fronting_success_def
      fronting_failed_def direct_failed_def direct_connected_def cool_down_ws_def cool_down_ip_def
      cf_prefetch_def Let_def)

lemma within_pool_ops:
  "returns_within 0 (pool_get E dc m ip skip allow)" "returns_within 0 (cf_get E tier dc m)"
  "returns_within 0 (rotate_workers R)" "returns_within 0 (rotate_domains R)"
  by (auto simp: returns_within_def pool_get_def cf_get_def cf_prefetch_def rotate_workers_def rotate_domains_def
      Let_def split: option.splits)

lemma within_worker_connect:
  "returns_within (2 * limit) (connect_cf_worker_ws_for_dc_with_outbound E d dst dc m skip limit)"
  unfolding connect_cf_worker_ws_for_dc_with_outbound_def
  by (rule within_bind_ret [OF within_connect_path [of limit, folded mult_2]])
     (auto intro: within_ret split: ws_connect_result.split)

lemma within_worker_loop:
  fixes E :: "('w, 'st, 'ws, 'x) proxy_env_scheme"
  shows "returns_within (length ds * (2 * t_cf_connect (rt_timeouts R)))
    (worker_loop E R dst ds :: (('w, 'ws, 'b) proxy_state_scheme, 'ws option) io)"
proof (induction ds)
  case Nil
  then show ?case by (simp add: within_ret)
next
  case (Cons d ds)
  let ?n = "length ds * (2 * t_cf_connect (rt_timeouts R))" and ?t = "2 * t_cf_connect (rt_timeouts R)"
  have "returns_within ?n (case ws of
      Some ws \<Rightarrow> io_bind (io_update (worker_connected R dst d)) (\<lambda>_. io_return (Some ws))
    | None \<Rightarrow> io_bind (io_update (worker_failed R d)) (\<lambda>_. worker_loop E R dst ds
        :: (('w, 'ws, 'b) proxy_state_scheme, 'ws option) io))" for ws
    by (auto intro!: within_bind0 within_update within_ret Cons.IH split: option.split)
  then have "returns_within (?t + ?n) (worker_loop E R dst (d # ds)
      :: (('w, 'ws, 'b) proxy_state_scheme, 'ws option) io)"
    unfolding worker_loop.simps
    by (intro within_bind0 within_get within_if within_bind within_worker_connect within_mono [OF Cons.IH])
       simp_all
  then show ?case by (simp add: algebra_simps)
qed

definition plain_domains :: "route \<Rightarrow> bool" where
  "plain_domains R \<longleftrightarrow> (\<forall>d \<in> set (c_cf_domains (rt_config R)). \<not> contains_str ''-1.'' d)"

definition cf_time :: "route \<Rightarrow> nat" where
  "cf_time R = t_cf_connect (rt_timeouts R) *
     (2 * length (c_cf_worker_domains (rt_config R)) + 6 * length (c_cf_domains (rt_config R)))"

definition ws_time :: "route \<Rightarrow> nat" where
  "ws_time R = 4 * max (t_ws_connect (rt_timeouts R)) (t_ws_fail_probe (rt_timeouts R))"

lemma yields_rotations:
  "yields (rotate_workers R) ds \<Longrightarrow> length ds = length (c_cf_worker_domains (rt_config R))"
  "yields (rotate_domains R) ds \<Longrightarrow>
     length ds = length (c_cf_domains (rt_config R)) \<and> set ds = set (c_cf_domains (rt_config R))"
  by (auto simp: yields_def rotate_workers_def rotate_domains_def Let_def)

lemma within_rotated_workers:
  assumes "yields (rotate_workers R :: (('w, 'ws, 'b) proxy_state_scheme, string list) io) ds"
  shows "returns_within (length (c_cf_worker_domains (rt_config R)) * (2 * t_cf_connect (rt_timeouts R)))
    (worker_loop E R dst ds)"
  unfolding yields_rotations(1) [OF assms, symmetric] by (rule within_worker_loop)

lemma within_cf_worker:
  "returns_within (length (c_cf_worker_domains (rt_config R)) * (2 * t_cf_connect (rt_timeouts R))) (cf_worker E R dst)"
  unfolding cf_worker_def Let_def
  by (auto intro!: within_if within_ret within_bind0 within_pool_ops within_rotated_workers split: option.split)

lemma within_rotated_domains:
  assumes "plain_domains R" "yields (rotate_domains R :: (('w, 'ws, 'b) proxy_state_scheme, string list) io) ds"
  shows "returns_within (length (c_cf_domains (rt_config R)) * (6 * t_cf_connect (rt_timeouts R)))
    (connect_cf_ws_for_dc_with_outbound E dc ds m skip (t_cf_connect (rt_timeouts R)))"
proof -
  have l: "length ds = length (c_cf_domains (rt_config R))" "set ds = set (c_cf_domains (rt_config R))"
    using yields_rotations(2) [OF assms(2)] by simp_all
  show ?thesis
    unfolding l(1) [symmetric] by (rule within_cf_connect) (use assms(1) l(2) in \<open>simp add: plain_domains_def\<close>)
qed

lemma within_update0: "(\<And>s. clock (f s) = clock s) \<Longrightarrow> returns_within n (io_update f)"
  by (rule within_mono [OF within_update]) simp_all

lemma within_cf_proxy:
  assumes "plain_domains R"
  shows "returns_within (length (c_cf_domains (rt_config R)) * (6 * t_cf_connect (rt_timeouts R))) (cf_proxy E R)"
proof -
  have e: "returns_within 0
      (case (fst r, fst (snd r)) of
         (Some ws, Some domain) \<Rightarrow> io_bind (io_update (proxy_connected R domain)) (\<lambda>_. io_return (Some ws))
       | (ws, _) \<Rightarrow> io_return ws)" for r :: "'ws option \<times> string option \<times> bool"
    by (auto intro!: within_bind0 within_update within_ret split: option.split)
  show ?thesis
    unfolding cf_proxy_def
    apply (rule within_if, rule within_ret, rule within_bind0, rule within_pool_ops, rule within_bind0, rule within_pool_ops)
    apply (rule within_case_option)
     apply (rule within_bind_ret, rule within_rotated_domains [OF assms], assumption, rule e)
    apply (auto intro: within_ret)
    done
qed

lemma within_cf_tiers:
  assumes "plain_domains R"
  shows "returns_within (cf_time R) (cf_tiers E R dst)"
proof -
  have "returns_within (length (c_cf_worker_domains (rt_config R)) * (2 * t_cf_connect (rt_timeouts R))
      + length (c_cf_domains (rt_config R)) * (6 * t_cf_connect (rt_timeouts R))) (cf_tiers E R dst)"
    unfolding cf_tiers_def
    by (intro within_bind within_cf_worker within_case_option within_bind_ret within_cf_proxy [OF assms] within_ret)
  then show ?thesis by (simp add: cf_time_def algebra_simps)
qed

text \<open>One attempt at an upstream proxy. The code bounds only its TCP connect, so how long an attempt takes is up to the peer.\<close>

abbreviation dial_upstream ::
  "('w, 'st, 'ws, 'x) proxy_env_scheme \<Rightarrow> route \<Rightarrow> mtproto_proxy
   \<Rightarrow> (('w, 'ws, 'b) proxy_state_scheme, 'st upstream_connection option) io" where
  "dial_upstream E R u \<equiv> connect_mtproto_upstream E (mp_host u) (mp_port u) (mp_secret u) (rt_dc_idx R) (rt_proto R)
     (t_upstream_connect (rt_timeouts R))"

lemma within_upstream_loop:
  fixes E :: "('w, 'st, 'ws, 'x) proxy_env_scheme"
  assumes "\<forall>u \<in> set us. returns_within k (dial_upstream E R u :: (('w, 'ws, 'b) proxy_state_scheme, _) io)"
  shows "returns_within (length us * k) (upstream_loop E R us :: (('w, 'ws, 'b) proxy_state_scheme, _) io)"
  using assms
proof (induction us)
  case Nil
  show ?case by (simp add: within_ret)
next
  case (Cons u us)
  then have ih: "returns_within (length us * k) (upstream_loop E R us :: (('w, 'ws, 'b) proxy_state_scheme, _) io)"
    and u: "returns_within k (dial_upstream E R u :: (('w, 'ws, 'b) proxy_state_scheme, _) io)" by simp_all
  have "returns_within (k + length us * k) (upstream_loop E R (u # us) :: (('w, 'ws, 'b) proxy_state_scheme, _) io)"
    unfolding upstream_loop.simps Let_def
    by (intro within_bind0 within_get within_if within_mono [OF ih] within_bind [OF u] within_case_option within_update
        within_ret) simp_all
  then show ?case by simp
qed

definition upstream_time :: "nat \<Rightarrow> route \<Rightarrow> nat" where
  "upstream_time k R = length (c_mtproto_proxies (rt_config R)) * k"

lemma within_chain:
  fixes E :: "('w, 'st, 'ws, 'x) proxy_env_scheme"
  assumes "plain_domains R"
    and "\<forall>u \<in> set (c_mtproto_proxies (rt_config R)).
      returns_within k (dial_upstream E R u :: (('w, 'ws, 'b) proxy_state_scheme, _) io)"
  shows "returns_within (cf_time R + upstream_time k R) (fallback_chain E R dst False :: (('w, 'ws, 'b) proxy_state_scheme, _) io)"
    and "returns_within (upstream_time k R) (fallback_chain E R dst True :: (('w, 'ws, 'b) proxy_state_scheme, _) io)"
proof -
  have u: "returns_within (upstream_time k R)
      (io_bind (upstream_proxies E R) (\<lambda>c. io_return (map_option UpstreamMtproto c)) :: (('w, 'ws, 'b) proxy_state_scheme, _) io)"
    unfolding upstream_time_def upstream_proxies_def by (rule within_bind_ret [OF within_upstream_loop [OF assms(2)] within_ret])
  show "returns_within (cf_time R + upstream_time k R) (fallback_chain E R dst False :: (('w, 'ws, 'b) proxy_state_scheme, _) io)"
    unfolding fallback_chain_def if_False
    by (rule within_bind [OF within_cf_tiers [OF assms(1)]], rule within_case_option [OF u within_ret])
  show "returns_within (upstream_time k R) (fallback_chain E R dst True :: (('w, 'ws, 'b) proxy_state_scheme, _) io)"
    unfolding fallback_chain_def if_True
    by (rule within_bind0 [OF within_return], rule within_case_option [OF u within_ret])
qed

lemma within_route_connect: "returns_within (ws_time R) (route_connect_ws E R ip sni)"
  unfolding route_connect_ws_def
  by (rule within_bind0 [OF within_get], rule within_mono [OF within_connect_dc])
     (auto simp: yields_def io_get_def ws_time_def)

lemma within_reactive: "returns_within (ws_time R) (reactive_fronting E R ip b)"
  unfolding reactive_fronting_def
  by (intro within_bind0 within_get within_if within_ret within_case_option within_bind_ret within_route_connect
      within_update clock_updates)

lemma within_direct: "returns_within (2 * ws_time R) (direct_ws E R ip)"
proof -
  have "returns_within (ws_time R + ws_time R) (direct_ws E R ip)"
    unfolding direct_ws_def Let_def
    by (rule within_bind0 [OF within_get], rule within_bind0 [OF within_get], rule within_bind [OF within_route_connect],
        intro within_case_option within_bind0 within_update0 within_ret within_bind_ret within_reactive)
       simp_all
  then show ?thesis by (simp add: mult_2)
qed

lemma within_pool_then_direct: "returns_within (2 * ws_time R) (pool_then_direct E R ip)"
  unfolding pool_then_direct_def
  by (intro within_bind0 within_get within_pool_ops within_case_option within_ret within_direct)

lemma within_select_None:
  fixes E :: "('w, 'st, 'ws, 'x) proxy_env_scheme"
  assumes "plain_domains R"
    and "\<forall>u \<in> set (c_mtproto_proxies (rt_config R)).
      returns_within k (dial_upstream E R u :: (('w, 'ws, 'b) proxy_state_scheme, _) io)"
  shows "returns_within (cf_time R + upstream_time k R) (select_upstream E R None :: (('w, 'ws, 'b) proxy_state_scheme, _) io)"
  unfolding select_upstream_def option.case
  by (intro within_case_option within_ret within_bind_ret within_chain [OF assms])

lemma within_select_priority:
  fixes E :: "('w, 'st, 'ws, 'x) proxy_env_scheme"
  assumes "plain_domains R"
    and "\<forall>u \<in> set (c_mtproto_proxies (rt_config R)).
      returns_within k (dial_upstream E R u :: (('w, 'ws, 'b) proxy_state_scheme, _) io)"
    and "c_cf_priority (rt_config R)"
  shows "returns_within (cf_time R + (2 * ws_time R + upstream_time k R)) (select_upstream E R (Some ip) :: (('w, 'ws, 'b) proxy_state_scheme, _) io)"
proof -
  note chain = within_chain(2) [OF assms(1,2)] and direct = within_pool_then_direct [of R E]
  show ?thesis
    unfolding select_upstream_def Let_def option.case eqTrueI [OF assms(3)] if_True
    apply (rule within_bind [OF within_cf_tiers [OF assms(1)]])
    apply (intro within_case_option within_ret within_bind0 [OF within_get])
    subgoal for _ cooling
      apply (cases cooling; simp only: if_True if_False io_simps option.case)
       apply (subst add.commute, rule within_bind [OF chain])
       apply (intro within_case_option within_ret within_bind_ret [OF direct])
      apply (rule within_bind [OF direct], intro within_case_option within_ret within_bind_ret [OF chain])
      done
    done
qed

lemma within_select_normal:
  fixes E :: "('w, 'st, 'ws, 'x) proxy_env_scheme"
  assumes "plain_domains R"
    and "\<forall>u \<in> set (c_mtproto_proxies (rt_config R)).
      returns_within k (dial_upstream E R u :: (('w, 'ws, 'b) proxy_state_scheme, _) io)"
    and "\<not> c_cf_priority (rt_config R)"
  shows "returns_within (cf_time R + upstream_time k R + 2 * ws_time R) (select_upstream E R (Some ip) :: (('w, 'ws, 'b) proxy_state_scheme, _) io)"
proof -
  have f: "c_cf_priority (rt_config R) = False" using assms(3) by simp
  note chain = within_chain(1) [OF assms(1,2)] and direct = within_pool_then_direct [of R E]
  show ?thesis
    unfolding select_upstream_def Let_def option.case f if_False io_simps(1)
    apply (rule within_bind0 [OF within_get])
    subgoal for cooling
      apply (cases cooling; simp only: if_True if_False io_simps option.case)
       apply (rule within_bind [OF chain], intro within_case_option within_ret within_bind_ret [OF direct])
      apply (subst add.commute, rule within_bind [OF direct], intro within_case_option within_ret within_bind_ret [OF chain])
      done
    done
qed

lemma within_select:
  fixes E :: "('w, 'st, 'ws, 'x) proxy_env_scheme"
  assumes "plain_domains R"
    and "\<forall>u \<in> set (c_mtproto_proxies (rt_config R)).
      returns_within k (dial_upstream E R u :: (('w, 'ws, 'b) proxy_state_scheme, _) io)"
  shows "returns_within (cf_time R + 2 * ws_time R + upstream_time k R) (select_upstream E R target :: (('w, 'ws, 'b) proxy_state_scheme, _) io)"
proof (cases target)
  case None
  show ?thesis unfolding None by (rule within_mono [OF within_select_None [OF assms]]) simp
next
  case (Some ip)
  show ?thesis
    unfolding Some
    by (cases "c_cf_priority (rt_config R)")
       (rule within_mono [OF within_select_priority [OF assms]], simp_all,
        rule within_mono [OF within_select_normal [OF assms]], simp_all)
qed

lemma select_ensures_upstream:
  "ensures (\<lambda>r. r = None \<longleftrightarrow> target = None \<and> fallback_ip (rt_dc R) = None) (select_upstream E R target)"
  unfolding select_upstream_def Let_def
  by (intro ensures_case_option ensures_bind_any ensures_if ensures_return) simp_all

section \<open>What an opened upstream went through\<close>

lemma upstream_opened:
  assumes "connect_mtproto_upstream E host port secret_hex dc_idx proto limit s = (Some (Some conn), t)"
  obtains secret s1 rng d s2 h rest where "hex_decode (p_hex E) secret_hex = Some secret"
    "outbound_connect E (e_crates E) (e_outbound E) host port limit s = (Some (Inr (uc_stream conn)), s1)"
    "random_op E (net s1) = (Some (rng, d), net s2)"
    "generate_client_handshake (p_prims E) (secret_key secret) dc_idx proto rng = Done ((h, uc_enc conn, uc_dec conn), rest)"
    "case faketls_hostname secret of
       None \<Rightarrow> \<not> uc_faketls conn \<and> (\<exists>u. perform (write_op E (uc_stream conn) h) s2 = (Some (Inr u), t))
     | Some host_bytes \<Rightarrow> uc_faketls conn \<and> (\<exists>hostname built hello now u v s3 s4 input.
         from_utf8 host_bytes = Some hostname
         \<and> build_faketls_client_hello hostname rest = Done built
         \<and> sign_faketls_client_hello (p_prims E) now (fst built) (secret_key secret) = Done hello
         \<and> perform (write_op E (uc_stream conn) hello) s2 = (Some (Inr u), s3)
         \<and> perform (flight_op E (uc_stream conn)) s3 = (Some input, s4)
         \<and> drain_faketls_server_hello input = (True, uc_pending conn)
         \<and> write_records E (uc_stream conn) (chunks TLS_MAX_APPDATA_WRITE h) s4 = (Some (Inr v), t))"
proof -
  obtain secret where sec: "hex_decode (p_hex E) secret_hex = Some secret"
    using assms by (cases "hex_decode (p_hex E) secret_hex") (simp_all add: connect_mtproto_upstream_def io_return_Some)
  note run = assms [unfolded connect_mtproto_upstream_def sec option.case Let_def]
  obtain stream s1 s2 rng g where out: "outbound_connect E (e_crates E) (e_outbound E) host port limit s = (Some (Inr stream), s1)"
    and rnd: "perform (random_op E) s1 = (Some rng, s2)"
    and gen: "generate_client_handshake (p_prims E) (secret_key secret) dc_idx proto rng = Done g"
    using run by (auto simp: io_bind_Some io_case_sum_Some io_run_Some)
  obtain h enc dec rest where g: "g = ((h, enc, dec), rest)" by (metis prod.exhaust)
  have d: "\<exists>d. random_op E (net s1) = (Some (rng, d), net s2)" using rnd by (auto simp: perform_Some)
  note run1 = run [unfolded io_bind_def [of "outbound_connect _ _ _ _ _ _"] out prod.case option.case sum.case
      io_bind_def [of "perform (random_op _)"] rnd io_bind_def [of "io_run (generate_client_handshake _ _ _ _ _)"]
      gen io_run_def [of "Done _"] run.case g fst_conv snd_conv]
  show thesis
  proof (cases "faketls_hostname secret")
    case None
    with run1 obtain u where "perform (write_op E stream h) s2 = (Some (Inr u), t)"
        "conn = \<lparr>uc_stream = stream, uc_pending = [], uc_enc = enc, uc_dec = dec, uc_faketls = False\<rparr>"
      by (auto simp: io_bind_Some io_case_sum_Some io_return_Some)
    with None d that [OF sec, of s1 rng _ s2 h rest] out gen g show ?thesis by auto
  next
    case (Some hb)
    show ?thesis
    proof (cases "from_utf8 hb")
      case None
      with Some run1 show ?thesis by (simp add: io_return_Some)
    next
      case (Some hostname)
      note run2 = run1 [unfolded \<open>faketls_hostname secret = Some hb\<close> Some option.case]
      obtain built now hello u s3 input s4 v where
        "build_faketls_client_hello hostname rest = Done built"
        "sign_faketls_client_hello (p_prims E) now (fst built) (secret_key secret) = Done hello"
        "perform (write_op E stream hello) s2 = (Some (Inr u), s3)" "perform (flight_op E stream) s3 = (Some input, s4)"
        "fst (drain_faketls_server_hello input)"
        "write_records E stream (chunks TLS_MAX_APPDATA_WRITE h) s4 = (Some (Inr v), t)"
        "conn = \<lparr>uc_stream = stream, uc_pending = snd (drain_faketls_server_hello input), uc_enc = enc, uc_dec = dec, uc_faketls = True\<rparr>"
        using run2 by (auto simp: io_bind_Some io_case_sum_Some io_run_Some io_return_Some split: if_split_asm)
      with Some \<open>faketls_hostname secret = Some hb\<close> d that [OF sec, of s1 rng _ s2 h rest] out gen g show ?thesis
        by (auto simp: prod_eq_iff)
    qed
  qed
qed

section \<open>Properties\<close>

text \<open>(C12) Routing does not strand a client. Let every configured upstream MTProto proxy be one whose attempt comes back within \<open>k\<close>
  (nothing to ask when none is configured; the code itself bounds only the TCP connect of such an attempt), and the
  Cloudflare zones be names without a \<open>-1.\<close> label. Then walking the ladder comes back, whatever the rest of the network does,
  within one pass over the Cloudflare tiers, two direct attempts and one attempt per upstream proxy; and it yields an
  upstream unless the data centre has neither a \<open>--dc-ip\<close> target nor a built-in address.\<close>

theorem select_upstream_returns:
  fixes E :: "('w, 'st, 'ws, 'x) proxy_env_scheme" and s :: "('w, 'ws, 'b) proxy_state_scheme"
  assumes "\<forall>u \<in> set (c_mtproto_proxies (rt_config R)).
      returns_within k (dial_upstream E R u :: (('w, 'ws, 'b) proxy_state_scheme, 'st upstream_connection option) io)"
    and "plain_domains R"
  shows "\<exists>r t. select_upstream E R target s = (Some r, t)
    \<and> clock t \<le> clock s + (cf_time R + 2 * ws_time R + upstream_time k R)
    \<and> (r = None \<longleftrightarrow> target = None \<and> fallback_ip (rt_dc R) = None)"
proof -
  obtain r t where "select_upstream E R target s = (Some r, t)"
      "clock t \<le> clock s + (cf_time R + 2 * ws_time R + upstream_time k R)"
    using within_Some [OF within_select [OF assms(2,1)]] by blast
  then show ?thesis using ensuresD [OF select_ensures_upstream] by blast
qed

definition example_route :: route where
  "example_route =
     (let c = example_config\<lparr>c_cf_domains := [''a.org''], c_cf_worker_domains := [''w.dev'']\<rparr> in
      \<lparr>rt_config = c, rt_timeouts = timeouts_from_config c, rt_dc = 2, rt_is_media = False, rt_dc_idx = 2,
       rt_proto = Abridged\<rparr>)"

definition example_proxy :: "(string list, unit, unit) proxy_env" where
  "example_proxy =
     pool_env.extend example_pool (proxy_env.fields example_prims lower_hex (\<lambda>w. (Some (replicate 200 1, 0), w))
       (\<lambda>c. of_nat (c div 1000)) (\<lambda>st d w. (Some (Inr (), 0), w)) (\<lambda>st w. (None, w)))"

definition fresh_proxy :: "(string list, unit) proxy_state" where
  "fresh_proxy = pool_state.extend empty_pool
     (proxy_state.fields cooldown_new cooldown_new cooldown_new cooldown_new cooldown_new 0 0)"

text \<open>A network that refuses every connection, and an upstream proxy whose attempts therefore end at once.\<close>

lemma example_proxy_refuses:
  "returns_within 0 (connect_mtproto_upstream example_proxy host port secret dc_idx proto limit)"
  by (auto simp: returns_within_def connect_mtproto_upstream_def outbound_connect_def connect_direct_def connect_tcp_def
      outbound_direct_def io_result_def io_bind_def io_return_def perform_def timeout_def classify_connect_def example_proxy_def
      example_pool_def refusing_def with_runtime_def runtime_new_def pool_env.extend_def rt_env.extend_def env.extend_def
      pool_env.fields_def proxy_env.fields_def Let_def split: option.split)

theorem select_upstream_returns_witness:
  "\<exists>u t. select_upstream example_proxy
     (example_route\<lparr>rt_config := (rt_config example_route)\<lparr>c_mtproto_proxies := [\<lparr>mp_host = ''up'', mp_port = 443, mp_secret = ''00''\<rparr>]\<rparr>\<rparr>)
     (Some ''1.2.3.4'') fresh_proxy = (Some (Some u), t)"
proof -
  let ?R = "example_route\<lparr>rt_config := (rt_config example_route)\<lparr>c_mtproto_proxies := [\<lparr>mp_host = ''up'', mp_port = 443, mp_secret = ''00''\<rparr>]\<rparr>\<rparr>"
  have "\<not> contains_str ''-1.'' ''a.org''" by code_simp
  then have "plain_domains ?R" by (simp add: plain_domains_def example_route_def Let_def)
  moreover have "\<forall>u \<in> set (c_mtproto_proxies (rt_config ?R)). returns_within 0 (dial_upstream example_proxy ?R u)"
    by (simp add: example_proxy_refuses)
  ultimately show ?thesis
    using select_upstream_returns [of ?R 0 example_proxy "Some ''1.2.3.4''" fresh_proxy] by auto
qed

definition untunnelled :: "('st, 'ws) upstream option \<Rightarrow> bool" where
  "untunnelled u \<longleftrightarrow> (case u of Some (UpstreamWs ws f) \<Rightarrow> f = Packets | _ \<Rightarrow> True)"

lemma untunnelled_simps [simp]:
  "untunnelled None" "untunnelled (Some (UpstreamWs ws Packets))" "\<not> untunnelled (Some (UpstreamWs ws Tunnel))"
  "untunnelled (Some (UpstreamMtproto c))" "untunnelled (Some (UpstreamTcp ip))"
  by (simp_all add: untunnelled_def)

lemma untunnelled_steps [simp]:
  "untunnelled (map_option (\<lambda>ws. UpstreamWs ws Packets) p)" "untunnelled (map_option UpstreamMtproto c)"
  "untunnelled (Some (tcp_last_resort R ip))"
  "untunnelled u \<Longrightarrow> untunnelled (Some (or_else (tcp_last_resort R ip) u))"
  "untunnelled u \<Longrightarrow> untunnelled (Some (or_else (UpstreamTcp ip) u))"
  by (cases p; cases c; cases u; simp add: tcp_last_resort_def or_else_def)+

lemma cf_tiers_framing:
  "c_cf_worker_domains (rt_config R) = [] \<Longrightarrow> ensures untunnelled (cf_tiers E R dst)"
  unfolding cf_tiers_def cf_worker_def
  by (auto intro!: ensures_bind_any ensures_return)

lemma chain_framing:
  assumes "c_cf_worker_domains (rt_config R) = []"
  shows "ensures untunnelled (fallback_chain E R dst skip)"
  unfolding fallback_chain_def
  by (rule ensures_bind [of untunnelled])
     (auto intro!: ensures_if ensures_case_option ensures_bind_any ensures_return cf_tiers_framing [OF assms])

text \<open>(C25) The framing of a bridge follows from the rung that connected: with no Cloudflare Worker
  configured a WebSocket upstream is never an opaque tunnel, so the pool, the direct WebSocket,
  fronting and the Cloudflare proxy are always bridged packet by packet, as Telegram's endpoint demands.\<close>

theorem tunnel_only_through_worker:
  assumes "c_cf_worker_domains (rt_config R) = []"
  shows "select_upstream E R target s \<noteq> (Some (Some (UpstreamWs ws Tunnel)), t)"
proof
  assume run: "select_upstream E R target s = (Some (Some (UpstreamWs ws Tunnel)), t)"
  have "ensures untunnelled (select_upstream E R target)"
    unfolding select_upstream_def Let_def
    by (intro ensures_case_option ensures_bind [OF chain_framing [OF assms]] ensures_return ensures_bind_any
          ensures_if ensures_bind [of untunnelled "if b then _ else _" for b] cf_tiers_framing [OF assms]
          chain_framing [OF assms])
       simp_all
  from ensuresD [OF this run] show False by simp
qed

theorem tunnel_only_through_worker_witness:
  "let R = example_route\<lparr>rt_config := example_config\<lparr>c_cf_domains := [''a.org''], c_cf_worker_domains := []\<rparr>\<rparr> in
   c_cf_worker_domains (rt_config R) = []
   \<and> (\<forall>t. select_upstream example_proxy R (Some ''1.2.3.4'') fresh_proxy \<noteq> (Some (Some (UpstreamWs () Tunnel)), t))"
proof -
  let ?R = "example_route\<lparr>rt_config := example_config\<lparr>c_cf_domains := [''a.org''], c_cf_worker_domains := []\<rparr>\<rparr>"
  have none: "c_cf_worker_domains (rt_config ?R) = []"
    by (simp add: example_config_def)
  show ?thesis
    unfolding Let_def by (intro conjI none allI tunnel_only_through_worker [OF none])
qed

end
