(* ===== verification/Splitter.thy ===== *)
theory Splitter
  imports Crypto
begin

text \<open>
  The MTProto message splitter (\<open>rust/src/splitter.rs\<close>): it cuts the relay-encrypted
  byte stream into WebSocket messages of exactly one MTProto packet each, by
  shadowing the relay cipher and reading the packet lengths in the plaintext.

  The state is the code's \<open>MsgSplitter\<close>, with the capacities of its two buffers, which
  the trimming logic reads and releases. The first part is the model; the second an
  interface for length-prefixed packet formats with the framing lemmas proved once in it;
  the third the properties of the splitter.
\<close>

section \<open>Buffers\<close>

text \<open>
  Capacity of a \<open>Vec<u8>\<close>: \<open>extend_from_slice\<close> grows it to the larger of twice the old
  capacity and the needed length, at least 8; \<open>shrink_to\<close> reduces it to the larger of the
  length and the bound; \<open>drain\<close> and \<open>clear\<close> leave it.
\<close>

definition vec_extend_cap :: "nat \<Rightarrow> nat \<Rightarrow> nat \<Rightarrow> nat" where
  "vec_extend_cap cap len extra =
     (if len + extra \<le> cap then cap else max 8 (max (2 * cap) (len + extra)))"

definition vec_shrink_cap :: "nat \<Rightarrow> nat \<Rightarrow> nat \<Rightarrow> nat" where
  "vec_shrink_cap bound cap len = (if bound < cap then max len bound else cap)"

definition RETAINED_CAPACITY :: nat where "RETAINED_CAPACITY = 16 * 1024"

definition TRIM_AFTER_IDLE_CALLS :: byte where "TRIM_AFTER_IDLE_CALLS = 64"

record msg_splitter =
  sp_dec :: aes_ctr256
  sp_proto :: proto_tag
  sp_cipher_buf :: bytes
  sp_plain_buf :: bytes
  sp_disabled :: bool
  sp_idle_calls :: byte
  sp_cipher_cap :: nat
  sp_plain_cap :: nat

definition splitter_new :: "prims \<Rightarrow> bytes \<Rightarrow> proto_tag \<Rightarrow> msg_splitter run" where
  "splitter_new P relay_init proto =
     run_bind (make_cipher (subrange SKIP_LEN (SKIP_LEN + PREKEY_LEN) relay_init)
                (subrange (SKIP_LEN + PREKEY_LEN) (SKIP_LEN + PREKEY_LEN + IV_LEN) relay_init))
       (\<lambda>dec0. Done
         \<lparr>sp_dec = snd (apply_keystream P dec0 (replicate HANDSHAKE_LEN 0)), sp_proto = proto,
          sp_cipher_buf = [], sp_plain_buf = [], sp_disabled = False, sp_idle_calls = 0,
          sp_cipher_cap = 0, sp_plain_cap = 0\<rparr>)"

section \<open>Packet lengths\<close>

text \<open>The common end of both parsers: a zero payload asks to disable the splitter, an
  incomplete packet to wait.\<close>

definition complete_len :: "bytes \<Rightarrow> nat \<Rightarrow> nat \<Rightarrow> nat option" where
  "complete_len plain payload_len header_len =
     (if payload_len = 0 then Some 0
      else let total = header_len + payload_len in
           if length plain < total then None else Some total)"

definition abridged_len :: "bytes \<Rightarrow> nat option" where
  "abridged_len plain =
     (let first = plain ! 0 in
      if first = 0x7F \<or> first = 0xFF then
        (if length plain < 4 then None
         else complete_len plain (unat (u32_from_le (plain ! 1) (plain ! 2) (plain ! 3) 0) * 4) 4)
      else complete_len plain (unat (first AND 0x7F) * 4) 1)"

definition intermediate_len :: "bytes \<Rightarrow> nat option" where
  "intermediate_len plain =
     (if length plain < 4 then None
      else complete_len plain
        (unat (u32_from_le (plain ! 0) (plain ! 1) (plain ! 2) (plain ! 3) AND 0x7FFFFFFF)) 4)"

definition next_packet_len :: "proto_tag \<Rightarrow> bytes \<Rightarrow> nat \<Rightarrow> nat option" where
  "next_packet_len proto plain_buf offset =
     (if length plain_buf < offset then None
      else let plain = drop offset plain_buf in
           if plain = [] then None
           else case proto of Abridged \<Rightarrow> abridged_len plain
                | Intermediate \<Rightarrow> intermediate_len plain
                | PaddedIntermediate \<Rightarrow> intermediate_len plain)"

section \<open>Splitting\<close>

text \<open>The packet loop of \<open>split\<close>: the parts so far and how much is consumed, or \<open>None\<close>
  when an unknown variant disables parsing.\<close>

lemma next_packet_len_Some: "next_packet_len proto plain k = Some n \<Longrightarrow> k < length plain"
  by (auto simp: next_packet_len_def Let_def split: if_splits)

function split_loop ::
    "proto_tag \<Rightarrow> bytes \<Rightarrow> bytes \<Rightarrow> nat \<Rightarrow> bytes list \<Rightarrow> bytes list \<times> nat option" where
  "split_loop proto plain cipher consumed parts =
     (case next_packet_len proto plain consumed of
        None \<Rightarrow> (parts, Some consumed)
      | Some len \<Rightarrow>
          if len = 0 then (parts @ [drop consumed cipher], None)
          else split_loop proto plain cipher (consumed + len)
                 (parts @ [subrange consumed (consumed + len) cipher]))"
  by pat_completeness auto
termination
  by (relation "measure (\<lambda>(proto, plain, cipher, consumed, parts). length plain - consumed)")
     (auto dest: next_packet_len_Some)

declare split_loop.simps [simp del]

definition trim_idle_buffers :: "msg_splitter \<Rightarrow> msg_splitter" where
  "trim_idle_buffers s =
     (if sp_cipher_buf s \<noteq> [] \<or> sp_cipher_cap s \<le> RETAINED_CAPACITY then s\<lparr>sp_idle_calls := 0\<rparr>
      else let idle = (if sp_idle_calls s = 255 then 255 else sp_idle_calls s + 1) in
           if idle < TRIM_AFTER_IDLE_CALLS then s\<lparr>sp_idle_calls := idle\<rparr>
           else s\<lparr>sp_cipher_cap := vec_shrink_cap RETAINED_CAPACITY (sp_cipher_cap s) (length (sp_cipher_buf s)),
                  sp_plain_cap := vec_shrink_cap RETAINED_CAPACITY (sp_plain_cap s) (length (sp_plain_buf s)),
                  sp_idle_calls := 0\<rparr>)"

definition split_msg :: "prims \<Rightarrow> msg_splitter \<Rightarrow> bytes \<Rightarrow> bytes list \<times> msg_splitter" where
  "split_msg P s encrypted =
     (if encrypted = [] then ([], s)
      else if sp_disabled s then ([encrypted], s)
      else
        let ks = apply_keystream P (sp_dec s) encrypted;
            plain = sp_plain_buf s @ fst ks;
            cipher = sp_cipher_buf s @ encrypted;
            s1 = s\<lparr>sp_dec := snd ks, sp_plain_buf := plain, sp_cipher_buf := cipher,
                   sp_plain_cap := vec_extend_cap (sp_plain_cap s) (length (sp_plain_buf s)) (length encrypted),
                   sp_cipher_cap := vec_extend_cap (sp_cipher_cap s) (length (sp_cipher_buf s)) (length encrypted)\<rparr>;
            r = split_loop (sp_proto s) plain cipher 0 []
        in case snd r of
             None \<Rightarrow>
               (fst r, s1\<lparr>sp_cipher_buf := [], sp_plain_buf := [], sp_cipher_cap := 0,
                          sp_plain_cap := 0, sp_disabled := True\<rparr>)
           | Some consumed \<Rightarrow>
               (fst r, trim_idle_buffers
                  (s1\<lparr>sp_cipher_buf := drop consumed cipher, sp_plain_buf := drop consumed plain\<rparr>)))"

definition flush :: "msg_splitter \<Rightarrow> bytes list \<times> msg_splitter" where
  "flush s =
     (if sp_cipher_buf s = [] then ([], s)
      else ([sp_cipher_buf s],
            s\<lparr>sp_cipher_buf := [], sp_cipher_cap := 0, sp_plain_buf := [],
              sp_plain_cap := vec_shrink_cap RETAINED_CAPACITY (sp_plain_cap s) 0\<rparr>))"

text \<open>The upload loop of a bridge: one \<open>split\<close> per read.\<close>

fun split_all :: "prims \<Rightarrow> msg_splitter \<Rightarrow> bytes list \<Rightarrow> bytes list \<times> msg_splitter" where
  "split_all P s [] = ([], s)"
| "split_all P s (c # cs) =
     (let (ps, s1) = split_msg P s c; (qs, s2) = split_all P s1 cs in (ps @ qs, s2))"

section \<open>Length-prefixed packet formats\<close>

text \<open>
  The interface a packet format gives the splitter: nothing is known of an empty
  buffer, a reported packet fits in the buffer, and more data never changes a
  length already reported. \<open>frame\<close> is the reference framing of a whole stream, over the
  plaintext that carries the lengths and the ciphertext that is forwarded: the packets,
  and either the incomplete tail or \<open>None\<close> when parsing was given up.
\<close>

function frame :: "(bytes \<Rightarrow> nat option) \<Rightarrow> bytes \<Rightarrow> bytes \<Rightarrow> bytes list \<times> (bytes \<times> bytes) option" where
  "frame plen plain cipher =
     (case plen plain of
        None \<Rightarrow> ([], Some (plain, cipher))
      | Some n \<Rightarrow>
          if n = 0 then ([cipher], None)
          else if plain = [] then ([], Some (plain, cipher))
          else let (ps, r) = frame plen (drop n plain) (drop n cipher) in (take n cipher # ps, r))"
  by pat_completeness auto
termination
  by (relation "measure (\<lambda>(plen, plain, cipher). length plain)") auto

declare frame.simps [simp del]

locale length_prefixed =
  fixes plen :: "bytes \<Rightarrow> nat option"
  assumes plen_Nil: "plen [] = None"
    and plen_fits: "plen p = Some n \<Longrightarrow> n \<le> length p"
    and plen_mono: "plen p = Some n \<Longrightarrow> plen (p @ q) = Some n"
begin

lemma frame_None: "plen p = None \<Longrightarrow> frame plen p c = ([], Some (p, c))"
  by (simp add: frame.simps)

lemma frame_zero: "plen p = Some 0 \<Longrightarrow> frame plen p c = ([c], None)"
  by (simp add: frame.simps)

lemma frame_step:
  "plen p = Some n \<Longrightarrow> n \<noteq> 0 \<Longrightarrow>
   frame plen p c = (take n c # fst (frame plen (drop n p) (drop n c)), snd (frame plen (drop n p) (drop n c)))"
  using plen_Nil by (subst frame.simps) (auto simp: case_prod_unfold Let_def)

lemma frame_induct [case_names stop zero packet]:
  assumes "\<And>p c. plen p = None \<Longrightarrow> Q p c"
    and "\<And>p c. plen p = Some 0 \<Longrightarrow> Q p c"
    and "\<And>p c n. plen p = Some n \<Longrightarrow> n \<noteq> 0 \<Longrightarrow> n \<le> length p \<Longrightarrow> Q (drop n p) (drop n c) \<Longrightarrow> Q p c"
  shows "Q p c"
proof (induction "length p" arbitrary: p c rule: less_induct)
  case less
  show ?case
  proof (cases "plen p")
    case (Some n)
    show ?thesis
    proof (cases "n = 0")
      case False
      have "n \<le> length p" using Some by (rule plen_fits)
      moreover have "length (drop n p) < length p"
        using False Some plen_Nil by (cases p) auto
      ultimately show ?thesis using assms(3) Some False less by blast
    qed (use Some assms(2) in simp)
  qed (rule assms(1))
qed

lemma frame_conserves:
  "concat (fst (frame plen p c)) @ (case snd (frame plen p c) of None \<Rightarrow> [] | Some (r, rc) \<Rightarrow> rc) = c"
proof (induction p c rule: frame_induct)
  case (packet p c n)
  then show ?case by (simp add: frame_step [OF packet(1,2)])
qed (simp_all add: frame_None frame_zero)

lemma frame_rest:
  "length p = length c \<Longrightarrow> snd (frame plen p c) = Some (r, rc) \<Longrightarrow>
   \<exists>k \<le> length p. r = drop k p \<and> rc = drop k c \<and> plen r = None"
proof (induction p c rule: frame_induct)
  case (stop p c)
  then show ?case by (intro exI [of _ 0]) (auto simp: frame_None)
next
  case (packet p c n)
  then have "\<exists>k \<le> length (drop n p). r = drop k (drop n p) \<and> rc = drop k (drop n c) \<and> plen r = None"
    using frame_step [OF packet(1,2)] by simp
  then obtain k where "k \<le> length p - n" "r = drop (k + n) p" "rc = drop (k + n) c" "plen r = None"
    by auto
  with packet(3) show ?case by (intro exI [of _ "k + n"]) auto
qed (simp add: frame_zero)

lemma frame_rest_length:
  "length p = length c \<Longrightarrow> snd (frame plen p c) = Some (r, rc) \<Longrightarrow> length r = length rc"
  using frame_rest by (metis length_drop)

text \<open>Framing is incremental: the tail of a prefix is all that has to be kept.\<close>

lemma frame_append:
  "length p = length c \<Longrightarrow> snd (frame plen p c) = Some (r, rc) \<Longrightarrow>
   frame plen (p @ q) (c @ d) =
    (fst (frame plen p c) @ fst (frame plen (r @ q) (rc @ d)), snd (frame plen (r @ q) (rc @ d)))"
proof (induction p c rule: frame_induct)
  case (packet p c n)
  then have "frame plen (drop n p @ q) (drop n c @ d) =
      (fst (frame plen (drop n p) (drop n c)) @ fst (frame plen (r @ q) (rc @ d)),
       snd (frame plen (r @ q) (rc @ d)))"
    using frame_step [OF packet(1,2)] by simp
  with packet show ?case
    using frame_step [OF packet(1,2), of c] frame_step [OF plen_mono [OF packet(1)] packet(2), of q "c @ d"]
    by simp
qed (auto simp: frame_None frame_zero)

text \<open>A stream of whole packets and an incomplete one is framed into exactly these.\<close>

lemma frame_concat:
  "list_all2 (\<lambda>q m. plen q = Some (length q) \<and> length m = length q \<and> q \<noteq> []) qs ms \<Longrightarrow> plen r = None \<Longrightarrow> length rc = length r \<Longrightarrow>
   frame plen (concat qs @ r) (concat ms @ rc) = (ms, Some (r, rc))"
proof (induction rule: list_all2_induct)
  case Nil
  then show ?case by (simp add: frame_None)
next
  case (Cons q qs m ms)
  then have "plen (q @ concat qs @ r) = Some (length q)" using plen_mono by blast
  from frame_step [OF this, of "m @ concat ms @ rc"] Cons show ?case by simp
qed

text \<open>No part is empty.\<close>

lemma frame_parts_nonempty: "length p = length c \<Longrightarrow> [] \<notin> set (fst (frame plen p c))"
proof (induction p c rule: frame_induct)
  case (zero p c)
  then show ?case using plen_Nil by (cases p; cases c) (auto simp: frame_zero)
next
  case (packet p c n)
  then show ?case using plen_Nil by (auto simp: frame_step [OF packet(1,2), of c])
qed (simp add: frame_None)

text \<open>Once parsing is given up, later bytes only lengthen the last part.\<close>

lemma frame_append_disabled:
  "length p = length c \<Longrightarrow> snd (frame plen p c) = None \<Longrightarrow>
   \<exists>ps l. fst (frame plen p c) = ps @ [l] \<and> frame plen (p @ q) (c @ d) = (ps @ [l @ d], None)"
proof (induction p c rule: frame_induct)
  case (zero p c)
  then show ?case using plen_mono [OF zero(1), of q] by (simp add: frame_zero)
next
  case (packet p c n)
  then obtain ps l where "fst (frame plen (drop n p) (drop n c)) = ps @ [l]"
      "frame plen (drop n p @ q) (drop n c @ d) = (ps @ [l @ d], None)"
    using frame_step [OF packet(1,2)] by auto
  with packet show ?case
    using frame_step [OF packet(1,2), of c] frame_step [OF plen_mono [OF packet(1)] packet(2), of q "c @ d"]
    by (intro exI [of _ "take n c # ps"] exI [of _ l]) simp
qed (simp add: frame_None)

end

section \<open>The splitter is the reference framing\<close>

definition packet_len :: "proto_tag \<Rightarrow> bytes \<Rightarrow> nat option" where
  "packet_len proto p = next_packet_len proto p 0"

lemma complete_len_fits: "complete_len p a b = Some n \<Longrightarrow> n \<le> length p"
  by (auto simp: complete_len_def Let_def split: if_splits)

lemma complete_len_mono: "complete_len p a b = Some n \<Longrightarrow> complete_len (p @ q) a b = Some n"
  by (auto simp: complete_len_def Let_def split: if_splits)

lemmas packet_len_defs = packet_len_def next_packet_len_def abridged_len_def intermediate_len_def Let_def

interpretation fmt: length_prefixed "packet_len proto" for proto
proof (unfold_locales, goal_cases)
  case 1
  show ?case by (simp add: packet_len_defs)
next
  case (2 p n)
  then show ?case
    by (auto simp: packet_len_defs split: if_splits proto_tag.splits dest: complete_len_fits)
next
  case (3 p n q)
  have "i < length p \<Longrightarrow> (p @ q) ! i = p ! i" for i by (simp add: nth_append)
  with 3 show ?case
    by (auto simp: packet_len_defs complete_len_mono nth_append split: if_splits proto_tag.splits)
qed

lemma next_packet_len_drop:
  "k \<le> length p \<Longrightarrow> next_packet_len proto p k = packet_len proto (drop k p)"
  by (simp add: packet_len_def next_packet_len_def)

lemma split_loop_frame:
  "k \<le> length plain \<Longrightarrow>
   split_loop proto plain cipher k parts =
     (parts @ fst (frame (packet_len proto) (drop k plain) (drop k cipher)),
      map_option (\<lambda>(r, rc). length plain - length r)
        (snd (frame (packet_len proto) (drop k plain) (drop k cipher))))"
proof (induction proto plain cipher k parts rule: split_loop.induct)
  case (1 proto plain cipher k parts)
  note unfold = split_loop.simps [of proto plain cipher k parts] next_packet_len_drop [OF "1.prems"]
  show ?case
  proof (cases "packet_len proto (drop k plain)")
    case None
    then show ?thesis using "1.prems" by (simp add: unfold fmt.frame_None)
  next
    case (Some n)
    show ?thesis
    proof (cases "n = 0")
      case True
      with Some show ?thesis by (simp add: unfold fmt.frame_zero)
    next
      case False
      have "k + n \<le> length plain"
        using fmt.plen_fits [OF Some] "1.prems" by simp
      moreover have "next_packet_len proto plain k = Some n"
        using Some by (simp add: unfold)
      ultimately show ?thesis
        using "1.IH" [of n] False Some
        by (simp add: unfold fmt.frame_step [OF Some] subrange_def add.commute)
    qed
  qed
qed

lemma trim_idle_buffers_keeps [simp]:
  "sp_dec (trim_idle_buffers s) = sp_dec s"
  "sp_proto (trim_idle_buffers s) = sp_proto s"
  "sp_cipher_buf (trim_idle_buffers s) = sp_cipher_buf s"
  "sp_plain_buf (trim_idle_buffers s) = sp_plain_buf s"
  "sp_disabled (trim_idle_buffers s) = sp_disabled s"
  by (simp_all add: trim_idle_buffers_def Let_def)

text \<open>
  The state after the bytes \<open>x\<close> were fed to a splitter that started with cipher \<open>c0\<close>:
  the reference framing of \<open>x\<close> says what is buffered, or that parsing was given up.
\<close>

definition decrypted :: "prims \<Rightarrow> aes_ctr256 \<Rightarrow> bytes \<Rightarrow> bytes" where
  "decrypted P c0 x = fst (apply_keystream P c0 x)"

definition framing :: "prims \<Rightarrow> aes_ctr256 \<Rightarrow> proto_tag \<Rightarrow> bytes \<Rightarrow> bytes list \<times> (bytes \<times> bytes) option" where
  "framing P c0 proto x = frame (packet_len proto) (decrypted P c0 x) x"

definition splitter_at :: "prims \<Rightarrow> aes_ctr256 \<Rightarrow> proto_tag \<Rightarrow> bytes \<Rightarrow> msg_splitter \<Rightarrow> bool" where
  "splitter_at P c0 proto x s \<longleftrightarrow>
     sp_proto s = proto \<and>
     (if sp_disabled s then snd (framing P c0 proto x) = None
      else sp_dec s = c0\<lparr>ctr_pos := ctr_pos c0 + length x\<rparr> \<and>
           snd (framing P c0 proto x) = Some (sp_plain_buf s, sp_cipher_buf s))"

lemma length_decrypted [simp]: "length (decrypted P c0 x) = length x"
  by (simp add: decrypted_def)

lemma decrypted_append:
  "decrypted P c0 (x @ y) = decrypted P c0 x @ decrypted P (c0\<lparr>ctr_pos := ctr_pos c0 + length x\<rparr>) y"
  by (simp add: decrypted_def apply_keystream_append)

lemma framing_append:
  assumes "snd (framing P c0 proto x) = Some (r, rc)"
  shows "framing P c0 proto (x @ y) =
    (let f = frame (packet_len proto) (r @ decrypted P (c0\<lparr>ctr_pos := ctr_pos c0 + length x\<rparr>) y) (rc @ y)
     in (fst (framing P c0 proto x) @ fst f, snd f))"
  using assms unfolding framing_def decrypted_append
  by (subst fmt.frame_append [of "decrypted P c0 x" x proto r rc]) (simp_all add: Let_def)

text \<open>One call, with the loop replaced by the framing of what is buffered.\<close>

lemma split_msg_frame:
  assumes "y \<noteq> []" and "\<not> sp_disabled s" and "length (sp_plain_buf s) = length (sp_cipher_buf s)"
    and f: "frame (packet_len (sp_proto s)) (sp_plain_buf s @ decrypted P (sp_dec s) y)
        (sp_cipher_buf s @ y) = (ps, rest)"
  shows "fst (split_msg P s y) = ps
    \<and> sp_proto (snd (split_msg P s y)) = sp_proto s
    \<and> (case rest of
         None \<Rightarrow> sp_disabled (snd (split_msg P s y)) \<and> sp_cipher_buf (snd (split_msg P s y)) = []
           \<and> sp_plain_buf (snd (split_msg P s y)) = []
       | Some (r, rc) \<Rightarrow> \<not> sp_disabled (snd (split_msg P s y))
           \<and> sp_dec (snd (split_msg P s y)) = snd (apply_keystream P (sp_dec s) y)
           \<and> sp_plain_buf (snd (split_msg P s y)) = r \<and> sp_cipher_buf (snd (split_msg P s y)) = rc)"
proof -
  let ?p = "sp_plain_buf s @ decrypted P (sp_dec s) y" and ?c = "sp_cipher_buf s @ y"
  have loop: "split_loop (sp_proto s) ?p ?c 0 [] = (ps, map_option (\<lambda>(r, rc). length ?p - length r) rest)"
    using f by (subst split_loop_frame) simp_all
  note unfold = split_msg_def [of P s y] Let_def decrypted_def [symmetric]
  show ?thesis
  proof (cases rest)
    case None
    with loop have "split_loop (sp_proto s) ?p ?c 0 [] = (ps, None)" by simp
    then show ?thesis
      using None assms(1,2) by (simp add: unfold del: append_eq_append_conv)
  next
    case (Some rr)
    obtain r rc where rr: "rr = (r, rc)" by (cases rr)
    have "length ?p = length ?c" "snd (frame (packet_len (sp_proto s)) ?p ?c) = Some (r, rc)"
      using f Some rr assms(3) by simp_all
    from fmt.frame_rest [OF this]
    obtain k where k: "k \<le> length ?p" "r = drop k ?p" "rc = drop k ?c" by blast
    then have "length ?p - length r = k" by simp
    with loop Some rr have "split_loop (sp_proto s) ?p ?c 0 [] = (ps, Some k)" by simp
    then show ?thesis
      unfolding Some rr k(2,3) using assms(1,2) by (simp add: unfold)
  qed
qed

lemma splitter_at_lengths:
  "splitter_at P c0 proto x s \<Longrightarrow> \<not> sp_disabled s \<Longrightarrow> length (sp_plain_buf s) = length (sp_cipher_buf s)"
  unfolding splitter_at_def framing_def
  by (rule fmt.frame_rest_length [of "decrypted P c0 x" x proto]) simp_all

lemma split_msg_step:
  assumes "splitter_at P c0 proto x s" and "\<not> sp_disabled s" and "y \<noteq> []"
  shows "splitter_at P c0 proto (x @ y) (snd (split_msg P s y))
    \<and> fst (framing P c0 proto (x @ y)) = fst (framing P c0 proto x) @ fst (split_msg P s y)"
proof -
  have at: "sp_proto s = proto" "sp_dec s = c0\<lparr>ctr_pos := ctr_pos c0 + length x\<rparr>"
      "snd (framing P c0 proto x) = Some (sp_plain_buf s, sp_cipher_buf s)"
    using assms(1,2) by (simp_all add: splitter_at_def)
  obtain ps rest where f: "frame (packet_len (sp_proto s)) (sp_plain_buf s @ decrypted P (sp_dec s) y)
        (sp_cipher_buf s @ y) = (ps, rest)"
    by (rule prod.exhaust)
  have fr: "framing P c0 proto (x @ y) = (fst (framing P c0 proto x) @ ps, rest)"
    using framing_append [OF at(3), of y] f at by simp
  note sm = split_msg_frame [OF assms(3,2) splitter_at_lengths [OF assms(1,2)] f]
  show ?thesis
  proof (cases rest)
    case None
    with sm at(1) show ?thesis by (simp add: fr splitter_at_def)
  next
    case (Some rr)
    with sm at(1,2) show ?thesis
      by (cases rr) (simp add: fr splitter_at_def add.assoc)
  qed
qed

lemma split_all_disabled:
  "sp_disabled s \<Longrightarrow> split_all P s cs = (filter (\<lambda>c. c \<noteq> []) cs, s)"
  by (induction cs) (simp_all add: split_msg_def)

lemma framing_prefix:
  assumes "snd (framing P c0 proto (x @ y)) \<noteq> None"
  shows "snd (framing P c0 proto x) \<noteq> None"
proof
  assume "snd (framing P c0 proto x) = None"
  then have "snd (frame (packet_len proto) (decrypted P c0 x) x) = None"
    by (simp add: framing_def)
  from fmt.frame_append_disabled [OF _ this, of "decrypted P (c0\<lparr>ctr_pos := ctr_pos c0 + length x\<rparr>) y" y]
  show False using assms by (auto simp: framing_def decrypted_append)
qed

lemma split_all_framing:
  assumes "splitter_at P c0 proto x s" and "\<not> sp_disabled s"
    and "snd (framing P c0 proto (x @ concat cs)) \<noteq> None"
  shows "splitter_at P c0 proto (x @ concat cs) (snd (split_all P s cs))
    \<and> \<not> sp_disabled (snd (split_all P s cs))
    \<and> fst (framing P c0 proto (x @ concat cs)) = fst (framing P c0 proto x) @ fst (split_all P s cs)"
  using assms
proof (induction cs arbitrary: x s)
  case (Cons c cs)
  let ?s = "snd (split_msg P s c)"
  have "splitter_at P c0 proto (x @ c) ?s
      \<and> fst (framing P c0 proto (x @ c)) = fst (framing P c0 proto x) @ fst (split_msg P s c)"
    using Cons.prems split_msg_step [of P c0 proto x s c] by (cases "c = []") (simp_all add: split_msg_def)
  moreover have "\<not> sp_disabled ?s"
    using calculation framing_prefix [of P c0 proto "x @ c" "concat cs"] Cons.prems(3)
    by (auto simp: splitter_at_def)
  ultimately show ?case
    using Cons.IH [of "x @ c" ?s] Cons.prems(3) by (simp add: case_prod_unfold Let_def)
qed simp

text \<open>Nothing is lost or reordered by one call, parsing or not.\<close>

lemma split_msg_conserves:
  assumes "length (sp_plain_buf s) = length (sp_cipher_buf s)" and "sp_disabled s \<Longrightarrow> sp_cipher_buf s = []"
  shows "concat (fst (split_msg P s y)) @ sp_cipher_buf (snd (split_msg P s y)) = sp_cipher_buf s @ y
    \<and> length (sp_plain_buf (snd (split_msg P s y))) = length (sp_cipher_buf (snd (split_msg P s y)))
    \<and> (sp_disabled (snd (split_msg P s y)) \<longrightarrow> sp_cipher_buf (snd (split_msg P s y)) = [])"
proof (cases "y = [] \<or> sp_disabled s")
  case True
  then show ?thesis using assms by (auto simp: split_msg_def)
next
  case False
  let ?p = "sp_plain_buf s @ decrypted P (sp_dec s) y" and ?c = "sp_cipher_buf s @ y"
  obtain ps rest where f: "frame (packet_len (sp_proto s)) ?p ?c = (ps, rest)"
    by (rule prod.exhaust)
  have fsm: "y \<noteq> []" "\<not> sp_disabled s" using False by auto
  note sm = split_msg_frame [OF fsm assms(1) f]
  have len: "length ?p = length ?c" using assms(1) by simp
  have cons: "concat ps @ (case rest of None \<Rightarrow> [] | Some (r, rc) \<Rightarrow> rc) = ?c"
    using fmt.frame_conserves [of "sp_proto s" ?p ?c] f by simp
  show ?thesis
  proof (cases rest)
    case None
    with sm cons f show ?thesis by simp
  next
    case (Some rr)
    obtain r rc where rr: "rr = (r, rc)" by (cases rr)
    have "length r = length rc"
      using fmt.frame_rest_length [OF len, of "sp_proto s" r rc] f Some rr by simp
    with sm cons Some rr show ?thesis by simp
  qed
qed

lemma split_msg_nonempty:
  assumes "length (sp_plain_buf s) = length (sp_cipher_buf s)"
  shows "[] \<notin> set (fst (split_msg P s y))"
proof (cases "y = [] \<or> sp_disabled s")
  case False
  let ?p = "sp_plain_buf s @ decrypted P (sp_dec s) y" and ?c = "sp_cipher_buf s @ y"
  obtain ps rest where f: "frame (packet_len (sp_proto s)) ?p ?c = (ps, rest)"
    by (rule prod.exhaust)
  have "[] \<notin> set ps"
    using fmt.frame_parts_nonempty [of ?p ?c "sp_proto s"] f assms by simp
  moreover have "fst (split_msg P s y) = ps"
    using split_msg_frame [OF _ _ assms f] False by blast
  ultimately show ?thesis by simp
qed (auto simp: split_msg_def)

lemma split_all_conserves:
  assumes "length (sp_plain_buf s) = length (sp_cipher_buf s)" and "sp_disabled s \<Longrightarrow> sp_cipher_buf s = []"
  shows "concat (fst (split_all P s cs)) @ sp_cipher_buf (snd (split_all P s cs))
    = sp_cipher_buf s @ concat cs"
  using assms
proof (induction cs arbitrary: s)
  case (Cons c cs)
  let ?s = "snd (split_msg P s c)"
  note step = split_msg_conserves [OF Cons.prems, of P c]
  have "concat (fst (split_all P ?s cs)) @ sp_cipher_buf (snd (split_all P ?s cs))
      = sp_cipher_buf ?s @ concat cs"
    using step by (intro Cons.IH) auto
  with step show ?case
    by (simp add: case_prod_unfold Let_def)
qed simp

lemma concat_flush: "concat (fst (flush s)) = sp_cipher_buf s"
  by (simp add: flush_def)

definition splitter_fresh :: "msg_splitter \<Rightarrow> bool" where
  "splitter_fresh s \<longleftrightarrow> sp_cipher_buf s = [] \<and> sp_plain_buf s = [] \<and> \<not> sp_disabled s"

lemma splitter_new_fresh:
  "splitter_new P relay_init proto = Done s \<Longrightarrow> splitter_fresh s \<and> sp_proto s = proto"
  by (auto simp: splitter_new_def splitter_fresh_def run_bind_eq_Done)

lemma framing_Nil [simp]: "framing P c0 proto [] = ([], Some ([], []))"
  by (simp add: framing_def decrypted_def aes.crypt_Nil fmt.frame_None fmt.plen_Nil)

lemma splitter_fresh_at: "splitter_fresh s \<Longrightarrow> splitter_at P (sp_dec s) (sp_proto s) [] s"
  by (simp add: splitter_fresh_def splitter_at_def)

lemma splitter_new_Done:
  "length relay_init = HANDSHAKE_LEN \<Longrightarrow> \<exists>s. splitter_new P relay_init proto = Done s"
  by (simp add: splitter_new_def layout_simps)

lemma splitter_new_at:
  assumes "splitter_new P relay_init proto = Done s"
  shows "splitter_at P (sp_dec s) proto [] s \<and> \<not> sp_disabled s"
  using splitter_new_fresh [OF assms] splitter_fresh_at [of s P] by (auto simp: splitter_fresh_def)

lemma split_all_new:
  assumes "splitter_new P relay_init proto = Done s"
    and "framing P (sp_dec s) proto (concat cs) = (packets, Some (plain_tail, cipher_tail))"
  shows "fst (split_all P s cs) = packets
    \<and> sp_cipher_buf (snd (split_all P s cs)) = cipher_tail
    \<and> sp_plain_buf (snd (split_all P s cs)) = plain_tail
    \<and> \<not> sp_disabled (snd (split_all P s cs))"
proof -
  have "splitter_at P (sp_dec s) proto ([] @ concat cs) (snd (split_all P s cs))
    \<and> \<not> sp_disabled (snd (split_all P s cs))
    \<and> fst (framing P (sp_dec s) proto ([] @ concat cs))
      = fst (framing P (sp_dec s) proto []) @ fst (split_all P s cs)"
    using splitter_new_at [OF assms(1)] assms(2) by (intro split_all_framing) auto
  with assms(2) show ?thesis by (auto simp: splitter_at_def)
qed

section \<open>The transport formats\<close>

text \<open>
  A packet of the three MTProto transports, as a client encodes it: abridged counts words of four bytes in one byte or, from
  127 on, in three bytes behind \<open>0x7f\<close>; the intermediate ones count bytes in four, little endian. The top bit of the header's
  first or last byte asks for a quick acknowledgement and is no part of the length.
\<close>

fun transport_packet :: "proto_tag \<Rightarrow> bool \<times> bytes \<Rightarrow> bytes" where
  "transport_packet Abridged (ack, payload) =
     (let n = length payload div 4; flag = (if ack then 128 else 0) in
      if n < 127 then of_nat (n + flag) # payload
      else [of_nat (127 + flag), of_nat n, of_nat (n div 256), of_nat (n div 65536)] @ payload)"
| "transport_packet _ (ack, payload) =
     (let n = length payload + (if ack then 2147483648 else 0) in
      [of_nat n, of_nat (n div 256), of_nat (n div 65536), of_nat (n div 16777216)] @ payload)"

fun sendable :: "proto_tag \<Rightarrow> bool \<times> bytes \<Rightarrow> bool" where
  "sendable Abridged (ack, payload) \<longleftrightarrow> payload \<noteq> [] \<and> 4 dvd length payload \<and> length payload < 4 * 16777216"
| "sendable _ (ack, payload) \<longleftrightarrow> payload \<noteq> [] \<and> length payload < 2147483648"

lemma complete_len_take:
  "0 < a \<Longrightarrow> complete_len p a b = (if length p < b + a then None else Some (b + a))"
  by (simp add: complete_len_def)

lemma intermediate_header:
  assumes "n < 2147483648" "m = n + (if ack then 2147483648 else 0)"
  shows "unat (u32_from_le (of_nat m) (of_nat (m div 256)) (of_nat (m div 65536)) (of_nat (m div 16777216)) AND 0x7FFFFFFF) = n"
proof -
  have m: "(0x7FFFFFFF :: u32) = mask 31" by (simp add: mask_eq_exp_minus_1)
  have "unat ((of_nat m :: u32) AND 0x7FFFFFFF) = take_bit 31 (take_bit 32 m)"
    unfolding m by (simp add: take_bit_eq_mask [symmetric] unsigned_take_bit_eq unsigned_of_nat)
  then show ?thesis using assms unfolding u32_from_le_of_nat by (simp add: take_bit_eq_mod)
qed

lemma abridged_header:
  "n < 16777216 \<Longrightarrow> unat (u32_from_le (of_nat n) (of_nat (n div 256)) (of_nat (n div 65536)) 0) = n"
  using u32_from_le_of_nat [of n] by (simp add: unsigned_of_nat take_bit_eq_mod)

lemma short_header:
  assumes "n < 127"
  shows "unat ((of_nat (n + (if ack then 128 else 0)) :: byte) AND 0x7F) = n"
    "(of_nat (n + (if ack then 128 else 0)) :: byte) \<noteq> 0x7F" "(of_nat (n + (if ack then 128 else 0)) :: byte) \<noteq> 0xFF"
proof -
  let ?b = "of_nat (n + (if ack then 128 else 0)) :: byte"
  have u: "unat ?b = n + (if ack then 128 else 0)" using assms by (simp add: unsigned_of_nat take_bit_eq_mod del: of_nat_add)
  have m: "(0x7F :: byte) = mask 7" by (simp add: mask_eq_exp_minus_1)
  have "unat (?b AND 0x7F) = take_bit 7 (unat ?b)"
    unfolding m by (simp add: take_bit_eq_mask [symmetric] unsigned_take_bit_eq)
  then show "unat (?b AND 0x7F) = n" unfolding u using assms by (simp add: take_bit_eq_mod)
  show "?b \<noteq> 0x7F" "?b \<noteq> 0xFF" using u assms by (auto simp: word_unat_eq_iff split: if_splits)
qed

lemma packet_len_transport:
  assumes "sendable proto x"
  shows "packet_len proto (take k (transport_packet proto x) @ (if k < length (transport_packet proto x) then [] else rest))
    = (if k < length (transport_packet proto x) then None else Some (length (transport_packet proto x)))"
proof -
  obtain ack payload where x: "x = (ack, payload)" by (rule prod.exhaust)
  show ?thesis
  proof (cases "proto = Abridged")
    case True
    let ?n = "length payload div 4" and ?f = "if ack then 128 else 0 :: nat"
    have n: "0 < ?n" "?n * 4 = length payload" "?n < 16777216" "0 < length payload"
      using assms True x by (auto simp: length_greater_0_conv [symmetric] simp del: length_greater_0_conv elim!: dvdE)
    show ?thesis
    proof (cases "?n < 127")
      case True
      then have t: "transport_packet proto x = of_nat (?n + ?f) # payload" using x \<open>proto = Abridged\<close> by (simp add: Let_def del: of_nat_add)
      show ?thesis
        using \<open>proto = Abridged\<close> n short_header [OF True, of ack] unfolding t
        by (cases k) (auto simp: packet_len_defs complete_len_take simp del: of_nat_add)
    next
      case False
      then have t: "transport_packet proto x = [of_nat (127 + ?f), of_nat ?n, of_nat (?n div 256), of_nat (?n div 65536)] @ payload"
        using x \<open>proto = Abridged\<close> by (simp add: Let_def)
      have "(of_nat (127 + ?f) :: byte) = 0x7F \<or> (of_nat (127 + ?f) :: byte) = 0xFF" by simp
      then show ?thesis
        using \<open>proto = Abridged\<close> n abridged_header [OF n(3)] unfolding t
        by (auto simp: packet_len_defs complete_len_take take_Cons' nth_append)
    qed
  next
    case False
    let ?n = "length payload + (if ack then 2147483648 else 0)"
    have t: "transport_packet proto x = [of_nat ?n, of_nat (?n div 256), of_nat (?n div 65536), of_nat (?n div 16777216)] @ payload"
      using x False by (cases proto) (simp_all add: Let_def)
    have n: "0 < length payload" "length payload < 2147483648" using assms x False by (cases proto; simp)+
    show ?thesis
      using False n intermediate_header [OF n(2) refl, of ack] unfolding t
      by (cases proto) (auto simp: packet_len_defs complete_len_take take_Cons' nth_append simp del: of_nat_add)
  qed
qed

text \<open>The same cipher applied to one piece after the other; applied again it undoes itself.\<close>

fun crypt_each :: "prims \<Rightarrow> aes_ctr256 \<Rightarrow> bytes list \<Rightarrow> bytes list" where
  "crypt_each P c [] = []"
| "crypt_each P c (x # xs) = fst (apply_keystream P c x) # crypt_each P (snd (apply_keystream P c x)) xs"

lemma crypt_each_undo: "crypt_each P c (crypt_each P c xs) = xs"
  by (induction xs arbitrary: c) (simp_all add: aes.crypt_undo)

lemma concat_crypt_each: "concat (crypt_each P c xs) = fst (apply_keystream P c (concat xs))"
proof (induction xs arbitrary: c)
  case Nil
  show ?case by (simp add: apply_keystream_def)
qed (simp add: apply_keystream_append)

lemma crypt_each_lengths: "list_all2 (\<lambda>x y. length y = length x) xs (crypt_each P c xs)"
  by (induction xs arbitrary: c) simp_all

section \<open>Releasing oversized buffers\<close>

text \<open>A run of calls each of which leaves the buffers empty.\<close>

fun drained :: "prims \<Rightarrow> msg_splitter \<Rightarrow> bytes list \<Rightarrow> bool" where
  "drained P s [] \<longleftrightarrow> True"
| "drained P s (c # cs) \<longleftrightarrow>
     sp_cipher_buf (snd (split_msg P s c)) = [] \<and> \<not> sp_disabled (snd (split_msg P s c))
     \<and> drained P (snd (split_msg P s c)) cs"

definition caps_inv :: "msg_splitter \<Rightarrow> bool" where
  "caps_inv s \<longleftrightarrow> sp_plain_cap s = sp_cipher_cap s \<and> sp_idle_calls s < TRIM_AFTER_IDLE_CALLS
     \<and> length (sp_plain_buf s) = length (sp_cipher_buf s)"

lemma trim_idle_buffers_caps_inv: "caps_inv s \<Longrightarrow> caps_inv (trim_idle_buffers s)"
  by (auto simp: caps_inv_def trim_idle_buffers_def TRIM_AFTER_IDLE_CALLS_def Let_def)

text \<open>The state \<open>split_msg\<close> hands to \<open>trim_idle_buffers\<close> when parsing goes on.\<close>

lemma split_msg_trims:
  assumes "c \<noteq> []" and "\<not> sp_disabled s" and "\<not> sp_disabled (snd (split_msg P s c))"
  shows "\<exists>k. snd (split_msg P s c) = trim_idle_buffers
    (s\<lparr>sp_dec := snd (apply_keystream P (sp_dec s) c),
       sp_plain_buf := drop k (sp_plain_buf s @ fst (apply_keystream P (sp_dec s) c)),
       sp_cipher_buf := drop k (sp_cipher_buf s @ c),
       sp_plain_cap := vec_extend_cap (sp_plain_cap s) (length (sp_plain_buf s)) (length c),
       sp_cipher_cap := vec_extend_cap (sp_cipher_cap s) (length (sp_cipher_buf s)) (length c)\<rparr>)"
proof (cases "snd (split_loop (sp_proto s) (sp_plain_buf s @ fst (apply_keystream P (sp_dec s) c))
    (sp_cipher_buf s @ c) 0 [])")
  case None
  then have "sp_disabled (snd (split_msg P s c))"
    using assms(1,2) by (simp add: split_msg_def Let_def)
  with assms(3) show ?thesis by blast
next
  case (Some k)
  with assms(1,2) show ?thesis
    by (intro exI [of _ k], cases s) (simp add: split_msg_def Let_def)
qed

lemma split_msg_caps_inv:
  assumes "caps_inv s"
  shows "caps_inv (snd (split_msg P s c))"
proof (cases "c = [] \<or> sp_disabled s")
  case True
  then show ?thesis using assms by (auto simp: split_msg_def)
next
  case False
  show ?thesis
  proof (cases "sp_disabled (snd (split_msg P s c))")
    case True
    have "snd (split_loop (sp_proto s) (sp_plain_buf s @ fst (apply_keystream P (sp_dec s) c))
        (sp_cipher_buf s @ c) 0 []) = None"
      using True False by (auto simp: split_msg_def Let_def split: option.splits)
    then show ?thesis
      using False assms by (simp add: split_msg_def Let_def caps_inv_def)
  next
    case on: False
    from split_msg_trims [of c s P] False on obtain k where
      "snd (split_msg P s c) = trim_idle_buffers
        (s\<lparr>sp_dec := snd (apply_keystream P (sp_dec s) c),
           sp_plain_buf := drop k (sp_plain_buf s @ fst (apply_keystream P (sp_dec s) c)),
           sp_cipher_buf := drop k (sp_cipher_buf s @ c),
           sp_plain_cap := vec_extend_cap (sp_plain_cap s) (length (sp_plain_buf s)) (length c),
           sp_cipher_cap := vec_extend_cap (sp_cipher_cap s) (length (sp_cipher_buf s)) (length c)\<rparr>)"
      by blast
    then show ?thesis
      using assms by (simp only:) (rule trim_idle_buffers_caps_inv, simp add: caps_inv_def)
  qed
qed

lemma split_all_caps_inv: "caps_inv s \<Longrightarrow> caps_inv (snd (split_all P s cs))"
  by (induction cs arbitrary: s) (simp_all add: split_msg_caps_inv case_prod_unfold Let_def)

lemma split_msg_drained_caps:
  assumes "sp_cipher_buf s = []" and "\<not> sp_disabled s" and "c \<noteq> []" and "length c \<le> RETAINED_CAPACITY"
    and "sp_cipher_buf (snd (split_msg P s c)) = []" and "\<not> sp_disabled (snd (split_msg P s c))"
    and "RETAINED_CAPACITY \<le> sp_cipher_cap s" and "sp_idle_calls s < TRIM_AFTER_IDLE_CALLS"
  shows "sp_cipher_cap (snd (split_msg P s c)) = RETAINED_CAPACITY \<or>
    (sp_cipher_cap (snd (split_msg P s c)) = sp_cipher_cap s
     \<and> unat (sp_idle_calls (snd (split_msg P s c))) = Suc (unat (sp_idle_calls s)) \<and> unat (sp_idle_calls s) < 63)"
proof -
  obtain k where k: "snd (split_msg P s c) = trim_idle_buffers
    (s\<lparr>sp_dec := snd (apply_keystream P (sp_dec s) c),
       sp_plain_buf := drop k (sp_plain_buf s @ fst (apply_keystream P (sp_dec s) c)),
       sp_cipher_buf := drop k (sp_cipher_buf s @ c),
       sp_plain_cap := vec_extend_cap (sp_plain_cap s) (length (sp_plain_buf s)) (length c),
       sp_cipher_cap := vec_extend_cap (sp_cipher_cap s) (length (sp_cipher_buf s)) (length c)\<rparr>)"
    using split_msg_trims [OF assms(3,2,6)] by blast
  have cap: "vec_extend_cap (sp_cipher_cap s) (length (sp_cipher_buf s)) (length c) = sp_cipher_cap s"
    using assms by (simp add: vec_extend_cap_def)
  have buf: "drop k (sp_cipher_buf s @ c) = []"
    using assms(5) unfolding k by simp
  have i: "unat (sp_idle_calls s) < 64"
    using assms(8) by (simp add: TRIM_AFTER_IDLE_CALLS_def word_less_nat_alt)
  then have "unat (sp_idle_calls s + 1) = Suc (unat (sp_idle_calls s))" "sp_idle_calls s \<noteq> 255"
    by (auto simp: unat_word_ariths)
  with i show ?thesis
    unfolding k using buf cap assms(7)
    by (auto simp: trim_idle_buffers_def Let_def TRIM_AFTER_IDLE_CALLS_def vec_shrink_cap_def
        word_less_nat_alt)
qed

lemma drained_caps:
  assumes "caps_inv s" and "sp_cipher_buf s = []" and "\<not> sp_disabled s"
    and "RETAINED_CAPACITY \<le> sp_cipher_cap s" and "drained P s cs"
    and "\<forall>c \<in> set cs. c \<noteq> [] \<and> length c \<le> RETAINED_CAPACITY"
    and "sp_cipher_cap s = RETAINED_CAPACITY \<or> 64 \<le> length cs + unat (sp_idle_calls s)"
  shows "sp_cipher_cap (snd (split_all P s cs)) = RETAINED_CAPACITY"
  using assms
proof (induction cs arbitrary: s)
  case Nil
  then show ?case
    by (auto simp: caps_inv_def TRIM_AFTER_IDLE_CALLS_def word_less_nat_alt)
next
  case (Cons c cs)
  let ?s = "snd (split_msg P s c)"
  have "sp_idle_calls s < TRIM_AFTER_IDLE_CALLS" using Cons.prems(1) by (simp add: caps_inv_def)
  with Cons.prems have step: "sp_cipher_cap ?s = RETAINED_CAPACITY \<or>
      (sp_cipher_cap ?s = sp_cipher_cap s \<and> unat (sp_idle_calls ?s) = Suc (unat (sp_idle_calls s))
        \<and> unat (sp_idle_calls s) < 63)"
    by (intro split_msg_drained_caps) auto
  have "sp_cipher_cap (snd (split_all P ?s cs)) = RETAINED_CAPACITY"
  proof (rule Cons.IH)
    show "sp_cipher_cap ?s = RETAINED_CAPACITY \<or> 64 \<le> length cs + unat (sp_idle_calls ?s)"
      using step Cons.prems(7) by auto
    show "RETAINED_CAPACITY \<le> sp_cipher_cap ?s" using step Cons.prems(4) by auto
  qed (use Cons.prems split_msg_caps_inv in auto)
  then show ?case by (simp add: case_prod_unfold Let_def)
qed

text \<open>A read that is exactly one packet leaves nothing behind.\<close>

lemma split_msg_one_packet:
  assumes "sp_cipher_buf s = []" and "sp_plain_buf s = []" and "\<not> sp_disabled s" and "c \<noteq> []"
    and "packet_len (sp_proto s) (decrypted P (sp_dec s) c) = Some (length c)"
  shows "fst (split_msg P s c) = [c] \<and> sp_cipher_buf (snd (split_msg P s c)) = []
    \<and> sp_plain_buf (snd (split_msg P s c)) = [] \<and> \<not> sp_disabled (snd (split_msg P s c))
    \<and> sp_proto (snd (split_msg P s c)) = sp_proto s"
proof -
  have "frame (packet_len (sp_proto s)) (sp_plain_buf s @ decrypted P (sp_dec s) c) (sp_cipher_buf s @ c)
      = ([c], Some ([], []))"
    using assms fmt.frame_step [OF assms(5)] by (simp add: fmt.frame_None fmt.plen_Nil)
  from split_msg_frame [OF assms(4,3) _ this] assms(1,2) show ?thesis by simp
qed

text \<open>Primitives with an all-zero keystream: ciphertext and plaintext coincide.\<close>

definition null_prims :: prims where
  "null_prims = example_prims\<lparr>keystream := (\<lambda>k v i. 0)\<rparr>"

lemma decrypted_null [simp]: "decrypted null_prims c x = x"
  by (rule nth_equalityI) (simp_all add: decrypted_def nth_apply_keystream null_prims_def)

lemma small_packet_drains:
  assumes "sp_cipher_buf s = []" and "sp_plain_buf s = []" and "\<not> sp_disabled s"
    and "sp_proto s = Intermediate"
  shows "drained null_prims s (replicate n [1, 0, 0, 0, 9])"
  using assms
proof (induction n arbitrary: s)
  case (Suc n)
  have "packet_len Intermediate [1, 0, 0, 0, 9] = Some 5" by code_simp
  with Suc show ?case
    using split_msg_one_packet [of s "[1, 0, 0, 0, 9]" null_prims] by simp
qed simp

section \<open>Properties of the splitter\<close>

text \<open>(C8) However the client's stream is cut into reads, the WebSocket messages the
  splitter emits are the reference framing of the whole stream, and what it still buffers
  is exactly the incomplete last packet.\<close>

theorem split_refines_framing:
  assumes "splitter_new P relay_init proto = Done s"
    and "framing P (sp_dec s) proto (concat cs) = (packets, Some (plain_tail, cipher_tail))"
  shows "fst (split_all P s cs) = packets
    \<and> sp_cipher_buf (snd (split_all P s cs)) = cipher_tail
    \<and> sp_plain_buf (snd (split_all P s cs)) = plain_tail
    \<and> \<not> sp_disabled (snd (split_all P s cs))"
  using assms by (rule split_all_new)

definition example_stream :: "bytes" where
  "example_stream = fst (apply_keystream example_prims
     \<lparr>ctr_key = replicate 32 1, ctr_iv = replicate 16 1, ctr_pos = 64\<rparr>
     [4, 0, 0, 0, 10, 20, 30, 40, 2, 0, 0, 0, 50])"

lemma example_splitter_new:
  "\<exists>s. splitter_new example_prims (replicate 64 1) Intermediate = Done s
     \<and> sp_dec s = \<lparr>ctr_key = replicate 32 1, ctr_iv = replicate 16 1, ctr_pos = 64\<rparr>"
  by (simp add: splitter_new_def layout_simps subrange_def)

lemma example_framing:
  "framing example_prims \<lparr>ctr_key = replicate 32 1, ctr_iv = replicate 16 1, ctr_pos = 64\<rparr>
     Intermediate example_stream
   = ([take 8 example_stream], Some ([2, 0, 0, 0, 50], drop 8 example_stream))"
  by code_simp

theorem split_refines_framing_witness:
  "\<exists>s. splitter_new example_prims (replicate 64 1) Intermediate = Done s
     \<and> fst (split_all example_prims s [take 3 example_stream, [], drop 3 example_stream])
       = [take 8 example_stream]
     \<and> sp_cipher_buf (snd (split_all example_prims s [take 3 example_stream, [], drop 3 example_stream]))
       = drop 8 example_stream"
proof -
  obtain s where s: "splitter_new example_prims (replicate 64 1) Intermediate = Done s"
      "sp_dec s = \<lparr>ctr_key = replicate 32 1, ctr_iv = replicate 16 1, ctr_pos = 64\<rparr>"
    using example_splitter_new by blast
  have "concat [take 3 example_stream, [], drop 3 example_stream] = example_stream" by simp
  then have "framing example_prims (sp_dec s) Intermediate
      (concat [take 3 example_stream, [], drop 3 example_stream])
      = ([take 8 example_stream], Some ([2, 0, 0, 0, 50], drop 8 example_stream))"
    using example_framing s(2) by simp
  from split_refines_framing [OF s(1) this] s(1) show ?thesis by blast
qed

text \<open>(C23) Each WebSocket message carries exactly one MTProto packet. Let a client send any packets, encoded by the transport's rules, and
  a part of a further one; let the relay encryptor encipher that stream in any reads. Deciphered with the same
  cipher, as the data centre does, the splitter's messages are these packets, one each, in order; it still holds the part of the last
  one and goes on splitting.\<close>

theorem one_packet_per_message:
  assumes "splitter_new P relay_init proto = Done s"
    and "build_connection_ciphers P prekey_and_iv secret relay_init = Done ciphers"
    and "list_all (sendable proto) packets" and "sendable proto partial" and "k < length (transport_packet proto partial)"
    and "concat reads = concat (map (transport_packet proto) packets) @ take k (transport_packet proto partial)"
  defines "sent \<equiv> split_all P s (crypt_each P (tg_enc ciphers) reads)"
  shows "crypt_each P (tg_enc ciphers) (fst sent) = map (transport_packet proto) packets
    \<and> sp_plain_buf (snd sent) = take k (transport_packet proto partial) \<and> \<not> sp_disabled (snd sent)"
proof -
  let ?c = "tg_enc ciphers" and ?qs = "map (transport_packet proto) packets" and ?r = "take k (transport_packet proto partial)"
  define ms where "ms = crypt_each P ?c ?qs"
  define rc where "rc = fst (apply_keystream P (snd (apply_keystream P ?c (concat ?qs))) ?r)"
  have dec: "sp_dec s = ?c"
    using assms(1,2) by (auto simp: splitter_new_def build_connection_ciphers_def Let_def run_bind_eq_Done)
  have whole: "packet_len proto (transport_packet proto x) = Some (length (transport_packet proto x)) \<and> transport_packet proto x \<noteq> []"
    if "sendable proto x" for x
    using packet_len_transport [OF that, of "length (transport_packet proto x)" "[]"] fmt.plen_Nil [of proto] by auto
  have "packet_len proto ?r = None"
    using packet_len_transport [OF assms(4), of k] assms(5) by simp
  moreover have "list_all2 (\<lambda>q m. packet_len proto q = Some (length q) \<and> length m = length q \<and> q \<noteq> []) ?qs ms"
    using crypt_each_lengths [of ?qs P ?c] whole assms(3) unfolding ms_def
    by (auto simp: list_all2_conv_all_nth list_all_length)
  moreover have "concat (crypt_each P ?c reads) = concat ms @ rc"
    by (simp add: concat_crypt_each assms(6) ms_def rc_def apply_keystream_append)
  moreover have "decrypted P ?c (concat (crypt_each P ?c reads)) = concat ?qs @ ?r"
    by (simp add: decrypted_def concat_crypt_each aes.crypt_undo assms(6))
  ultimately have "framing P (sp_dec s) proto (concat (crypt_each P ?c reads)) = (ms, Some (?r, rc))"
    unfolding framing_def dec by (simp add: fmt.frame_concat rc_def)
  from split_all_new [OF assms(1) this] show ?thesis
    unfolding sent_def by (simp add: ms_def crypt_each_undo)
qed

theorem one_packet_per_message_witness:
  "\<exists>s ciphers. splitter_new example_prims (replicate 64 1) Abridged = Done s
    \<and> build_connection_ciphers example_prims (replicate 48 2) [5] (replicate 64 1) = Done ciphers
    \<and> crypt_each example_prims (tg_enc ciphers) (fst (split_all example_prims s
         (crypt_each example_prims (tg_enc ciphers) [[1, 10, 20], [30, 40, 129, 50, 60], [], [70, 80, 2, 90]])))
       = [[1, 10, 20, 30, 40], [129, 50, 60, 70, 80]]"
proof -
  obtain s where s: "splitter_new example_prims (replicate 64 1) Abridged = Done s"
    using splitter_new_Done [of "replicate 64 1"] by (auto simp: layout_simps)
  obtain cs where cs: "build_connection_ciphers example_prims (replicate 48 2) [5] (replicate 64 1) = Done cs"
    using example_prims_ok by (auto simp: build_connection_ciphers_def Let_def layout_simps subrange_def)
  let ?ps = "[(False, [10, 20, 30, 40]), (True, [50, 60, 70, 80])] :: (bool \<times> bytes) list" and ?p = "(False, [90, 91, 92, 93, 94, 95, 96, 97]) :: bool \<times> bytes"
  let ?reads = "[[1, 10, 20], [30, 40, 129, 50, 60], [], [70, 80, 2, 90]] :: bytes list"
  have t: "map (transport_packet Abridged) ?ps = [[1, 10, 20, 30, 40], [129, 50, 60, 70, 80]]"
    "transport_packet Abridged ?p = [2, 90, 91, 92, 93, 94, 95, 96, 97]" by code_simp+
  have d: "4 dvd Suc (Suc (Suc (Suc 0)))" "4 dvd Suc (Suc (Suc (Suc (Suc (Suc (Suc (Suc 0)))))))" by presburger+
  have ok: "list_all (sendable Abridged) ?ps" "sendable Abridged ?p" "2 < length (transport_packet Abridged ?p)"
    "concat ?reads = concat (map (transport_packet Abridged) ?ps) @ take 2 (transport_packet Abridged ?p)"
    unfolding t by (simp_all add: d)
  from one_packet_per_message [OF s cs ok] s cs show ?thesis unfolding t by blast
qed

text \<open>(C24) No byte is lost, duplicated or reordered: for any reads, and whether or not the
  stream made the splitter give up parsing, the messages sent plus the final flush are the
  bytes that came in.\<close>

theorem split_conserves_bytes:
  assumes "splitter_new P relay_init proto = Done s"
  shows "concat (fst (split_all P s cs)) @ concat (fst (flush (snd (split_all P s cs)))) = concat cs"
  using split_all_conserves [of s P cs] splitter_new_fresh [OF assms]
  by (simp add: concat_flush splitter_fresh_def)

theorem split_conserves_bytes_witness:
  "\<exists>s. splitter_new example_prims (replicate 64 1) Abridged = Done s
     \<and> concat (fst (split_all example_prims s [[1, 2, 3], [], [4]]))
        @ concat (fst (flush (snd (split_all example_prims s [[1, 2, 3], [], [4]])))) = [1, 2, 3, 4]"
proof -
  obtain s where s: "splitter_new example_prims (replicate 64 1) Abridged = Done s"
    using splitter_new_Done [of "replicate 64 1"] by (auto simp: layout_simps)
  from split_conserves_bytes [OF s, of "[[1, 2, 3], [], [4]]"] s show ?thesis by simp
qed

text \<open>(C38) Oversized buffers are given back: once 64 consecutive reads of at most 16 KiB
  each leave the splitter with nothing buffered, both buffers are back to 16 KiB of
  capacity, whatever large packet had grown them before.\<close>

theorem idle_buffers_released:
  assumes "splitter_new P relay_init proto = Done s0"
    and "s = snd (split_all P s0 earlier)" and "sp_cipher_buf s = []" and "\<not> sp_disabled s"
    and "RETAINED_CAPACITY \<le> sp_cipher_cap s"
    and "drained P s cs" and "\<forall>c \<in> set cs. c \<noteq> [] \<and> length c \<le> RETAINED_CAPACITY"
    and "unat TRIM_AFTER_IDLE_CALLS \<le> length cs"
  shows "sp_cipher_cap (snd (split_all P s cs)) = RETAINED_CAPACITY
    \<and> sp_plain_cap (snd (split_all P s cs)) = RETAINED_CAPACITY"
proof -
  have "caps_inv s0"
    using assms(1) by (auto simp: splitter_new_def run_bind_eq_Done caps_inv_def TRIM_AFTER_IDLE_CALLS_def)
  then have inv: "caps_inv s" using assms(2) by (simp add: split_all_caps_inv)
  have cap: "sp_cipher_cap (snd (split_all P s cs)) = RETAINED_CAPACITY"
    using drained_caps [OF inv assms(3,4,5,6,7)] assms(8) by (simp add: TRIM_AFTER_IDLE_CALLS_def)
  moreover have "caps_inv (snd (split_all P s cs))" using inv by (rule split_all_caps_inv)
  ultimately show ?thesis by (simp add: caps_inv_def)
qed

theorem idle_buffers_released_witness:
  "\<exists>s0 s. splitter_new null_prims (replicate 64 1) Intermediate = Done s0
    \<and> s = snd (split_all null_prims s0 [[0x20, 0x4e, 0, 0] @ replicate 20000 0])
    \<and> sp_cipher_cap s = 20004
    \<and> sp_cipher_cap (snd (split_all null_prims s (replicate 64 [1, 0, 0, 0, 9]))) = RETAINED_CAPACITY"
proof -
  obtain s0 where s0: "splitter_new null_prims (replicate 64 1) Intermediate = Done s0"
    using splitter_new_Done [of "replicate 64 1"] by (auto simp: layout_simps)
  then have new: "sp_cipher_buf s0 = []" "sp_plain_buf s0 = []" "\<not> sp_disabled s0"
      "sp_proto s0 = Intermediate" "sp_cipher_cap s0 = 0" "sp_idle_calls s0 = 0"
    by (auto simp: splitter_new_def run_bind_eq_Done)
  let ?big = "[0x20, 0x4e, 0, 0] @ replicate 20000 0 :: bytes"
  define s where "s = snd (split_all null_prims s0 [?big])"
  have s: "s = snd (split_msg null_prims s0 ?big)"
    by (simp add: s_def case_prod_unfold Let_def)
  have "unat (u32_from_le 0x20 0x4e 0 0 AND 0x7FFFFFFF) = 20000" by code_simp
  then have "packet_len Intermediate ?big = Some (length ?big)"
    by (simp add: packet_len_defs complete_len_def)
  then have drained: "sp_cipher_buf s = []" "sp_plain_buf s = []" "\<not> sp_disabled s" "sp_proto s = Intermediate"
    using split_msg_one_packet [of s0 ?big null_prims] new unfolding s by auto
  have cap: "sp_cipher_cap s = 20004"
  proof -
    have "\<not> sp_disabled (snd (split_msg null_prims s0 ?big))" "?big \<noteq> []" using drained s by simp_all
    from split_msg_trims [OF this(2) new(3) this(1)] drained(1) new show ?thesis
      unfolding s by (auto simp: trim_idle_buffers_def Let_def vec_extend_cap_def RETAINED_CAPACITY_def
          TRIM_AFTER_IDLE_CALLS_def)
  qed
  have "sp_cipher_cap (snd (split_all null_prims s (replicate 64 [1, 0, 0, 0, 9]))) = RETAINED_CAPACITY"
    using idle_buffers_released [OF s0 s_def drained(1,3) _ small_packet_drains [OF drained, of 64]] cap
    by (simp add: RETAINED_CAPACITY_def TRIM_AFTER_IDLE_CALLS_def)
  with s0 s_def cap show ?thesis by blast
qed

end
