(* ===== verification/Bridge.thy ===== *)
theory Bridge
  imports Splitter Faketls "HOL-Library.Sublist"
begin

text \<open>
  The bridges of \<open>rust/src/proxy.rs\<close>: once an upstream is connected, two tasks copy bytes between
  the client and the upstream, each deciphering with the cipher of one side and enciphering with
  that of the other, until one of them ends and the other is aborted.

  A task is its local variables and the await point it is suspended at. \<open>upload_step\<close> and
  \<open>download_step\<close> run a task from one await point to the next; the event says how the awaited
  operation came out. \<open>bridge_step\<close> interleaves the two tasks and \<open>join_bridge\<close>. Log calls are left out.
\<close>

section \<open>Client side framing\<close>

definition RELAY_BUF_SIZE :: nat where [layout_simps]: "RELAY_BUF_SIZE = 16 * 1024"
definition TLS_READ_HEADROOM :: nat where [layout_simps]: "TLS_READ_HEADROOM = 256"
definition CLIENT_READ_BUF_SIZE :: nat where
  [layout_simps]: "CLIENT_READ_BUF_SIZE = TLS_MAX_RECORD_PAYLOAD + TLS_READ_HEADROOM"

text \<open>\<open>AsyncRead::read\<close> on a socket with \<open>ready\<close> bytes buffered: at least one byte, at most the
  buffer, nothing only at the end of the stream.\<close>

definition raw_read :: "nat \<Rightarrow> nat \<Rightarrow> bytes \<Rightarrow> bytes \<times> bytes" where
  "raw_read buf_len ready inp = (let n = min buf_len (max 1 ready) in (take n inp, drop n inp))"

datatype client_reader =
  ReaderPlain bytes
| ReaderFakeTls bytes bytes \<comment> \<open>the socket and the bytes that came with the handshake\<close>

fun client_read :: "nat \<Rightarrow> nat \<Rightarrow> client_reader \<Rightarrow> bytes \<times> client_reader" where
  "client_read buf_len ready (ReaderPlain inp) =
     (let r = raw_read buf_len ready inp in (fst r, ReaderPlain (snd r)))"
| "client_read buf_len ready (ReaderFakeTls inp pending) =
     (if pending \<noteq> [] then
        let n = min buf_len (length pending) in (take n pending, ReaderFakeTls inp (drop n pending))
      else
        let r = read_tls_appdata buf_len inp in (fst r, ReaderFakeTls (snd r) []))"

fun client_drain :: "client_reader \<Rightarrow> client_reader" where
  "client_drain (ReaderPlain inp) = ReaderPlain []"
| "client_drain (ReaderFakeTls inp pending) = ReaderFakeTls [] pending"

text \<open>The \<open>write_all\<close> calls of \<open>write_tls_appdata\<close>: a header and a chunk per record.\<close>

definition appdata_writes :: "bytes \<Rightarrow> bytes list" where
  "appdata_writes data =
     concat (map (\<lambda>c. [appdata_header (length c), c]) (chunks TLS_MAX_APPDATA_WRITE data))"

datatype client_writer = WriterPlain | WriterFakeTls

fun client_writes :: "client_writer \<Rightarrow> bytes \<Rightarrow> bytes list" where
  "client_writes WriterPlain data = [data]"
| "client_writes WriterFakeTls data = appdata_writes data"

section \<open>Tasks\<close>

text \<open>What the other side of a bridge is: a WebSocket, with the splitter when it is framed packet by
  packet; an upstream proxy, FakeTLS or plain; or a TCP connection to a data centre.\<close>

datatype link = WsLink "msg_splitter option" | RelayLink bool | TcpLink

fun upload_pieces :: "prims \<Rightarrow> link \<Rightarrow> bytes \<Rightarrow> bytes list \<times> link" where
  "upload_pieces P (WsLink (Some s)) chunk = (let r = split_msg P s chunk in (fst r, WsLink (Some (snd r))))"
| "upload_pieces P (WsLink None) chunk = ([chunk], WsLink None)"
| "upload_pieces P (RelayLink faketls) chunk =
     ((if faketls then appdata_writes chunk else [chunk]), RelayLink faketls)"
| "upload_pieces P TcpLink chunk = ([chunk], TcpLink)"

text \<open>The await points. \<open>Writing ps n\<close>: the pieces \<open>ps\<close> of an \<open>n\<close>-byte read are still to be sent.
  \<open>Flushing ps\<close>: the reads are over, the last messages and the close are to be sent.\<close>

datatype phase = Reading | Writing "bytes list" nat | Flushing "bytes list" | Ended | Aborted

datatype event =
  Go nat \<comment> \<open>the operation succeeds; a read finds this many bytes\<close>
| Fail nat \<comment> \<open>it fails; of a write to a socket, this many bytes had gone out\<close>

type_synonym u64 = "64 word"

record uploader =
  up_reader :: client_reader
  up_clt_dec :: aes_ctr256
  up_tg_enc :: aes_ctr256
  up_link :: link
  up_phase :: phase
  up_out :: "bytes list" \<comment> \<open>what the upstream accepted: messages or writes\<close>
  up_closed :: bool
  up_bytes :: u64

definition upload_sent :: "nat \<Rightarrow> bytes list \<Rightarrow> uploader \<Rightarrow> uploader" where
  "upload_sent n ps u =
     (if ps = [] then u\<lparr>up_phase := Reading, up_bytes := up_bytes u + of_nat n\<rparr>
      else u\<lparr>up_phase := Writing ps n\<rparr>)"

definition upload_stop :: "uploader \<Rightarrow> uploader" where
  "upload_stop u =
     (case up_link u of
        WsLink (Some s) \<Rightarrow> (let r = flush s in u\<lparr>up_link := WsLink (Some (snd r)), up_phase := Flushing (fst r)\<rparr>)
      | WsLink None \<Rightarrow> u\<lparr>up_phase := Flushing []\<rparr>
      | _ \<Rightarrow> u\<lparr>up_phase := Ended\<rparr>)"

definition upload_read :: "prims \<Rightarrow> nat \<Rightarrow> uploader \<Rightarrow> uploader" where
  "upload_read P ready u =
     (let r = client_read CLIENT_READ_BUF_SIZE ready (up_reader u); chunk = fst r; u1 = u\<lparr>up_reader := snd r\<rparr> in
      if chunk = [] then upload_stop u1
      else
        let d = apply_keystream P (up_clt_dec u) chunk;
            e = apply_keystream P (up_tg_enc u) (fst d);
            p = upload_pieces P (up_link u) (fst e)
        in upload_sent (length chunk) (fst p) (u1\<lparr>up_clt_dec := snd d, up_tg_enc := snd e, up_link := snd p\<rparr>))"

text \<open>A failed WebSocket send delivers no message; a failed socket write may have sent a part.\<close>

fun partial_write :: "link \<Rightarrow> nat \<Rightarrow> bytes \<Rightarrow> bytes list" where
  "partial_write (WsLink s) k p = []"
| "partial_write _ k p = [take k p]"

definition upload_step :: "prims \<Rightarrow> event \<Rightarrow> uploader \<Rightarrow> uploader" where
  "upload_step P ev u =
     (case up_phase u of
        Reading \<Rightarrow> (case ev of Go ready \<Rightarrow> upload_read P ready u | Fail _ \<Rightarrow> upload_stop u)
      | Writing [] n \<Rightarrow> upload_sent n [] u
      | Writing (p # ps) n \<Rightarrow>
          (case ev of
             Go _ \<Rightarrow> upload_sent n ps (u\<lparr>up_out := up_out u @ [p]\<rparr>)
           | Fail k \<Rightarrow> u\<lparr>up_out := up_out u @ partial_write (up_link u) k p, up_phase := Ended\<rparr>)
      | Flushing [] \<Rightarrow> u\<lparr>up_closed := (case ev of Go _ \<Rightarrow> True | Fail _ \<Rightarrow> False), up_phase := Ended\<rparr>
      | Flushing (p # ps) \<Rightarrow>
          (case ev of
             Go _ \<Rightarrow> u\<lparr>up_out := up_out u @ [p], up_phase := Flushing ps\<rparr>
           | Fail _ \<Rightarrow> u\<lparr>up_phase := Flushing ps\<rparr>)
      | Ended \<Rightarrow> u
      | Aborted \<Rightarrow> u)"

text \<open>\<open>Closing\<close> is a close frame or an error; the list ends when the stream does.\<close>

datatype ws_item = Binary bytes | Text bytes | Ping bytes | Pong bytes | RawFrame bytes | Closing

fun ends_source :: "ws_item \<Rightarrow> bool" where
  "ends_source Closing = True"
| "ends_source (RawFrame d) = True"
| "ends_source _ = False"

datatype source = WsSource "ws_item list" | RelaySource bool bytes | TcpSource bytes

datatype incoming = Chunk bytes | Skip | Stop

definition chunk_or_stop :: "bytes \<Rightarrow> incoming" where
  "chunk_or_stop d = (if d = [] then Stop else Chunk d)"

fun download_read :: "nat \<Rightarrow> source \<Rightarrow> incoming \<times> source" where
  "download_read ready (WsSource []) = (Stop, WsSource [])"
| "download_read ready (WsSource (Binary b # ms)) = (Chunk b, WsSource ms)"
| "download_read ready (WsSource (Text t # ms)) = (Chunk t, WsSource ms)"
| "download_read ready (WsSource (Ping d # ms)) = (Skip, WsSource ms)"
| "download_read ready (WsSource (Pong d # ms)) = (Skip, WsSource ms)"
| "download_read ready (WsSource (RawFrame d # ms)) = (Stop, WsSource ms)"
| "download_read ready (WsSource (Closing # ms)) = (Stop, WsSource ms)"
| "download_read ready (RelaySource faketls inp) =
     (let r = (if faketls then read_tls_appdata (TLS_MAX_RECORD_PAYLOAD + TLS_READ_HEADROOM) inp
               else raw_read RELAY_BUF_SIZE ready inp)
      in (chunk_or_stop (fst r), RelaySource faketls (snd r)))"
| "download_read ready (TcpSource inp) =
     (let r = raw_read RELAY_BUF_SIZE ready inp in (chunk_or_stop (fst r), TcpSource (snd r)))"

record downloader =
  dn_source :: source
  dn_writer :: client_writer
  dn_tg_dec :: aes_ctr256
  dn_clt_enc :: aes_ctr256
  dn_phase :: phase
  dn_out :: "bytes list"
  dn_bytes :: u64

definition download_sent :: "nat \<Rightarrow> bytes list \<Rightarrow> downloader \<Rightarrow> downloader" where
  "download_sent n ps d =
     (if ps = [] then d\<lparr>dn_phase := Reading, dn_bytes := dn_bytes d + of_nat n\<rparr>
      else d\<lparr>dn_phase := Writing ps n\<rparr>)"

definition download_received :: "prims \<Rightarrow> nat \<Rightarrow> downloader \<Rightarrow> downloader" where
  "download_received P ready d =
     (let r = download_read ready (dn_source d); d1 = d\<lparr>dn_source := snd r\<rparr> in
      case fst r of
        Stop \<Rightarrow> d1\<lparr>dn_phase := Ended\<rparr>
      | Skip \<Rightarrow> d1
      | Chunk data \<Rightarrow>
          let x = apply_keystream P (dn_tg_dec d) data;
              y = apply_keystream P (dn_clt_enc d) (fst x)
          in download_sent (length data) (client_writes (dn_writer d) (fst y))
               (d1\<lparr>dn_tg_dec := snd x, dn_clt_enc := snd y\<rparr>))"

definition download_step :: "prims \<Rightarrow> event \<Rightarrow> downloader \<Rightarrow> downloader" where
  "download_step P ev d =
     (case dn_phase d of
        Reading \<Rightarrow> (case ev of Go ready \<Rightarrow> download_received P ready d | Fail _ \<Rightarrow> d\<lparr>dn_phase := Ended\<rparr>)
      | Writing [] n \<Rightarrow> download_sent n [] d
      | Writing (p # ps) n \<Rightarrow>
          (case ev of
             Go _ \<Rightarrow> download_sent n ps (d\<lparr>dn_out := dn_out d @ [p]\<rparr>)
           | Fail k \<Rightarrow> d\<lparr>dn_out := dn_out d @ [take k p], dn_phase := Ended\<rparr>)
      | _ \<Rightarrow> d)"

section \<open>Bridges\<close>

datatype closed_by = Client | Upstream

record bridge =
  br_up :: uploader
  br_down :: downloader
  br_closed_by :: "closed_by option"

definition start_bridge ::
  "client_reader \<Rightarrow> client_writer \<Rightarrow> connection_ciphers \<Rightarrow> link \<Rightarrow> source \<Rightarrow> bytes list \<Rightarrow> bridge" where
  "start_bridge reader writer c link source sent =
     \<lparr>br_up = \<lparr>up_reader = reader, up_clt_dec = clt_dec c, up_tg_enc = tg_enc c, up_link = link,
        up_phase = Reading, up_out = sent, up_closed = False, up_bytes = 0\<rparr>,
      br_down = \<lparr>dn_source = source, dn_writer = writer, dn_tg_dec = tg_dec c, dn_clt_enc = clt_enc c,
        dn_phase = Reading, dn_out = [], dn_bytes = 0\<rparr>,
      br_closed_by = None\<rparr>"

text \<open>\<open>sent_ok\<close>: the relay init went out. \<open>packets\<close> is the framing \<open>WsFraming::Packets\<close>.\<close>

definition bridge_ws ::
  "prims \<Rightarrow> client_reader \<Rightarrow> client_writer \<Rightarrow> bool \<Rightarrow> ws_item list \<Rightarrow> bool \<Rightarrow> bytes \<Rightarrow> connection_ciphers
   \<Rightarrow> proto_tag \<Rightarrow> bridge option run" where
  "bridge_ws P reader writer sent_ok items packets relay_init c proto =
     (if \<not> sent_ok then Done None
      else
        run_bind (if packets then run_bind (splitter_new P relay_init proto) (\<lambda>s. Done (Some s)) else Done None)
          (\<lambda>splitter. Done (Some (start_bridge reader writer c (WsLink splitter) (WsSource items) [relay_init]))))"

definition bridge_relay ::
  "client_reader \<Rightarrow> client_writer \<Rightarrow> bytes \<Rightarrow> connection_ciphers \<Rightarrow> bool \<Rightarrow> bridge" where
  "bridge_relay reader writer rem_reader c faketls =
     start_bridge reader writer c (RelayLink faketls) (RelaySource faketls rem_reader) []"

definition bridge_tcp ::
  "client_reader \<Rightarrow> client_writer \<Rightarrow> bool \<Rightarrow> bytes \<Rightarrow> bytes \<Rightarrow> connection_ciphers \<Rightarrow> bridge option" where
  "bridge_tcp reader writer sent_ok rem_reader relay_init c =
     (if \<not> sent_ok then None
      else Some (start_bridge reader writer c TcpLink (TcpSource rem_reader) [relay_init]))"

definition abort_phase :: "phase \<Rightarrow> phase" where
  "abort_phase p = (if p = Ended then Ended else Aborted)"

fun join_bridge :: "closed_by \<Rightarrow> bridge \<Rightarrow> bridge" where
  "join_bridge Client b =
     b\<lparr>br_down := (br_down b)\<lparr>dn_phase := abort_phase (dn_phase (br_down b))\<rparr>, br_closed_by := Some Client\<rparr>"
| "join_bridge Upstream b =
     b\<lparr>br_up := (br_up b)\<lparr>up_phase := abort_phase (up_phase (br_up b))\<rparr>, br_closed_by := Some Upstream\<rparr>"

definition totals :: "bridge \<Rightarrow> u64 \<times> u64" where
  "totals b = (up_bytes (br_up b), dn_bytes (br_down b))"

text \<open>One scheduling step: a task runs to its next await point, or the select in \<open>join_bridge\<close> sees a
  task that ended and aborts the other.\<close>

inductive bridge_step :: "prims \<Rightarrow> bridge \<Rightarrow> bridge \<Rightarrow> bool" for P where
  uploads: "br_closed_by b = None \<Longrightarrow> bridge_step P b (b\<lparr>br_up := upload_step P ev (br_up b)\<rparr>)"
| downloads: "br_closed_by b = None \<Longrightarrow> bridge_step P b (b\<lparr>br_down := download_step P ev (br_down b)\<rparr>)"
| upload_ended: "br_closed_by b = None \<Longrightarrow> up_phase (br_up b) = Ended \<Longrightarrow> bridge_step P b (join_bridge Client b)"
| download_ended: "br_closed_by b = None \<Longrightarrow> dn_phase (br_down b) = Ended \<Longrightarrow> bridge_step P b (join_bridge Upstream b)"

inductive_cases bridge_stepE: "bridge_step P b b'"

inductive bridge_reach :: "prims \<Rightarrow> bridge \<Rightarrow> bridge \<Rightarrow> bool" for P b0 where
  start: "bridge_reach P b0 b0"
| step: "bridge_reach P b0 b \<Longrightarrow> bridge_step P b b' \<Longrightarrow> bridge_reach P b0 b'"

section \<open>Byte sources read in pieces\<close>

text \<open>
  What the tasks rely on from whatever they read: a read delivers the next bytes of the source's
  content, and an empty read only happens at its end.
\<close>

locale chunked_source =
  fixes rd :: "nat \<Rightarrow> 's \<Rightarrow> bytes \<times> 's"
    and content :: "'s \<Rightarrow> bytes"
  assumes rd_content: "fst (rd k s) \<noteq> [] \<Longrightarrow> content s = fst (rd k s) @ content (snd (rd k s))"
    and rd_end: "fst (rd k s) = [] \<Longrightarrow> content s = []"
begin

lemma rd_progress: "fst (rd k s) \<noteq> [] \<Longrightarrow> length (content (snd (rd k s))) < length (content s)"
  using rd_content [of k s] by simp

end

lemma read_appdata_shrinks: "fst (read_tls_appdata n r) \<noteq> [] \<Longrightarrow> length (snd (read_tls_appdata n r)) < length r"
  using read_appdata_sound [of n r "fst (read_tls_appdata n r)" "snd (read_tls_appdata n r)"]
  by (auto dest!: arg_cong [of r _ length])

text \<open>The payload a FakeTLS stream carries, up to the end or the first record the reader rejects.\<close>

function tls_payload :: "nat \<Rightarrow> bytes \<Rightarrow> bytes" where
  "tls_payload n inp =
     (let r = read_tls_appdata n inp in if fst r = [] then [] else fst r @ tls_payload n (snd r))"
  by pat_completeness auto
termination
  by (relation "measure (\<lambda>(n, inp). length inp)") (auto dest: read_appdata_shrinks)

declare tls_payload.simps [simp del]

fun reader_payload :: "client_reader \<Rightarrow> bytes" where
  "reader_payload (ReaderPlain inp) = inp"
| "reader_payload (ReaderFakeTls inp pending) = pending @ tls_payload CLIENT_READ_BUF_SIZE inp"

fun source_payload :: "source \<Rightarrow> bytes" where
  "source_payload (WsSource items) =
     concat (map (\<lambda>i. case i of Binary b \<Rightarrow> b | Text t \<Rightarrow> t | _ \<Rightarrow> []) (takeWhile (\<lambda>i. \<not> ends_source i) items))"
| "source_payload (RelaySource faketls inp) =
     (if faketls then tls_payload (TLS_MAX_RECORD_PAYLOAD + TLS_READ_HEADROOM) inp else inp)"
| "source_payload (TcpSource inp) = inp"

lemma raw_read_content: "0 < n \<Longrightarrow> inp = fst (raw_read n k inp) @ snd (raw_read n k inp)"
  by (simp add: raw_read_def Let_def)

lemma raw_read_end: "0 < n \<Longrightarrow> fst (raw_read n k inp) = [] \<longleftrightarrow> inp = []"
  by (auto simp: raw_read_def Let_def)

interpretation tls: chunked_source "\<lambda>k. read_tls_appdata n" "tls_payload n" for n
  by unfold_locales (subst tls_payload.simps, simp add: Let_def)+

interpretation client: chunked_source "client_read CLIENT_READ_BUF_SIZE" reader_payload
proof (unfold_locales, goal_cases)
  case (1 k s)
  then show ?case
    using tls.rd_content [of CLIENT_READ_BUF_SIZE] raw_read_content [of CLIENT_READ_BUF_SIZE]
    by (cases s) (auto simp: Let_def layout_simps split: if_splits)
next
  case (2 k s)
  then show ?case
    using tls.rd_end [of CLIENT_READ_BUF_SIZE] raw_read_end [of CLIENT_READ_BUF_SIZE]
    by (cases s) (auto simp: Let_def layout_simps min_def split: if_splits)
qed

lemma download_read_content:
  "fst (download_read k s) = Chunk d \<Longrightarrow> source_payload s = d @ source_payload (snd (download_read k s))"
  "fst (download_read k s) = Skip \<Longrightarrow> source_payload s = source_payload (snd (download_read k s))"
  "fst (download_read k s) = Stop \<Longrightarrow> source_payload s = []"
proof -
  note facts = tls.rd_content [of "TLS_MAX_RECORD_PAYLOAD + TLS_READ_HEADROOM"]
    tls.rd_end [of "TLS_MAX_RECORD_PAYLOAD + TLS_READ_HEADROOM"]
    raw_read_content [where n = RELAY_BUF_SIZE and k = k] raw_read_end [where n = RELAY_BUF_SIZE and k = k]
  show "fst (download_read k s) = Chunk d \<Longrightarrow> source_payload s = d @ source_payload (snd (download_read k s))"
    using facts by (cases "(k, s)" rule: download_read.cases)
      (auto simp: Let_def chunk_or_stop_def layout_simps split: if_splits)
  show "fst (download_read k s) = Skip \<Longrightarrow> source_payload s = source_payload (snd (download_read k s))"
    by (cases "(k, s)" rule: download_read.cases) (auto simp: Let_def chunk_or_stop_def split: if_splits)
  show "fst (download_read k s) = Stop \<Longrightarrow> source_payload s = []"
    using facts by (cases "(k, s)" rule: download_read.cases)
      (auto simp: Let_def chunk_or_stop_def layout_simps split: if_splits)
qed

section \<open>Re-encryption\<close>

text \<open>Deciphering for one side and enciphering for the other is itself a stream cipher.\<close>

definition recrypt :: "prims \<Rightarrow> aes_ctr256 \<times> aes_ctr256 \<Rightarrow> bytes \<Rightarrow> bytes \<times> (aes_ctr256 \<times> aes_ctr256)" where
  "recrypt P c xs =
     (let d = apply_keystream P (fst c) xs; e = apply_keystream P (snd c) (fst d)
      in (fst e, (snd d, snd e)))"

interpretation relay: stream_cipher "recrypt P" for P
proof (unfold_locales, goal_cases)
  case (3 c xs ys)
  show ?case by (simp add: recrypt_def Let_def apply_keystream_append)
next
  case (5 c xs)
  show ?case
    by (rule nth_equalityI)
       (auto simp: recrypt_def Let_def nth_apply_keystream xor.assoc xor.left_commute)
qed (simp_all add: recrypt_def Let_def aes.crypt_Nil)

lemma recrypt_peer:
  "fst (apply_keystream P (snd c) (fst (recrypt P c xs))) = fst (apply_keystream P (fst c) xs)"
  by (simp add: recrypt_def Let_def aes.crypt_undo)

section \<open>What a task has sent\<close>

text \<open>The pieces sent for a sequence of enciphered reads, and what the link still holds back.\<close>

fun upload_all :: "prims \<Rightarrow> link \<Rightarrow> bytes list \<Rightarrow> bytes list \<times> link" where
  "upload_all P l [] = ([], l)"
| "upload_all P l (x # xs) =
     (let r = upload_pieces P l x; t = upload_all P (snd r) xs in (fst r @ fst t, snd t))"

fun held_back :: "link \<Rightarrow> bytes" where
  "held_back (WsLink (Some s)) = sp_cipher_buf s"
| "held_back _ = []"

lemma upload_all_snoc:
  "upload_all P l (xs @ [x]) =
     (let r = upload_all P l xs; t = upload_pieces P (snd r) x in (fst r @ fst t, snd t))"
  by (induction xs arbitrary: l) (simp_all add: Let_def)

lemma crypt_chunks_snoc:
  "crypt_chunks f c (xs @ [x]) =
     (let r = crypt_chunks f c xs; t = f (snd r) x in (fst r @ [fst t], snd t))"
  by (induction xs arbitrary: c) (simp_all add: Let_def case_prod_unfold)

text \<open>
  How the sent pieces relate to the wire content \<open>W\<close> of the \<open>m\<close> bytes read so far, at each await
  point. \<open>hold\<close> is what only the final flush sends; \<open>good\<close> says that no operation has failed, and
  \<open>fin\<close> that the source is exhausted.
\<close>

definition pump_inv ::
  "bool \<Rightarrow> bool \<Rightarrow> bytes \<Rightarrow> bytes \<Rightarrow> nat \<Rightarrow> phase \<Rightarrow> bytes list \<Rightarrow> u64 \<Rightarrow> bool" where
  "pump_inv good fin W hold m ph out cnt \<longleftrightarrow>
     (case ph of
        Reading \<Rightarrow> concat out = W \<and> cnt = of_nat m
      | Writing qs n \<Rightarrow> concat out @ concat qs = W \<and> n \<le> m \<and> cnt + of_nat n = of_nat m
      | Flushing qs \<Rightarrow> length qs \<le> 1 \<and> prefix (concat out @ concat qs) (W @ hold) \<and> cnt = of_nat m
          \<and> (good \<longrightarrow> fin \<and> concat out @ concat qs = W @ hold)
      | _ \<Rightarrow> prefix (concat out) (W @ hold) \<and> (\<exists>k \<le> m. cnt = of_nat k)
          \<and> (good \<and> ph = Ended \<longrightarrow> fin \<and> concat out = W @ hold \<and> cnt = of_nat m))"

lemma pump_inv_simps [simp]:
  "pump_inv good fin W hold m Reading out cnt \<longleftrightarrow> concat out = W \<and> cnt = of_nat m"
  "pump_inv good fin W hold m (Writing qs n) out cnt \<longleftrightarrow>
     concat out @ concat qs = W \<and> n \<le> m \<and> cnt + of_nat n = of_nat m"
  "pump_inv good fin W hold m (Flushing qs) out cnt \<longleftrightarrow>
     length qs \<le> 1 \<and> prefix (concat out @ concat qs) (W @ hold) \<and> cnt = of_nat m
       \<and> (good \<longrightarrow> fin \<and> concat out @ concat qs = W @ hold)"
  "pump_inv good fin W hold m Ended out cnt \<longleftrightarrow>
     prefix (concat out) (W @ hold) \<and> (\<exists>k \<le> m. cnt = of_nat k)
       \<and> (good \<longrightarrow> fin \<and> concat out = W @ hold \<and> cnt = of_nat m)"
  "pump_inv good fin W hold m Aborted out cnt \<longleftrightarrow>
     prefix (concat out) (W @ hold) \<and> (\<exists>k \<le> m. cnt = of_nat k)"
  by (simp_all add: pump_inv_def)

lemma count_left: "cnt + of_nat n = (of_nat m :: u64) \<Longrightarrow> n \<le> m \<Longrightarrow> \<exists>k \<le> m. cnt = of_nat k"
  by (rule exI [of _ "m - n"]) (simp add: of_nat_diff eq_diff_eq)

lemma pump_prefix:
  "pump_inv good fin W hold m ph out cnt \<Longrightarrow>
   prefix (concat out) (W @ hold) \<and> (\<exists>k \<le> m. cnt = of_nat k)"
  by (cases ph) (auto simp: prefix_def dest: count_left)

text \<open>One accepted piece, a failed one, and the abort.\<close>

lemma pump_sent:
  assumes "pump_inv good fin W hold m (Writing (q # qs) n) out cnt"
  shows "qs \<noteq> [] \<Longrightarrow> pump_inv good fin W hold m (Writing qs n) (out @ [q]) cnt"
    and "qs = [] \<Longrightarrow> pump_inv good fin W hold m Reading (out @ [q]) (cnt + of_nat n)"
  using assms by auto

lemma pump_failed:
  assumes "pump_inv good fin W hold m (Writing (q # qs) n) out cnt" "xs = [] \<or> xs = [take k q]"
  shows "pump_inv False fin W hold m Ended (out @ xs) cnt"
proof -
  have "prefix (concat out @ concat xs) W"
    using assms by (auto simp: prefix_def) (metis append_assoc append_take_drop_id)
  then show ?thesis using assms(1) count_left [of cnt n m] by (auto simp: prefix_def)
qed

lemma pump_abort: "pump_inv good fin W hold m ph out cnt \<Longrightarrow> pump_inv good fin W hold m (abort_phase ph) out cnt"
  using pump_prefix [of good fin W hold m ph out cnt] by (auto simp: abort_phase_def)

section \<open>Invariants of the tasks\<close>

fun running :: "phase \<Rightarrow> bool" where
  "running Reading = True"
| "running (Writing qs n) = True"
| "running _ = False"

definition upload_inv ::
  "prims \<Rightarrow> bool \<Rightarrow> bytes list \<Rightarrow> link \<Rightarrow> aes_ctr256 \<times> aes_ctr256 \<Rightarrow> bytes \<Rightarrow> bytes list \<Rightarrow> uploader \<Rightarrow> bool" where
  "upload_inv P good sent l0 c0 pay reads u \<longleftrightarrow>
     prefix (concat reads) pay \<and>
     (let x = crypt_chunks (recrypt P) c0 reads; s = upload_all P l0 (fst x) in
      (running (up_phase u) \<longrightarrow>
         pay = concat reads @ reader_payload (up_reader u) \<and> (up_clt_dec u, up_tg_enc u) = snd x \<and> up_link u = snd s)
      \<and> pump_inv good (concat reads = pay) (concat sent @ concat (fst s)) (held_back (snd s))
          (length (concat reads)) (up_phase u) (up_out u) (up_bytes u))"

fun is_go :: "event \<Rightarrow> bool" where
  "is_go (Go k) = True"
| "is_go (Fail k) = False"

lemma upload_sent_inv:
  assumes "upload_inv P good sent l0 c0 pay reads (u\<lparr>up_phase := Writing ps n\<rparr>)"
  shows "upload_inv P good sent l0 c0 pay reads (upload_sent n ps u)"
  using assms by (cases ps) (simp_all add: upload_inv_def upload_sent_def Let_def)

lemma upload_stop_inv:
  assumes inv: "upload_inv P good sent l0 c0 pay reads u" and ph: "up_phase u = Reading"
    and fin: "good' \<longrightarrow> concat reads = pay" and same: "up_link u' = up_link u" "up_out u' = up_out u" "up_bytes u' = up_bytes u"
  shows "upload_inv P good' sent l0 c0 pay reads (upload_stop u')"
proof -
  have l: "up_link u = snd (upload_all P l0 (fst (crypt_chunks (recrypt P) c0 reads)))"
    using inv ph by (simp add: upload_inv_def Let_def)
  show ?thesis
  proof (cases "up_link u")
    case (WsLink s)
    then show ?thesis
      using inv ph fin same l
      by (cases s) (auto simp: upload_inv_def upload_stop_def Let_def flush_def)
  qed (use inv ph fin same l in \<open>auto simp: upload_inv_def upload_stop_def Let_def\<close>)
qed

lemma upload_read_inv:
  assumes inv: "upload_inv P good sent l0 c0 pay reads u" and ph: "up_phase u = Reading"
  shows "\<exists>reads'. upload_inv P good sent l0 c0 pay reads' (upload_read P k u)"
proof -
  let ?r = "client_read CLIENT_READ_BUF_SIZE k (up_reader u)"
  let ?x = "crypt_chunks (recrypt P) c0 reads"
  let ?s = "upload_all P l0 (fst ?x)"
  have c: "(up_clt_dec u, up_tg_enc u) = snd ?x" and l: "up_link u = snd ?s"
    and pay: "pay = concat reads @ reader_payload (up_reader u)"
    and out: "concat (up_out u) = concat sent @ concat (fst ?s)" and cnt: "up_bytes u = of_nat (length (concat reads))"
    using inv ph by (simp_all add: upload_inv_def Let_def)
  show ?thesis
  proof (cases "fst ?r = []")
    case True
    then have "concat reads = pay" using pay client.rd_end [OF True] by simp
    then have "upload_inv P good sent l0 c0 pay reads (upload_stop (u\<lparr>up_reader := snd ?r\<rparr>))"
      using upload_stop_inv [OF inv ph, of good "u\<lparr>up_reader := snd ?r\<rparr>"] by simp
    then show ?thesis using True by (auto simp: upload_read_def)
  next
    case False
    let ?d = "apply_keystream P (up_clt_dec u) (fst ?r)"
    let ?e = "apply_keystream P (up_tg_enc u) (fst ?d)"
    let ?p = "upload_pieces P (up_link u) (fst ?e)"
    let ?u = "u\<lparr>up_reader := snd ?r, up_clt_dec := snd ?d, up_tg_enc := snd ?e, up_link := snd ?p\<rparr>"
    have x: "crypt_chunks (recrypt P) c0 (reads @ [fst ?r]) = (fst ?x @ [fst ?e], (snd ?d, snd ?e))"
      by (simp add: crypt_chunks_snoc Let_def flip: c) (simp add: recrypt_def Let_def)
    have "upload_inv P good sent l0 c0 pay (reads @ [fst ?r]) (?u\<lparr>up_phase := Writing (fst ?p) (length (fst ?r))\<rparr>)"
      unfolding upload_inv_def x Let_def
      using pay client.rd_content [OF False] out cnt l
      by (simp add: upload_all_snoc Let_def prefix_def) 
    from upload_sent_inv [OF this] show ?thesis
      using False by (auto simp: upload_read_def Let_def)
  qed
qed

lemma upload_step_inv:
  assumes inv: "upload_inv P good sent l0 c0 pay reads u"
  shows "\<exists>reads'. upload_inv P (good \<and> is_go ev) sent l0 c0 pay reads' (upload_step P ev u)"
proof (cases "up_phase u")
  case Reading
  then show ?thesis
    using upload_read_inv [OF inv Reading] upload_stop_inv [OF inv Reading, of False u]
    by (cases ev) (auto simp: upload_step_def)
next
  case (Writing qs n)
  show ?thesis
  proof (cases qs)
    case Nil
    then show ?thesis
      using inv Writing by (auto simp: upload_step_def upload_inv_def upload_sent_def Let_def intro!: exI [of _ reads])
  next
    case (Cons q ps)
    show ?thesis
    proof (cases ev)
      case (Go k)
      have "upload_inv P good sent l0 c0 pay reads (u\<lparr>up_out := up_out u @ [q], up_phase := Writing ps n\<rparr>)"
        using inv Writing Cons by (simp add: upload_inv_def Let_def)
      then have "upload_inv P good sent l0 c0 pay reads (upload_sent n ps (u\<lparr>up_out := up_out u @ [q]\<rparr>))"
        by (intro upload_sent_inv) simp
      then show ?thesis using Go Writing Cons by (auto simp: upload_step_def)
    next
      case (Fail k)
      have "partial_write (up_link u) k q = [] \<or> partial_write (up_link u) k q = [take k q]"
        by (cases "(up_link u, k, q)" rule: partial_write.cases) auto
      then show ?thesis
        using inv Writing Cons Fail pump_failed
        by (simp add: upload_step_def upload_inv_def Let_def del: pump_inv_simps) blast
    qed
  qed
next
  case (Flushing qs)
  then show ?thesis
    using inv by (cases qs; cases ev)
      (auto simp: upload_step_def upload_inv_def Let_def prefix_def intro!: exI [of _ reads])
next
  case Ended
  then show ?thesis using inv by (auto simp: upload_step_def upload_inv_def Let_def intro!: exI [of _ reads])
next
  case Aborted
  then show ?thesis using inv by (auto simp: upload_step_def upload_inv_def Let_def intro!: exI [of _ reads])
qed

definition download_inv ::
  "prims \<Rightarrow> bool \<Rightarrow> client_writer \<Rightarrow> aes_ctr256 \<times> aes_ctr256 \<Rightarrow> bytes \<Rightarrow> bytes list \<Rightarrow> downloader \<Rightarrow> bool" where
  "download_inv P good w c0 pay reads d \<longleftrightarrow>
     prefix (concat reads) pay \<and>
     (let x = crypt_chunks (recrypt P) c0 reads in
      (running (dn_phase d) \<longrightarrow>
         pay = concat reads @ source_payload (dn_source d) \<and> (dn_tg_dec d, dn_clt_enc d) = snd x \<and> dn_writer d = w)
      \<and> pump_inv good (concat reads = pay) (concat (concat (map (client_writes w) (fst x)))) []
          (length (concat reads)) (dn_phase d) (dn_out d) (dn_bytes d))"

lemma download_sent_inv:
  assumes "download_inv P good w c0 pay reads (d\<lparr>dn_phase := Writing ps n\<rparr>)"
  shows "download_inv P good w c0 pay reads (download_sent n ps d)"
  using assms by (cases ps) (simp_all add: download_inv_def download_sent_def Let_def)

lemma download_received_inv:
  assumes inv: "download_inv P good w c0 pay reads d" and ph: "dn_phase d = Reading"
  shows "\<exists>reads'. download_inv P good w c0 pay reads' (download_received P k d)"
proof -
  let ?r = "download_read k (dn_source d)" and ?x = "crypt_chunks (recrypt P) c0 reads"
  have c: "(dn_tg_dec d, dn_clt_enc d) = snd ?x" and w: "dn_writer d = w"
    and pay: "pay = concat reads @ source_payload (dn_source d)"
    and out: "concat (dn_out d) = concat (concat (map (client_writes w) (fst ?x)))"
    and cnt: "dn_bytes d = of_nat (length (concat reads))"
    using inv ph by (simp_all add: download_inv_def Let_def)
  show ?thesis
  proof (cases "fst ?r")
    case (Chunk data)
    let ?a = "apply_keystream P (dn_tg_dec d) data"
    let ?b = "apply_keystream P (dn_clt_enc d) (fst ?a)"
    let ?d = "d\<lparr>dn_source := snd ?r, dn_tg_dec := snd ?a, dn_clt_enc := snd ?b\<rparr>"
    have x: "crypt_chunks (recrypt P) c0 (reads @ [data]) = (fst ?x @ [fst ?b], (snd ?a, snd ?b))"
      by (simp add: crypt_chunks_snoc Let_def flip: c) (simp add: recrypt_def Let_def)
    have "download_inv P good w c0 pay (reads @ [data]) (?d\<lparr>dn_phase := Writing (client_writes w (fst ?b)) (length data)\<rparr>)"
      unfolding download_inv_def x Let_def
      using pay download_read_content(1) [OF Chunk] out cnt w by (simp add: prefix_def)
    from download_sent_inv [OF this] show ?thesis
      using Chunk w by (auto simp: download_received_def Let_def)
  next
    case Skip
    then show ?thesis
      using inv ph download_read_content(2) [OF Skip]
      by (auto simp: download_received_def download_inv_def Let_def intro!: exI [of _ reads])
  next
    case Stop
    then show ?thesis
      using inv ph download_read_content(3) [OF Stop]
      by (auto simp: download_received_def download_inv_def Let_def intro!: exI [of _ reads])
  qed
qed

lemma download_step_inv:
  assumes inv: "download_inv P good w c0 pay reads d"
  shows "\<exists>reads'. download_inv P (good \<and> is_go ev) w c0 pay reads' (download_step P ev d)"
proof (cases "dn_phase d")
  case Reading
  show ?thesis
  proof (cases ev)
    case (Go k)
    then show ?thesis using download_received_inv [OF inv Reading, of k] Reading by (simp add: download_step_def)
  next
    case (Fail k)
    then show ?thesis
      using inv Reading by (auto simp: download_step_def download_inv_def Let_def intro!: exI [of _ reads])
  qed
next
  case (Writing qs n)
  show ?thesis
  proof (cases qs)
    case Nil
    then show ?thesis
      using inv Writing by (auto simp: download_step_def download_inv_def download_sent_def Let_def intro!: exI [of _ reads])
  next
    case (Cons q ps)
    show ?thesis
    proof (cases ev)
      case (Go k)
      have "download_inv P good w c0 pay reads (d\<lparr>dn_out := dn_out d @ [q], dn_phase := Writing ps n\<rparr>)"
        using inv Writing Cons by (simp add: download_inv_def Let_def)
      then have "download_inv P good w c0 pay reads (download_sent n ps (d\<lparr>dn_out := dn_out d @ [q]\<rparr>))"
        by (intro download_sent_inv) simp
      then show ?thesis using Go Writing Cons by (auto simp: download_step_def)
    next
      case (Fail k)
      then show ?thesis
        using inv Writing Cons pump_failed
        by (simp add: download_step_def download_inv_def Let_def del: pump_inv_simps) blast
    qed
  qed
qed (use inv in \<open>auto simp: download_step_def download_inv_def Let_def intro!: exI [of _ reads]\<close>)

section \<open>Reachable bridges\<close>

text \<open>Both tasks of a reachable bridge keep their invariants; an abort keeps what was sent.\<close>

definition bridge_inv :: "prims \<Rightarrow> bridge \<Rightarrow> bridge \<Rightarrow> bool" where
  "bridge_inv P b0 b \<longleftrightarrow>
     (\<exists>reads. upload_inv P False (up_out (br_up b0)) (up_link (br_up b0)) (up_clt_dec (br_up b0), up_tg_enc (br_up b0))
        (reader_payload (up_reader (br_up b0))) reads (br_up b)) \<and>
     (\<exists>reads. download_inv P False (dn_writer (br_down b0)) (dn_tg_dec (br_down b0), dn_clt_enc (br_down b0))
        (source_payload (dn_source (br_down b0))) reads (br_down b)) \<and>
     (case br_closed_by b of
        None \<Rightarrow> True
      | Some Client \<Rightarrow> up_phase (br_up b) = Ended \<and> dn_phase (br_down b) \<in> {Ended, Aborted}
      | Some Upstream \<Rightarrow> dn_phase (br_down b) = Ended \<and> up_phase (br_up b) \<in> {Ended, Aborted})"

lemma not_running_abort [simp]: "\<not> running (abort_phase ph)"
  by (simp add: abort_phase_def)

lemma abort_phase_over [simp]: "abort_phase ph = Ended \<or> abort_phase ph = Aborted"
  by (simp add: abort_phase_def)

lemma upload_inv_abort:
  "upload_inv P good sent l0 c0 pay reads u \<Longrightarrow>
   upload_inv P good sent l0 c0 pay reads (u\<lparr>up_phase := abort_phase (up_phase u)\<rparr>)"
  using pump_abort by (simp add: upload_inv_def Let_def)

lemma download_inv_abort:
  "download_inv P good w c0 pay reads d \<Longrightarrow>
   download_inv P good w c0 pay reads (d\<lparr>dn_phase := abort_phase (dn_phase d)\<rparr>)"
  using pump_abort by (simp add: download_inv_def Let_def)

lemma bridge_step_inv:
  assumes "bridge_inv P b0 b" "bridge_step P b b'"
  shows "bridge_inv P b0 b'"
  using assms(2)
proof (cases rule: bridge_step.cases)
  case (uploads ev)
  then show ?thesis
    using assms(1) upload_step_inv [of P False] unfolding bridge_inv_def by fastforce
next
  case (downloads ev)
  then show ?thesis
    using assms(1) download_step_inv [of P False] unfolding bridge_inv_def by fastforce
next
  case upload_ended
  then show ?thesis
    using assms(1) download_inv_abort [of P False] unfolding bridge_inv_def by fastforce
next
  case download_ended
  then show ?thesis
    using assms(1) upload_inv_abort [of P False] unfolding bridge_inv_def by fastforce
qed

definition fresh_bridge :: "bridge \<Rightarrow> bool" where
  "fresh_bridge b \<longleftrightarrow> up_phase (br_up b) = Reading \<and> up_bytes (br_up b) = 0 \<and> dn_phase (br_down b) = Reading
     \<and> dn_out (br_down b) = [] \<and> dn_bytes (br_down b) = 0 \<and> br_closed_by b = None"

lemma fresh_upload_inv:
  "up_phase u = Reading \<Longrightarrow> up_bytes u = 0 \<Longrightarrow>
   upload_inv P good (up_out u) (up_link u) (up_clt_dec u, up_tg_enc u) (reader_payload (up_reader u)) [] u"
  by (simp add: upload_inv_def)

lemma fresh_download_inv:
  "dn_phase d = Reading \<Longrightarrow> dn_bytes d = 0 \<Longrightarrow> dn_out d = [] \<Longrightarrow>
   download_inv P good (dn_writer d) (dn_tg_dec d, dn_clt_enc d) (source_payload (dn_source d)) [] d"
  by (simp add: download_inv_def)

lemma bridge_reach_inv: "bridge_reach P b0 b \<Longrightarrow> fresh_bridge b0 \<Longrightarrow> bridge_inv P b0 b"
proof (induction rule: bridge_reach.induct)
  case start
  then show ?case
    using fresh_upload_inv [of "br_up b0" P False] fresh_download_inv [of "br_down b0" P False]
    unfolding bridge_inv_def fresh_bridge_def by auto
next
  case (step b b')
  then show ?case using bridge_step_inv by blast
qed

section \<open>What the other side receives\<close>

text \<open>The bytes a peer gets out of what was written: the payload of the TLS records, or the bytes.\<close>

definition received :: "bool \<Rightarrow> bytes list \<Rightarrow> bytes" where
  "received tls out =
     (if tls then tls_payload (TLS_MAX_RECORD_PAYLOAD + TLS_READ_HEADROOM) (concat out) else concat out)"

lemma take_header: "take (5 + j) (a # b # c # d # e # p) = a # b # c # d # e # take j p"
  by (simp add: numeral_eq_Suc)

lemma read_appdata_truncated:
  assumes "k < length (tls_record TLS_RECORD_APPLICATION_DATA v1 v2 p)" "length p < 65536"
  shows "fst (read_tls_appdata n (take k (tls_record TLS_RECORD_APPLICATION_DATA v1 v2 p))) = []"
proof (cases "k < 5")
  case True
  then show ?thesis by (subst read_tls_appdata.simps) simp
next
  case False
  then obtain j where j: "k = 5 + j" by (metis add.commute le_add_diff_inverse not_less)
  have "take k (tls_record TLS_RECORD_APPLICATION_DATA v1 v2 p)
      = TLS_RECORD_APPLICATION_DATA # v1 # v2 # u16_to_be (of_nat (length p)) ! 0
          # u16_to_be (of_nat (length p)) ! Suc 0 # take j p"
    unfolding j using tls_record_unfold [of TLS_RECORD_APPLICATION_DATA v1 v2 p "[]"] by (simp add: take_header)
  moreover have "j < length p" using assms(1) j by simp
  ultimately show ?thesis
    using assms(2)
    by (subst read_tls_appdata.simps) (simp add: Let_def read_exact_def codec_simps layout_simps)
qed

lemma tls_payload_record:
  assumes "p \<noteq> []" "length p \<le> n" "length p < 65536"
  shows "tls_payload n (tls_record TLS_RECORD_APPLICATION_DATA v1 v2 p @ rest) = p @ tls_payload n rest"
  using assms by (subst tls_payload.simps) (simp add: read_appdata_record)

lemma tls_payload_prefix:
  assumes "\<forall>p \<in> set ps. p \<noteq> [] \<and> length p \<le> n \<and> length p < 65536"
    and "prefix w (concat (map (tls_record TLS_RECORD_APPLICATION_DATA 0x03 0x03) ps))"
  shows "prefix (tls_payload n w) (concat ps)"
  using assms
proof (induction ps arbitrary: w)
  case Nil
  then show ?case by (simp add: tls_payload.simps read_tls_appdata.simps)
next
  case (Cons p ps)
  let ?r = "tls_record TLS_RECORD_APPLICATION_DATA 0x03 0x03 p"
  show ?case
  proof (cases "length w < length ?r")
    case True
    then have "w = take (length w) ?r"
      using Cons.prems(2) by (auto simp: prefix_def append_eq_append_conv2)
    then have "fst (read_tls_appdata n w) = []"
      using read_appdata_truncated [OF True, of n] Cons.prems(1) by simp
    then show ?thesis by (subst tls_payload.simps) simp
  next
    case False
    then have "prefix ?r w"
      using Cons.prems(2) by (intro prefix_length_prefix [of ?r _ w]) simp_all
    then obtain w' where w: "w = ?r @ w'" "prefix w' (concat (map (tls_record TLS_RECORD_APPLICATION_DATA 0x03 0x03) ps))"
      using Cons.prems(2) by (auto simp: prefix_def)
    then have "prefix (tls_payload n w') (concat ps)" using Cons by simp
    then show ?thesis using w(1) Cons.prems(1) by (simp add: tls_payload_record)
  qed
qed

lemma concat_appdata_writes: "concat (appdata_writes d) = appdata_wire d"
proof -
  have "concat (concat (map (\<lambda>c. [appdata_header (length c), c]) cs))
      = concat (map (tls_record TLS_RECORD_APPLICATION_DATA 0x03 0x03) cs)"
    if "\<forall>c \<in> set cs. length c < 65536" for cs
    using that by (induction cs) (simp_all add: appdata_header_eq flip: append_assoc)
  moreover have "\<forall>c \<in> set (chunks TLS_MAX_APPDATA_WRITE d). length c < 65536"
    using chunks_bounds [of TLS_MAX_APPDATA_WRITE d] by (auto simp: layout_simps)
  ultimately show ?thesis by (simp add: appdata_writes_def appdata_wire_def)
qed

lemma received_appdata:
  assumes "prefix (concat out) (concat (map appdata_wire xs))"
  shows "prefix (received True out) (concat xs)"
proof -
  let ?ps = "concat (map (chunks TLS_MAX_APPDATA_WRITE) xs)"
  have "concat (map appdata_wire xs) = concat (map (tls_record TLS_RECORD_APPLICATION_DATA 0x03 0x03) ?ps)"
    by (induction xs) (simp_all add: appdata_wire_def)
  moreover have "\<forall>p \<in> set ?ps. p \<noteq> [] \<and> length p \<le> TLS_MAX_RECORD_PAYLOAD + TLS_READ_HEADROOM \<and> length p < 65536"
    using chunks_bounds [of TLS_MAX_APPDATA_WRITE] by (fastforce simp: layout_simps)
  moreover have "concat ?ps = concat xs"
    by (induction xs) (simp_all add: concat_chunks layout_simps)
  ultimately show ?thesis
    using tls_payload_prefix [of ?ps] assms by (metis received_def)
qed

lemma tls_payload_Nil [simp]: "tls_payload n [] = []"
  by (simp add: tls_payload.simps read_tls_appdata.simps)

lemma tls_payload_records:
  "\<forall>p \<in> set ps. p \<noteq> [] \<and> length p \<le> n \<and> length p < 65536 \<Longrightarrow>
   tls_payload n (concat (map (tls_record TLS_RECORD_APPLICATION_DATA v1 v2) ps) @ rest) = concat ps @ tls_payload n rest"
  by (induction ps) (simp_all add: tls_payload_record)

lemma tls_payload_wire:
  "TLS_MAX_APPDATA_WRITE \<le> n \<Longrightarrow> tls_payload n (appdata_wire d @ rest) = d @ tls_payload n rest"
proof -
  assume "TLS_MAX_APPDATA_WRITE \<le> n"
  moreover have "TLS_MAX_APPDATA_WRITE < 65536" "0 < TLS_MAX_APPDATA_WRITE" by (simp_all add: layout_simps)
  moreover note chunks_bounds [of TLS_MAX_APPDATA_WRITE d]
  ultimately show ?thesis
    unfolding appdata_wire_def by (subst tls_payload_records) (auto simp: concat_chunks)
qed

lemma received_all_appdata: "concat out = concat (map appdata_wire xs) \<Longrightarrow> received True out = concat xs"
proof -
  assume out: "concat out = concat (map appdata_wire xs)"
  have "TLS_MAX_APPDATA_WRITE \<le> TLS_MAX_RECORD_PAYLOAD + TLS_READ_HEADROOM" by (simp add: layout_simps)
  note w = tls_payload_wire [OF this]
  have "tls_payload (TLS_MAX_RECORD_PAYLOAD + TLS_READ_HEADROOM) (concat (map appdata_wire xs)) = concat xs"
    by (induction xs) (simp_all add: w)
  then show ?thesis by (simp add: received_def out)
qed

fun link_ok :: "link \<Rightarrow> bool" where
  "link_ok (WsLink (Some s)) =
     (length (sp_plain_buf s) = length (sp_cipher_buf s) \<and> (sp_disabled s \<longrightarrow> sp_cipher_buf s = []))"
| "link_ok _ = True"

lemma upload_pieces_content:
  assumes "link_ok l" "l \<noteq> RelayLink True"
  shows "concat (fst (upload_pieces P l x)) @ held_back (snd (upload_pieces P l x)) = held_back l @ x
    \<and> link_ok (snd (upload_pieces P l x)) \<and> snd (upload_pieces P l x) \<noteq> RelayLink True"
  using assms split_msg_conserves
  by (cases "(P, l, x)" rule: upload_pieces.cases) (auto simp: Let_def)

lemma upload_all_content:
  assumes "link_ok l" "l \<noteq> RelayLink True"
  shows "concat (fst (upload_all P l xs)) @ held_back (snd (upload_all P l xs)) = held_back l @ concat xs"
  using assms
proof (induction xs arbitrary: l)
  case (Cons x xs)
  note step = upload_pieces_content [OF Cons.prems, of P x]
  then show ?case using Cons.IH [of "snd (upload_pieces P l x)"]
    by (simp add: Let_def)
qed simp

lemma upload_all_tls:
  "concat (fst (upload_all P (RelayLink True) xs)) = concat (map appdata_wire xs)
   \<and> snd (upload_all P (RelayLink True) xs) = RelayLink True"
  by (induction xs) (simp_all add: Let_def concat_appdata_writes)

lemma upload_received:
  assumes "link_ok l" "held_back l = []" "l = RelayLink True \<longrightarrow> sent = []"
    and "W = concat sent @ concat (fst (upload_all P l xs)) @ held_back (snd (upload_all P l xs))"
  shows "prefix (concat out) W \<Longrightarrow> prefix (received (l = RelayLink True) out) (concat sent @ concat xs)"
    and "concat out = W \<Longrightarrow> received (l = RelayLink True) out = concat sent @ concat xs"
proof -
  show "prefix (received (l = RelayLink True) out) (concat sent @ concat xs)" if "prefix (concat out) W"
  proof (cases "l = RelayLink True")
    case True
    then show ?thesis using that assms upload_all_tls [of P xs] received_appdata [of out xs] by simp
  next
    case False
    then show ?thesis using that assms upload_all_content [OF assms(1) False, of P xs] by (simp add: received_def)
  qed
  show "received (l = RelayLink True) out = concat sent @ concat xs" if "concat out = W"
  proof (cases "l = RelayLink True")
    case True
    then show ?thesis using that assms upload_all_tls [of P xs] received_all_appdata [of out xs] by simp
  next
    case False
    then show ?thesis using that assms upload_all_content [OF assms(1) False, of P xs] by (simp add: received_def)
  qed
qed

lemma client_writes_fun: "client_writes WriterFakeTls = appdata_writes" "client_writes WriterPlain = (\<lambda>d. [d])"
  by (simp_all add: fun_eq_iff)

lemma client_received:
  "prefix (concat out) (concat (concat (map (client_writes w) xs))) \<Longrightarrow>
   prefix (received (w = WriterFakeTls) out) (concat xs)"
proof (cases w)
  case WriterFakeTls
  have "concat (concat (map appdata_writes xs)) = concat (map appdata_wire xs)"
    by (induction xs) (simp_all add: concat_appdata_writes)
  then show "prefix (concat out) (concat (concat (map (client_writes w) xs))) \<Longrightarrow> ?thesis"
    using WriterFakeTls received_appdata [of out xs] by (simp add: client_writes_fun)
next
  case WriterPlain
  have "concat (concat (map (\<lambda>d. [d]) xs)) = concat xs" by (induction xs) simp_all
  then show "prefix (concat out) (concat (concat (map (client_writes w) xs))) \<Longrightarrow> ?thesis"
    using WriterPlain by (simp add: client_writes_fun received_def)
qed

text \<open>What a task makes of the bytes it read so far is a prefix of what it makes of all of them.\<close>

lemma recrypt_prefix:
  assumes "prefix (concat reads) pay"
  shows "prefix (concat (fst (crypt_chunks (recrypt P) c reads))) (fst (recrypt P c pay))"
proof -
  obtain rest where "pay = concat reads @ rest" using assms by (auto simp: prefix_def)
  then show ?thesis by (simp add: relay.crypt_chunks_concat relay.crypt_append)
qed

lemma upload_inv_received:
  assumes "upload_inv P good sent l c pay reads u" "link_ok l" "held_back l = []" "l = RelayLink True \<longrightarrow> sent = []"
  shows "prefix (received (l = RelayLink True) (up_out u)) (concat sent @ fst (recrypt P c pay))"
    and "\<exists>k \<le> length pay. up_bytes u = of_nat k"
    and "good \<Longrightarrow> up_phase u = Ended \<Longrightarrow>
      received (l = RelayLink True) (up_out u) = concat sent @ fst (recrypt P c pay) \<and> up_bytes u = of_nat (length pay)"
proof -
  let ?x = "crypt_chunks (recrypt P) c reads"
  let ?s = "upload_all P l (fst ?x)"
  have pre: "prefix (concat reads) pay"
    and pump: "pump_inv good (concat reads = pay) (concat sent @ concat (fst ?s)) (held_back (snd ?s))
        (length (concat reads)) (up_phase u) (up_out u) (up_bytes u)"
    using assms(1) by (simp_all add: upload_inv_def Let_def)
  note rcv = upload_received [OF assms(2-4) refl, of "up_out u" P "fst ?x"]
  have "prefix (received (l = RelayLink True) (up_out u)) (concat sent @ concat (fst ?x))"
    using pump_prefix [OF pump] by (intro rcv(1)) simp
  then show "prefix (received (l = RelayLink True) (up_out u)) (concat sent @ fst (recrypt P c pay))"
    using recrypt_prefix [OF pre, of P c] by (meson prefix_order.order_trans same_prefix_prefix)
  show "\<exists>k \<le> length pay. up_bytes u = of_nat k"
    using pump_prefix [OF pump] prefix_length_le [OF pre] le_trans by blast
  assume "good" "up_phase u = Ended"
  with pump have "concat reads = pay" "concat (up_out u) = concat sent @ concat (fst ?s) @ held_back (snd ?s)"
    "up_bytes u = of_nat (length (concat reads))"
    by simp_all
  moreover have "concat (fst ?x) = fst (recrypt P c (concat reads))"
    by (simp add: relay.crypt_chunks_concat)
  ultimately show "received (l = RelayLink True) (up_out u) = concat sent @ fst (recrypt P c pay) \<and> up_bytes u = of_nat (length pay)"
    using rcv(2) by simp
qed

lemma download_inv_received:
  assumes "download_inv P good w c pay reads d"
  shows "prefix (received (w = WriterFakeTls) (dn_out d)) (fst (recrypt P c pay))"
    and "\<exists>k \<le> length pay. dn_bytes d = of_nat k"
proof -
  let ?x = "crypt_chunks (recrypt P) c reads"
  have pre: "prefix (concat reads) pay"
    and pump: "pump_inv good (concat reads = pay) (concat (concat (map (client_writes w) (fst ?x)))) []
        (length (concat reads)) (dn_phase d) (dn_out d) (dn_bytes d)"
    using assms by (simp_all add: download_inv_def Let_def)
  have "prefix (received (w = WriterFakeTls) (dn_out d)) (concat (fst ?x))"
    using pump_prefix [OF pump] by (intro client_received) simp
  then show "prefix (received (w = WriterFakeTls) (dn_out d)) (fst (recrypt P c pay))"
    using recrypt_prefix [OF pre, of P c] by (meson prefix_order.order_trans)
  show "\<exists>k \<le> length pay. dn_bytes d = of_nat k"
    using pump_prefix [OF pump] prefix_length_le [OF pre] le_trans by blast
qed

section \<open>The upload always ends\<close>

text \<open>
  A bound on the steps an upload still takes: every byte to come pays for its read and for at most
  two writes, every byte the splitter holds back for at most one message.
\<close>

definition upload_weight :: "uploader \<Rightarrow> nat" where
  "upload_weight u =
     (case up_phase u of
        Reading \<Rightarrow> 3 * length (reader_payload (up_reader u)) + 2 * length (held_back (up_link u)) + 4
      | Writing qs n \<Rightarrow>
          3 * length (reader_payload (up_reader u)) + 2 * length (held_back (up_link u)) + 4 + max 1 (length qs)
      | Flushing qs \<Rightarrow> Suc (length qs)
      | _ \<Rightarrow> 0)"

lemma length_le_concat: "[] \<notin> set xs \<Longrightarrow> length xs \<le> length (concat xs)"
proof (induction xs)
  case (Cons x xs)
  then show ?case by (cases x) auto
qed simp

lemma length_appdata_writes: "length (appdata_writes d) \<le> 2 * length d"
proof -
  have "length (concat (map (\<lambda>c. [appdata_header (length c), c]) cs)) = 2 * length cs" for cs
    by (induction cs) simp_all
  moreover have "length (chunks TLS_MAX_APPDATA_WRITE d) \<le> length (concat (chunks TLS_MAX_APPDATA_WRITE d))"
    using chunks_bounds [of TLS_MAX_APPDATA_WRITE d] by (intro length_le_concat) auto
  moreover have "0 < TLS_MAX_APPDATA_WRITE" by (simp add: layout_simps)
  ultimately show ?thesis by (simp add: appdata_writes_def concat_chunks)
qed

lemma upload_pieces_cost:
  assumes "link_ok l" "x \<noteq> []"
  shows "length (fst (upload_pieces P l x)) + 2 * length (held_back (snd (upload_pieces P l x)))
    \<le> 2 * length (held_back l) + 2 * length x"
proof -
  have w: "length (appdata_writes x) \<le> 2 * length x" by (rule length_appdata_writes)
  have one: "1 \<le> 2 * length x" using assms(2) by (cases x) auto
  show ?thesis
  proof (cases "(P, l, x)" rule: upload_pieces.cases)
    case (1 P s x)
    let ?r = "split_msg P s x"
    have "length (fst ?r) \<le> length (concat (fst ?r))"
      using split_msg_nonempty [of s P x] assms(1) 1 by (intro length_le_concat) simp
    moreover have "length (concat (fst ?r)) + length (sp_cipher_buf (snd ?r)) = length (sp_cipher_buf s) + length x"
      using split_msg_conserves [of s P x] assms(1) 1 by (auto simp flip: length_append)
    ultimately show ?thesis using 1 by (simp add: Let_def)
  qed (use w one in \<open>auto simp: Suc_le_eq\<close>)
qed

lemma link_ok_pieces: "link_ok l \<Longrightarrow> link_ok (snd (upload_pieces P l x))"
  using split_msg_conserves by (cases "(P, l, x)" rule: upload_pieces.cases) (auto simp: Let_def)

lemma link_ok_stop: "link_ok (up_link u) \<Longrightarrow> link_ok (up_link (upload_stop u))"
  by (auto simp: upload_stop_def Let_def flush_def split: link.split option.split)

lemma upload_step_link_ok: "link_ok (up_link u) \<Longrightarrow> link_ok (up_link (upload_step P ev u))"
  by (auto simp: upload_step_def upload_read_def upload_sent_def Let_def link_ok_pieces link_ok_stop
      split: phase.split event.split list.split)

lemma upload_stop_weight: "upload_weight (upload_stop u) \<le> 2"
  by (auto simp: upload_weight_def upload_stop_def Let_def flush_def split: link.split option.split)

lemma upload_sent_weight:
  "upload_weight (upload_sent n ps u) \<le>
     3 * length (reader_payload (up_reader u)) + 2 * length (held_back (up_link u)) + 4 + length ps"
  by (cases ps) (auto simp: upload_weight_def upload_sent_def)

lemma upload_read_weight:
  assumes "link_ok (up_link u)" "up_phase u = Reading"
  shows "upload_weight (upload_read P k u) < upload_weight u"
proof -
  let ?r = "client_read CLIENT_READ_BUF_SIZE k (up_reader u)"
  show ?thesis
  proof (cases "fst ?r = []")
    case True
    then show ?thesis
      using upload_stop_weight [of "u\<lparr>up_reader := snd ?r\<rparr>"] assms(2)
      by (simp add: upload_read_def upload_weight_def)
  next
    case False
    let ?d = "apply_keystream P (up_clt_dec u) (fst ?r)"
    let ?e = "apply_keystream P (up_tg_enc u) (fst ?d)"
    let ?p = "upload_pieces P (up_link u) (fst ?e)"
    let ?u = "u\<lparr>up_reader := snd ?r, up_clt_dec := snd ?d, up_tg_enc := snd ?e, up_link := snd ?p\<rparr>"
    have "fst ?e \<noteq> []" using False by (metis length_apply_keystream length_0_conv)
    then have "length (fst ?p) + 2 * length (held_back (snd ?p)) \<le> 2 * length (held_back (up_link u)) + 2 * length (fst ?r)"
      using upload_pieces_cost [OF assms(1), of "fst ?e" P] by simp
    moreover have "length (reader_payload (up_reader u)) = length (fst ?r) + length (reader_payload (snd ?r))"
      using client.rd_content [OF False] by simp
    moreover have "0 < length (fst ?r)" using False by simp
    moreover have "upload_read P k u = upload_sent (length (fst ?r)) (fst ?p) ?u"
      using False by (simp add: upload_read_def Let_def)
    then have "upload_weight (upload_read P k u)
        \<le> 3 * length (reader_payload (snd ?r)) + 2 * length (held_back (snd ?p)) + 4 + length (fst ?p)"
      using upload_sent_weight [of "length (fst ?r)" "fst ?p" ?u] by simp
    moreover have "upload_weight u = 3 * length (reader_payload (up_reader u)) + 2 * length (held_back (up_link u)) + 4"
      using assms(2) by (simp add: upload_weight_def)
    ultimately show ?thesis by linarith
  qed
qed

lemma upload_step_weight:
  assumes "link_ok (up_link u)" "up_phase u \<noteq> Ended" "up_phase u \<noteq> Aborted"
  shows "upload_weight (upload_step P ev u) < upload_weight u"
proof (cases "up_phase u")
  case Reading
  then show ?thesis
    using upload_read_weight [OF assms(1) Reading] upload_stop_weight [of u]
    by (cases ev) (simp_all add: upload_step_def upload_weight_def)
next
  case (Writing qs n)
  show ?thesis
  proof (cases qs)
    case Nil
    then show ?thesis using Writing by (simp add: upload_step_def upload_weight_def upload_sent_def)
  next
    case (Cons q ps)
    then show ?thesis
      using Writing by (cases ev) (auto simp: upload_step_def upload_weight_def upload_sent_def)
  qed
next
  case (Flushing qs)
  then show ?thesis
    by (cases qs; cases ev) (auto simp: upload_step_def upload_weight_def)
qed (use assms in simp_all)

definition upload_run :: "prims \<Rightarrow> event list \<Rightarrow> uploader \<Rightarrow> uploader" where
  "upload_run P evs u = fold (upload_step P) evs u"

lemma upload_step_not_aborted: "up_phase u \<noteq> Aborted \<Longrightarrow> up_phase (upload_step P ev u) \<noteq> Aborted"
  by (auto simp: upload_step_def upload_read_def upload_stop_def upload_sent_def Let_def
      split: phase.split event.split list.split link.split option.split)

lemma upload_run_ends:
  "link_ok (up_link u) \<Longrightarrow> up_phase u \<noteq> Aborted \<Longrightarrow> upload_weight u \<le> length evs \<Longrightarrow> up_phase (upload_run P evs u) = Ended"
proof (induction evs arbitrary: u)
  case Nil
  then show ?case by (cases "up_phase u") (auto simp: upload_run_def upload_weight_def)
next
  case (Cons ev evs)
  show ?case
  proof (cases "up_phase u = Ended")
    case True
    then have "upload_step P e u = u" for e by (simp add: upload_step_def)
    then have "upload_run P es u = u" for es by (induction es) (simp_all add: upload_run_def)
    then show ?thesis using True by simp
  next
    case False
    then have "upload_weight (upload_step P ev u) \<le> length evs"
      using upload_step_weight [OF Cons.prems(1) False Cons.prems(2), of P ev] Cons.prems(3) by simp
    then show ?thesis
      using Cons.IH [of "upload_step P ev u"] upload_step_link_ok [OF Cons.prems(1)]
        upload_step_not_aborted [OF Cons.prems(2)] by (simp add: upload_run_def)
  qed
qed

lemma upload_run_inv:
  "upload_inv P good sent l0 c0 pay reads u \<Longrightarrow>
   \<exists>reads'. upload_inv P (good \<and> list_all is_go evs) sent l0 c0 pay reads' (upload_run P evs u)"
proof (induction evs arbitrary: good reads u)
  case (Cons ev evs)
  then show ?case
    using upload_step_inv [OF Cons.prems, of ev] by (fastforce simp: upload_run_def conj_assoc)
qed (auto simp: upload_run_def)

section \<open>Properties\<close>

text \<open>A bridge as one of the three bridge functions starts it.\<close>

definition started :: "prims \<Rightarrow> client_reader \<Rightarrow> client_writer \<Rightarrow> connection_ciphers \<Rightarrow> bridge \<Rightarrow> bool" where
  "started P reader writer c b \<longleftrightarrow>
     (\<exists>items packets relay_init proto. bridge_ws P reader writer True items packets relay_init c proto = Done (Some b))
     \<or> (\<exists>inp faketls. b = bridge_relay reader writer inp c faketls)
     \<or> (\<exists>inp relay_init. bridge_tcp reader writer True inp relay_init c = Some b)"

lemma started_bridge:
  assumes "started P reader writer c b"
  obtains link source sent where "b = start_bridge reader writer c link source sent" "link_ok link" "held_back link = []"
    "link = RelayLink True \<longrightarrow> sent = []"
proof -
  consider items packets relay_init proto
      where "bridge_ws P reader writer True items packets relay_init c proto = Done (Some b)"
    | inp faketls where "b = bridge_relay reader writer inp c faketls"
    | inp relay_init where "bridge_tcp reader writer True inp relay_init c = Some b"
    using assms by (auto simp: started_def)
  then show thesis
  proof cases
    case 1
    show thesis
    proof (cases packets)
      case True
      then obtain s where s: "splitter_new P relay_init proto = Done s"
          "b = start_bridge reader writer c (WsLink (Some s)) (WsSource items) [relay_init]"
        using 1 by (auto simp: bridge_ws_def run_bind_eq_Done)
      then show thesis using splitter_new_fresh [OF s(1)] by (intro that) (auto simp: splitter_fresh_def)
    next
      case False
      then have "b = start_bridge reader writer c (WsLink None) (WsSource items) [relay_init]"
        using 1 by (simp add: bridge_ws_def)
      then show thesis by (intro that) auto
    qed
  next
    case 2
    then show thesis by (intro that [of "RelayLink faketls" _ "[]"]) (simp_all add: bridge_relay_def)
  next
    case 3
    then show thesis by (intro that [of TcpLink]) (auto simp: bridge_tcp_def)
  qed
qed

lemma start_bridge_fresh: "fresh_bridge (start_bridge reader writer c link source sent)"
  by (simp add: fresh_bridge_def start_bridge_def)

text \<open>A small bridge to evaluate: three bytes from the client, two from the data centre.\<close>

definition example_ciphers :: connection_ciphers where
  "example_ciphers = (let a = \<lparr>ctr_key = [1], ctr_iv = [2], ctr_pos = 64\<rparr>; b = \<lparr>ctr_key = [3], ctr_iv = [], ctr_pos = 0\<rparr> in
     \<lparr>clt_dec = a, clt_enc = b, tg_enc = b, tg_dec = a\<rparr>)"

definition example_bridge :: bridge where
  "example_bridge =
     start_bridge (ReaderPlain [1, 2, 3]) WriterFakeTls example_ciphers TcpLink (TcpSource [7, 8]) [[9, 9]]"

lemma example_started: "started P (ReaderPlain [1, 2, 3]) WriterFakeTls example_ciphers example_bridge"
  by (auto simp: started_def bridge_tcp_def example_bridge_def)

lemma bridge_reach_uploads:
  assumes "br_closed_by b = None"
  shows "bridge_reach P b (b\<lparr>br_up := upload_run P evs (br_up b)\<rparr>)"
proof (induction evs rule: rev_induct)
  case Nil
  show ?case using bridge_reach.start [of P b] by (simp add: upload_run_def)
next
  case (snoc ev evs)
  have "bridge_step P (b\<lparr>br_up := upload_run P evs (br_up b)\<rparr>) (b\<lparr>br_up := upload_run P (evs @ [ev]) (br_up b)\<rparr>)"
    using bridge_step.uploads [of "b\<lparr>br_up := upload_run P evs (br_up b)\<rparr>" P ev] assms by (simp add: upload_run_def)
  with snoc show ?case by (rule bridge_reach.step)
qed

lemma upload_step_keeps_sent: "prefix (up_out u) (up_out (upload_step P ev u))"
  by (auto simp: upload_step_def upload_read_def upload_stop_def upload_sent_def Let_def
      split: phase.split event.split list.split link.split option.split)

lemma bridge_reach_keeps_sent: "bridge_reach P b0 b \<Longrightarrow> prefix (up_out (br_up b0)) (up_out (br_up b))"
proof (induction rule: bridge_reach.induct)
  case (step b b')
  have "prefix (up_out (br_up b)) (up_out (br_up b'))"
    using step.hyps(2) by (cases rule: bridge_step.cases) (simp_all add: upload_step_keeps_sent)
  with step.IH show ?case by (rule prefix_order.order_trans)
qed simp

lemma bridge_pipes:
  assumes "started P reader writer c b0" and "bridge_reach P b0 b"
  shows "prefix (received (up_link (br_up b0) = RelayLink True) (up_out (br_up b)))
      (concat (up_out (br_up b0)) @
       fst (apply_keystream P (tg_enc c) (fst (apply_keystream P (clt_dec c) (reader_payload reader)))))"
    "prefix (received (writer = WriterFakeTls) (dn_out (br_down b)))
      (fst (apply_keystream P (clt_enc c) (fst (apply_keystream P (tg_dec c) (source_payload (dn_source (br_down b0)))))))"
    "\<exists>m \<le> length (reader_payload reader). \<exists>n \<le> length (source_payload (dn_source (br_down b0))).
       totals b = (of_nat m, of_nat n)"
proof -
  obtain link source sent where b0: "b0 = start_bridge reader writer c link source sent"
    and ok: "link_ok link" "held_back link = []" "link = RelayLink True \<longrightarrow> sent = []"
    using started_bridge [OF assms(1)] by blast
  have "bridge_inv P b0 b"
    using bridge_reach_inv [OF assms(2)] b0 start_bridge_fresh by simp
  then obtain rs ss where u: "upload_inv P False sent link (clt_dec c, tg_enc c) (reader_payload reader) rs (br_up b)"
    and d: "download_inv P False writer (tg_dec c, clt_enc c) (source_payload source) ss (br_down b)"
    by (auto simp: bridge_inv_def b0 start_bridge_def)
  note facts = upload_inv_received [OF u ok] download_inv_received [OF d]
  show "prefix (received (up_link (br_up b0) = RelayLink True) (up_out (br_up b)))
      (concat (up_out (br_up b0)) @
       fst (apply_keystream P (tg_enc c) (fst (apply_keystream P (clt_dec c) (reader_payload reader)))))"
    using facts(1) by (simp add: b0 start_bridge_def recrypt_def Let_def)
  show "prefix (received (writer = WriterFakeTls) (dn_out (br_down b)))
      (fst (apply_keystream P (clt_enc c) (fst (apply_keystream P (tg_dec c) (source_payload (dn_source (br_down b0)))))))"
    "\<exists>m \<le> length (reader_payload reader). \<exists>n \<le> length (source_payload (dn_source (br_down b0))).
       totals b = (of_nat m, of_nat n)"
    using facts by (auto simp: b0 start_bridge_def totals_def recrypt_def Let_def)
qed

text \<open>(C2) The bridge is a faithful pipe in both directions, at every moment of every interleaving of the
  two tasks, with any failures and with the final abort: the upstream has received, after
  the relay init, a prefix of the client's plaintext enciphered for it, and the client a
  prefix of the upstream's plaintext enciphered for it; nothing is lost in between, repeated,
  reordered or sent under the other side's key. The byte counters never exceed the bytes that
  arrived.\<close>

theorem bridge_conveys:
  assumes "started P reader writer c b0" and "bridge_reach P b0 b"
  shows "prefix (received (up_link (br_up b0) = RelayLink True) (up_out (br_up b)))
      (concat (up_out (br_up b0)) @
       fst (apply_keystream P (tg_enc c) (fst (apply_keystream P (clt_dec c) (reader_payload reader)))))
    \<and> prefix (received (writer = WriterFakeTls) (dn_out (br_down b)))
      (fst (apply_keystream P (clt_enc c) (fst (apply_keystream P (tg_dec c) (source_payload (dn_source (br_down b0)))))))
    \<and> (\<exists>m \<le> length (reader_payload reader). \<exists>n \<le> length (source_payload (dn_source (br_down b0))).
         totals b = (of_nat m, of_nat n))"
  using bridge_pipes [OF assms] by (intro conjI)

theorem bridge_conveys_witness:
  "let b = example_bridge\<lparr>br_up := upload_run example_prims [Go 2, Go 0, Fail 0] (br_up example_bridge)\<rparr> in
   bridge_reach example_prims example_bridge b \<and> up_phase (br_up b) = Ended
   \<and> length (received False (up_out (br_up b))) = 4
   \<and> prefix (received False (up_out (br_up b))) ([9, 9] @ fst (apply_keystream example_prims (tg_enc example_ciphers)
        (fst (apply_keystream example_prims (clt_dec example_ciphers) [1, 2, 3]))))"
proof -
  let ?b = "example_bridge\<lparr>br_up := upload_run example_prims [Go 2, Go 0, Fail 0] (br_up example_bridge)\<rparr>"
  have r: "bridge_reach example_prims example_bridge ?b"
    by (rule bridge_reach_uploads) (simp add: example_bridge_def start_bridge_def)
  have e: "up_phase (br_up ?b) = Ended" "length (received False (up_out (br_up ?b))) = 4"
    by code_simp+
  have "up_link (br_up example_bridge) = TcpLink" "up_out (br_up example_bridge) = [[9, 9]]"
    by (simp_all add: example_bridge_def start_bridge_def)
  with bridge_conveys [OF example_started r] r e show ?thesis by (simp add: Let_def)
qed

text \<open>(C14) An upload always ends, and completely if nothing fails: after finitely many steps, bounded by
  the bytes the client sent, the task has ended whatever the outcomes of its operations; if
  they all succeeded, the upstream has received every byte, the last partial packet
  included, and the counter shows exactly how many.\<close>

theorem upload_delivers:
  assumes "started P reader writer c b0" and "upload_weight (br_up b0) \<le> length evs"
  shows "up_phase (upload_run P evs (br_up b0)) = Ended
    \<and> upload_weight (br_up b0) = 3 * length (reader_payload reader) + 4
    \<and> (list_all is_go evs \<longrightarrow>
         received (up_link (br_up b0) = RelayLink True) (up_out (upload_run P evs (br_up b0)))
           = concat (up_out (br_up b0)) @
             fst (apply_keystream P (tg_enc c) (fst (apply_keystream P (clt_dec c) (reader_payload reader))))
         \<and> up_bytes (upload_run P evs (br_up b0)) = of_nat (length (reader_payload reader)))"
proof -
  obtain link source sent where b0: "b0 = start_bridge reader writer c link source sent"
    and ok: "link_ok link" "held_back link = []" "link = RelayLink True \<longrightarrow> sent = []"
    using started_bridge [OF assms(1)] by blast
  let ?u = "br_up b0"
  have u: "up_link ?u = link" "up_phase ?u = Reading" "up_bytes ?u = 0" "up_out ?u = sent" "up_reader ?u = reader"
      "up_clt_dec ?u = clt_dec c" "up_tg_enc ?u = tg_enc c"
    by (simp_all add: b0 start_bridge_def)
  have fin: "up_phase (upload_run P evs ?u) = Ended"
    using upload_run_ends [OF _ _ assms(2)] ok u by simp
  have "upload_inv P True sent link (clt_dec c, tg_enc c) (reader_payload reader) [] ?u"
    using fresh_upload_inv [of ?u P True] u by simp
  from upload_run_inv [OF this, of evs] obtain rs
    where inv: "upload_inv P (list_all is_go evs) sent link (clt_dec c, tg_enc c) (reader_payload reader) rs (upload_run P evs ?u)"
    by auto
  show ?thesis
    using fin upload_inv_received(3) [OF inv ok _ fin] u ok(2)
    by (auto simp: recrypt_def Let_def upload_weight_def)
qed

theorem upload_delivers_witness:
  "let u = upload_run example_prims (replicate 13 (Go 1)) (br_up example_bridge) in
   started example_prims (ReaderPlain [1, 2, 3]) WriterFakeTls example_ciphers example_bridge
   \<and> up_phase u = Ended \<and> up_bytes u = 3
   \<and> received False (up_out u) = [9, 9] @ fst (apply_keystream example_prims (tg_enc example_ciphers)
        (fst (apply_keystream example_prims (clt_dec example_ciphers) [1, 2, 3])))"
proof -
  have "up_link (br_up example_bridge) = TcpLink" "up_out (br_up example_bridge) = [[9, 9]]"
      "upload_weight (br_up example_bridge) \<le> length (replicate 13 (Go 1))" "list_all is_go (replicate 13 (Go 1))"
    by (simp_all add: example_bridge_def start_bridge_def upload_weight_def list_all_iff)
  with upload_delivers [OF example_started, of "replicate 13 (Go 1)" example_prims] example_started show ?thesis
    by (simp add: Let_def)
qed

text \<open>(C15) A bridge closes once and for all and leaves no task behind: when \<open>join_bridge\<close> has returned, the
  task it names had ended, the other one has ended or is aborted, and neither ever runs
  again; and as long as it has not returned, a task that has ended can be joined.\<close>

theorem bridge_closes:
  assumes "started P reader writer c b0" and "bridge_reach P b0 b"
  shows "(case br_closed_by b of
      Some Client \<Rightarrow> up_phase (br_up b) = Ended \<and> dn_phase (br_down b) \<in> {Ended, Aborted} \<and> (\<forall>b'. \<not> bridge_step P b b')
    | Some Upstream \<Rightarrow> dn_phase (br_down b) = Ended \<and> up_phase (br_up b) \<in> {Ended, Aborted} \<and> (\<forall>b'. \<not> bridge_step P b b')
    | None \<Rightarrow> (up_phase (br_up b) = Ended \<longrightarrow> bridge_step P b (join_bridge Client b))
        \<and> (dn_phase (br_down b) = Ended \<longrightarrow> bridge_step P b (join_bridge Upstream b)))"
proof -
  obtain link source sent where b0: "b0 = start_bridge reader writer c link source sent"
    using started_bridge [OF assms(1)] by blast
  have inv: "bridge_inv P b0 b"
    using bridge_reach_inv [OF assms(2)] b0 start_bridge_fresh by simp
  have "\<not> bridge_step P b b'" if "br_closed_by b \<noteq> None" for b'
    using that by (auto elim: bridge_stepE)
  then show ?thesis
    using inv by (auto simp: bridge_inv_def simp del: join_bridge.simps intro: bridge_step.intros
        split: option.splits closed_by.splits)
qed

theorem bridge_closes_witness:
  "\<exists>b. bridge_reach example_prims example_bridge b \<and> br_closed_by b = Some Client
     \<and> up_phase (br_up b) = Ended \<and> dn_phase (br_down b) = Aborted \<and> (\<forall>b'. \<not> bridge_step example_prims b b')"
proof -
  let ?b = "example_bridge\<lparr>br_up := upload_run example_prims (replicate 13 (Go 1)) (br_up example_bridge)\<rparr>"
  have n: "br_closed_by ?b = None" "dn_phase (br_down ?b) = Reading" by (simp_all add: example_bridge_def start_bridge_def)
  have e: "up_phase (br_up ?b) = Ended" by code_simp
  have "bridge_reach example_prims example_bridge ?b"
    by (rule bridge_reach_uploads) (simp add: example_bridge_def start_bridge_def)
  then have r: "bridge_reach example_prims example_bridge (join_bridge Client ?b)"
    by (rule bridge_reach.step) (rule bridge_step.upload_ended [OF n(1) e])
  from bridge_closes [OF example_started r] r n e show ?thesis
    by (intro exI [of _ "join_bridge Client ?b"]) (simp add: abort_phase_def)
qed

end
