(* ===== verification/Session.thy ===== *)
theory Session
  imports Routing Bridge
begin

text \<open>
  One client session of \<open>rust/src/proxy.rs\<close>, from the accepted socket to the running bridge: the
  inbound handshake, plain or disguised as TLS, its validation against the configured secrets, the
  choice of an upstream and the start of the bridge to it.

  What a peer will still send is part of the environment: \<open>client_later\<close>, \<open>peer_later\<close> and \<open>ws_later\<close>
  are the bytes or messages that arrive after the ones already read. They only say what
  the bridge's readers will find; the bridge itself reads them piece by piece.
\<close>

section \<open>The inbound handshake\<close>

definition split_mtproto_init_and_pending :: "bytes \<Rightarrow> (bytes \<times> bytes) option" where
  "split_mtproto_init_and_pending data = (if length data < 64 then None else Some (take 64 data, drop 64 data))"

text \<open>The loop that collects the 64-byte init from Application Data records.\<close>

function fill_handshake :: "bytes \<Rightarrow> bytes \<Rightarrow> (bytes \<times> bytes) option \<times> bytes" where
  "fill_handshake filled reader =
     (if 64 \<le> length filled then (Some (filled, []), reader)
      else
        let r = read_tls_appdata (TLS_MAX_RECORD_PAYLOAD + TLS_READ_HEADROOM) reader;
            n = length (fst r);
            taken = min n (64 - length filled);
            filled' = filled @ take taken (fst r)
        in if fst r = [] then (None, snd r)
           else if taken \<noteq> n then
             (if filled = [] then split_mtproto_init_and_pending (fst r) else Some (filled', drop taken (fst r)), snd r)
           else fill_handshake filled' (snd r))"
  by pat_completeness auto
termination
  by (relation "measure (\<lambda>(f, r). length r)") (auto dest: read_appdata_shrinks)

declare fill_handshake.simps [simp del]

fun hello_match :: "prims \<Rightarrow> bytes \<Rightarrow> bytes list \<Rightarrow> (fake_tls_client_hello \<times> bytes) option" where
  "hello_match P rec [] = None"
| "hello_match P rec (s # ss) =
     (case parse_faketls_client_hello P rec s of Some h \<Rightarrow> Some (h, s) | None \<Rightarrow> hello_match P rec ss)"

record ('w, 'st, 'ws) session_env = "('w, 'st, 'ws) proxy_env" +
  ws_send_op :: "'ws \<Rightarrow> bytes \<Rightarrow> ('w, string + unit) prim"
  client_later :: "'st \<Rightarrow> 'w \<Rightarrow> bytes"
  peer_later :: "'st \<Rightarrow> 'w \<Rightarrow> bytes"
  ws_later :: "'ws \<Rightarrow> 'w \<Rightarrow> ws_item list"

text \<open>The result is the init, what came with it, and what the socket has already delivered beyond.\<close>

definition accept_inbound_faketls ::
  "('w, 'st, 'ws, 'x) session_env_scheme \<Rightarrow> 'st \<Rightarrow> bytes list \<Rightarrow> string
   \<Rightarrow> (('w, 'b) sys_scheme, ((bytes \<times> bytes) \<times> bytes) option) io" where
  "accept_inbound_faketls E st secrets expected_domain =
     io_bind (perform (flight_op E st)) (\<lambda>input.
       let r = read_tls_record (TLS_MAX_RECORD_PAYLOAD + TLS_READ_HEADROOM) input in
       case fst r of
         TlsRecord record_type version payload \<Rightarrow>
           if record_type \<noteq> TLS_RECORD_HANDSHAKE \<or> version \<noteq> [0x03, 0x01] then io_return None
           else
             let rec = [record_type] @ version @ u16_to_be (of_nat (length payload)) @ payload in
             (case hello_match (p_prims E) rec secrets of
                None \<Rightarrow> io_return None
              | Some (hello, matched_secret) \<Rightarrow>
                  if fh_hostname hello \<noteq> Some expected_domain then io_return None
                  else
                    io_bind (perform (random_op E)) (\<lambda>rng.
                    io_bind (io_run (build_faketls_server_hello (p_prims E) matched_secret hello rng)) (\<lambda>server_hello.
                    io_bind (perform (write_op E st (fst server_hello))) (\<lambda>w.
                      case w of
                        Inl e \<Rightarrow> io_return None
                      | Inr _ \<Rightarrow>
                          io_bind (perform (flight_op E st)) (\<lambda>answer.
                            let f = fill_handshake [] (snd r @ answer)
                            in io_return (map_option (\<lambda>x. (x, snd f)) (fst f)))))))
       | _ \<Rightarrow> io_return None)"

definition read_inbound_handshake ::
  "('w, 'st, 'ws, 'x) session_env_scheme \<Rightarrow> 'st \<Rightarrow> bytes list \<Rightarrow> string option
   \<Rightarrow> (('w, 'b) sys_scheme, ((bytes \<times> bytes) \<times> bytes) option) io" where
  "read_inbound_handshake E st secrets faketls_domain =
     (case faketls_domain of
        Some domain \<Rightarrow> accept_inbound_faketls E st secrets domain
      | None \<Rightarrow>
          io_bind (perform (flight_op E st)) (\<lambda>input.
            io_return (case read_exact 64 input of
                         None \<Rightarrow> None
                       | Some (handshake_buf, rest) \<Rightarrow> Some ((handshake_buf, []), rest))))"

section \<open>The session\<close>

fun handshake_match :: "prims \<Rightarrow> bytes \<Rightarrow> bytes list \<Rightarrow> (handshake_info \<times> bytes) option run" where
  "handshake_match P h [] = Done None"
| "handshake_match P h (s # ss) =
     run_bind (parse_handshake P h s)
       (\<lambda>i. case i of Some info \<Rightarrow> Done (Some (info, s)) | None \<Rightarrow> handshake_match P h ss)"

text \<open>\<open>-(dc_id as i16)\<close> wraps at \<open>i16::MIN\<close> in a release build.\<close>

definition signed_dc :: "handshake_info \<Rightarrow> i16" where
  "signed_dc info = (if hi_is_media info then - ucast (hi_dc_id info) else ucast (hi_dc_id info))"

datatype outcome =
  Dropped \<comment> \<open>no handshake in time, no route or no upstream: the socket is closed\<close>
| Drained client_reader \<comment> \<open>a wrong handshake: read to the end and ignored\<close>
| Bridged bridge

definition client_halves :: "string option \<Rightarrow> bytes \<Rightarrow> bytes \<Rightarrow> client_reader \<times> client_writer" where
  "client_halves faketls_domain input pending =
     (if faketls_domain \<noteq> None then (ReaderFakeTls input pending, WriterFakeTls) else (ReaderPlain input, WriterPlain))"

definition outcome_of :: "bridge option \<Rightarrow> outcome" where
  "outcome_of b = (case b of Some b \<Rightarrow> Bridged b | None \<Rightarrow> Dropped)"

text \<open>\<open>ws_send\<close>: one binary message, flushed.\<close>

definition ws_send ::
  "('w, 'st, 'ws, 'x) session_env_scheme \<Rightarrow> 'ws \<Rightarrow> bytes \<Rightarrow> (('w, 'b) sys_scheme, string + unit) io" where
  "ws_send E ws d = perform (ws_send_op E ws d)"

text \<open>The head of \<open>bridge_tcp\<close>: the connect to \<open>dst:443\<close> and the relay init.\<close>

definition connect_bridge_tcp ::
  "('w, 'st, 'ws, 'x) session_env_scheme \<Rightarrow> client_reader \<Rightarrow> client_writer \<Rightarrow> string \<Rightarrow> bytes \<Rightarrow> connection_ciphers
   \<Rightarrow> nat \<Rightarrow> (('w, 'b) sys_scheme, outcome) io" where
  "connect_bridge_tcp E reader writer dst relay_init ciphers connect_timeout =
     io_bind (outbound_connect E (e_crates E) (e_outbound E) dst 443 connect_timeout) (\<lambda>conn.
     case conn of
       Inl e \<Rightarrow> io_return Dropped
     | Inr remote \<Rightarrow>
         io_bind (perform (write_op E remote relay_init)) (\<lambda>sent.
         io_bind (io_get (\<lambda>s. peer_later E remote (net s))) (\<lambda>later.
         io_return (outcome_of (bridge_tcp reader writer (\<not> isl sent) later relay_init ciphers)))))"

text \<open>Step 6: the relay init is sent to a WebSocket or a data centre, and the bridge starts.\<close>

definition start_upstream ::
  "('w, 'st, 'ws, 'x) session_env_scheme \<Rightarrow> route \<Rightarrow> client_reader \<Rightarrow> client_writer \<Rightarrow> bytes \<Rightarrow> connection_ciphers
   \<Rightarrow> ('st, 'ws) upstream \<Rightarrow> (('w, 'b) sys_scheme, outcome) io" where
  "start_upstream E R reader writer relay_init ciphers u =
     (case u of
        UpstreamWs ws how \<Rightarrow>
          io_bind (ws_send E ws relay_init) (\<lambda>sent.
          io_bind (io_get (\<lambda>s. ws_later E ws (net s))) (\<lambda>items.
          io_bind (io_run (bridge_ws (p_prims E) reader writer (\<not> isl sent) items (how = Packets) relay_init
              ciphers (rt_proto R))) (\<lambda>b. io_return (outcome_of b))))
      | UpstreamMtproto conn \<Rightarrow>
          io_bind (io_get (\<lambda>s. peer_later E (uc_stream conn) (net s))) (\<lambda>later.
          io_return (Bridged (bridge_relay reader writer (uc_pending conn @ later)
            (ciphers\<lparr>tg_enc := uc_enc conn, tg_dec := uc_dec conn\<rparr>) (uc_faketls conn))))
      | UpstreamTcp dst \<Rightarrow>
          connect_bridge_tcp E reader writer dst relay_init ciphers (t_tcp_fallback (rt_timeouts R)))"

text \<open>Steps 3 to 6, once a secret matched.\<close>

definition serve_client ::
  "('w, 'st, 'ws, 'x) session_env_scheme \<Rightarrow> config \<Rightarrow> client_reader \<times> client_writer \<Rightarrow> handshake_info \<times> bytes
   \<Rightarrow> (('w, 'ws, 'b) proxy_state_scheme, outcome) io" where
  "serve_client E c halves matched =
     (let info = fst matched; secret = snd matched in
      io_bind (perform (random_op E)) (\<lambda>rng.
      io_bind (io_run (generate_relay_init (p_prims E) (hi_proto info) (signed_dc info) rng)) (\<lambda>g.
      io_bind (io_run (build_connection_ciphers (p_prims E) (hi_prekey_and_iv info) secret (fst g))) (\<lambda>ciphers.
      let R = \<lparr>rt_config = c, rt_timeouts = timeouts_from_config c, rt_dc = hi_dc_id info, rt_is_media = hi_is_media info,
               rt_dc_idx = signed_dc info, rt_proto = hi_proto info\<rparr> in
      io_bind (select_upstream E R (dc_target_ip c (hi_dc_id info))) (\<lambda>u.
        case u of
          None \<Rightarrow> io_return Dropped
        | Some u \<Rightarrow> start_upstream E R (fst halves) (snd halves) (fst g) ciphers u)))))"

text \<open>What follows the handshake read: \<open>None\<close> is its timeout, \<open>Some None\<close> a failed read.\<close>

definition after_handshake ::
  "('w, 'st, 'ws, 'x) session_env_scheme \<Rightarrow> config \<Rightarrow> 'st \<Rightarrow> bytes list \<Rightarrow> ((bytes \<times> bytes) \<times> bytes) option option
   \<Rightarrow> (('w, 'ws, 'b) proxy_state_scheme, outcome) io" where
  "after_handshake E c st secrets handshake =
     (case handshake of
        Some (Some ((handshake_buf, pending), input)) \<Rightarrow>
          io_bind (io_get (\<lambda>s. client_later E st (net s))) (\<lambda>later.
          let halves = client_halves (listen_faketls_domain (p_hex E) c) (input @ later) pending in
          io_bind (io_run (handshake_match (p_prims E) handshake_buf secrets)) (\<lambda>matched.
          case matched of
            None \<Rightarrow> io_return (Drained (client_drain (fst halves)))
          | Some m \<Rightarrow> serve_client E c halves m))
      | _ \<Rightarrow> io_return Dropped)"

definition handle_client_with_runtime ::
  "('w, 'st, 'ws, 'x) session_env_scheme \<Rightarrow> config \<Rightarrow> 'st \<Rightarrow> (('w, 'ws, 'b) proxy_state_scheme, outcome) io" where
  "handle_client_with_runtime E c st =
     io_bind (io_run (secret_bytes_list (p_hex E) c)) (\<lambda>secrets.
     io_bind (timeout (t_handshake (timeouts_from_config c))
       (read_inbound_handshake E st secrets (listen_faketls_domain (p_hex E) c)))
     (after_handshake E c st secrets))"

definition handle_client ::
  "('w, 'st, 'ws, 'x) session_env_scheme \<Rightarrow> config \<Rightarrow> 'st \<Rightarrow> (('w, 'ws, 'b) proxy_state_scheme, outcome) io" where
  "handle_client E c st =
     handle_client_with_runtime (E\<lparr>e_outbound := outbound_direct, r_fronting_domain := None,
       r_fronting_cooldown := DEFAULT_FRONTING_COOLDOWN\<rparr>) c st"

section \<open>Runs of a session\<close>

lemma fill_handshake_payload:
  "length filled \<le> 64 \<Longrightarrow> fill_handshake filled reader = (res, rest) \<Longrightarrow>
   (case res of
      Some (h, pending) \<Rightarrow> length h = 64 \<and>
        filled @ tls_payload (TLS_MAX_RECORD_PAYLOAD + TLS_READ_HEADROOM) reader
          = h @ pending @ tls_payload (TLS_MAX_RECORD_PAYLOAD + TLS_READ_HEADROOM) rest
    | None \<Rightarrow> length filled + length (tls_payload (TLS_MAX_RECORD_PAYLOAD + TLS_READ_HEADROOM) reader) < 64)"
proof (induction filled reader arbitrary: res rest rule: fill_handshake.induct)
  case (1 filled reader)
  let ?n = "TLS_MAX_RECORD_PAYLOAD + TLS_READ_HEADROOM"
  let ?r = "read_tls_appdata ?n reader"
  let ?t = "min (length (fst ?r)) (64 - length filled)"
  show ?case
  proof (cases "64 \<le> length filled")
    case True
    with "1.prems" show ?thesis by (auto simp: fill_handshake.simps [of filled reader])
  next
    case short: False
    show ?thesis
    proof (cases "fst ?r = []")
      case True
      then have "tls_payload ?n reader = []" by (rule tls.rd_end)
      with "1.prems" short True show ?thesis by (auto simp: fill_handshake.simps [of filled reader] Let_def)
    next
      case False
      note pay = tls.rd_content [OF False]
      show ?thesis
      proof (cases "?t = length (fst ?r)")
        case True
        then have le: "length (filled @ fst ?r) \<le> 64" and tk: "take ?t (fst ?r) = fst ?r"
          using short by simp_all
        have "fill_handshake (filled @ fst ?r) (snd ?r) = (res, rest)"
          using "1.prems" short False True by (simp add: fill_handshake.simps [of filled reader] Let_def)
        with "1.IH" [OF short refl refl refl refl False, unfolded tk, of res rest] True le pay show ?thesis
          by (auto split: option.splits)
      next
        case False
        then have t: "?t = 64 - length filled" "64 - length filled < length (fst ?r)" by simp_all
        then have "(if filled = [] then split_mtproto_init_and_pending (fst ?r)
             else Some (filled @ take ?t (fst ?r), drop ?t (fst ?r)), snd ?r) = (res, rest)"
          using "1.prems" short \<open>fst ?r \<noteq> []\<close> by (simp add: fill_handshake.simps [of filled reader] Let_def)
        then show ?thesis
          using t short pay by (auto simp: split_mtproto_init_and_pending_def split: if_splits)
      qed
    qed
  qed
qed

lemmas io_runs = io_bind_Some io_run_Some io_return_Some

lemma signed_dc_roundtrip:
  assumes "hi_dc_id info = ucast (unsigned_abs w)" "hi_is_media info \<longleftrightarrow> sint w < 0"
  shows "signed_dc info = w"
proof -
  have "ucast (ucast (unsigned_abs w) :: u32) = unsigned_abs w"
    by (rule bit_word_eqI) (auto simp: bit_simps)
  then show ?thesis
    using assms by (auto simp: signed_dc_def unsigned_abs_def)
qed

lemma outcome_of_Bridged [simp]: "outcome_of x = Bridged b \<longleftrightarrow> x = Some b"
  by (cases x) (auto simp: outcome_of_def)

lemma bridge_ws_started:
  assumes "bridge_ws P reader writer ok items packets relay_init c proto = Done (Some b)"
  shows "started P reader writer c b \<and> up_out (br_up b) = [relay_init] \<and> up_tg_enc (br_up b) = tg_enc c
    \<and> up_link (br_up b) \<noteq> RelayLink True"
proof -
  have ok: "ok" using assms by (cases ok) (simp_all add: bridge_ws_def)
  then have "started P reader writer c b" using assms unfolding started_def by auto
  moreover obtain l where "b = start_bridge reader writer c (WsLink l) (WsSource items) [relay_init]"
    using assms ok by (auto simp: bridge_ws_def run_bind_eq_Done)
  ultimately show ?thesis by (simp add: start_bridge_def)
qed

lemma start_upstream_Bridged:
  assumes "start_upstream E R reader writer relay_init c u s = (Some (Bridged b), t)"
  shows "\<exists>c'. started (p_prims E) reader writer c' b \<and> clt_dec c' = clt_dec c \<and> clt_enc c' = clt_enc c
    \<and> (c' = c \<and> up_out (br_up b) = [relay_init] \<and> up_tg_enc (br_up b) = tg_enc c \<and> up_link (br_up b) \<noteq> RelayLink True
       \<or> up_out (br_up b) = [])"
proof (cases u)
  case (UpstreamWs ws how)
  then obtain ok items where
    "bridge_ws (p_prims E) reader writer ok items (how = Packets) relay_init c (rt_proto R) = Done (Some b)"
    using assms by (auto simp: start_upstream_def connect_bridge_tcp_def ws_send_def io_runs)
  from bridge_ws_started [OF this] show ?thesis by blast
next
  case (UpstreamMtproto conn)
  let ?c = "c\<lparr>tg_enc := uc_enc conn, tg_dec := uc_dec conn\<rparr>"
  obtain inp where b: "b = bridge_relay reader writer inp ?c (uc_faketls conn)"
    using assms UpstreamMtproto by (auto simp: start_upstream_def connect_bridge_tcp_def ws_send_def io_runs)
  then have "started (p_prims E) reader writer ?c b" unfolding started_def by blast
  with b show ?thesis by (intro exI [of _ ?c]) (simp add: bridge_relay_def start_bridge_def)
next
  case (UpstreamTcp dst)
  then obtain ok inp where b: "bridge_tcp reader writer ok inp relay_init c = Some b"
    using assms by (clarsimp simp: start_upstream_def connect_bridge_tcp_def ws_send_def io_bind_Some [of "outbound_connect _ _ _ _ _ _"])
      (auto simp: io_runs split: sum.split_asm)
  then have ok: "ok" by (simp add: bridge_tcp_def split: if_splits)
  then have "started (p_prims E) reader writer c b" using b unfolding started_def by auto
  with b ok show ?thesis by (intro exI [of _ c]) (auto simp: bridge_tcp_def start_bridge_def)
qed

text \<open>What must have happened for a session to end in a running bridge.\<close>

lemma handle_client_Bridged:
  assumes "handle_client_with_runtime E c st s = (Some (Bridged b), t)"
  obtains secrets h pending input s1 info secret rng r rest cs c' where
    "secret_bytes_list (p_hex E) c = Done secrets"
    "read_inbound_handshake E st secrets (listen_faketls_domain (p_hex E) c) s = (Some (Some ((h, pending), input)), s1)"
    "handshake_match (p_prims E) h secrets = Done (Some (info, secret))"
    "generate_relay_init (p_prims E) (hi_proto info) (signed_dc info) rng = Done (r, rest)"
    "build_connection_ciphers (p_prims E) (hi_prekey_and_iv info) secret r = Done cs"
    "started (p_prims E)
       (fst (client_halves (listen_faketls_domain (p_hex E) c) (input @ client_later E st (net s1)) pending))
       (snd (client_halves (listen_faketls_domain (p_hex E) c) (input @ client_later E st (net s1)) pending)) c' b"
    "clt_dec c' = clt_dec cs" "clt_enc c' = clt_enc cs"
    "c' = cs \<and> up_out (br_up b) = [r] \<and> up_tg_enc (br_up b) = tg_enc cs \<and> up_link (br_up b) \<noteq> RelayLink True
     \<or> up_out (br_up b) = []"
proof -
  let ?dom = "listen_faketls_domain (p_hex E) c"
  obtain secrets handshake s1 where sec: "secret_bytes_list (p_hex E) c = Done secrets"
    and hs: "timeout (t_handshake (timeouts_from_config c)) (read_inbound_handshake E st secrets ?dom) s = (Some handshake, s1)"
    and k: "after_handshake E c st secrets handshake s1 = (Some (Bridged b), t)"
    using assms by (auto simp: handle_client_with_runtime_def io_bind_Some io_run_Some)
  obtain h pending input where h: "handshake = Some (Some ((h, pending), input))"
    using k by (auto simp: after_handshake_def io_return_Some split: option.splits)
  let ?halves = "client_halves ?dom (input @ client_later E st (net s1)) pending"
  obtain matched where m: "handshake_match (p_prims E) h secrets = Done (Some matched)"
    and k1: "serve_client E c ?halves matched s1 = (Some (Bridged b), t)"
    using k unfolding h after_handshake_def
    by (auto simp: Let_def io_bind_Some io_run_Some io_return_Some split: option.split_asm)
  obtain R u s2 rng r rest cs where
      g: "generate_relay_init (p_prims E) (hi_proto (fst matched)) (signed_dc (fst matched)) rng = Done (r, rest)"
    and cs: "build_connection_ciphers (p_prims E) (hi_prekey_and_iv (fst matched)) (snd matched) r = Done cs"
    and u: "start_upstream E R (fst ?halves) (snd ?halves) r cs u s2 = (Some (Bridged b), t)"
    using k1 unfolding serve_client_def
    by (auto simp: Let_def io_bind_Some io_run_Some io_return_Some split: option.split_asm)
  obtain c' where "started (p_prims E) (fst ?halves) (snd ?halves) c' b" "clt_dec c' = clt_dec cs" "clt_enc c' = clt_enc cs"
      "c' = cs \<and> up_out (br_up b) = [r] \<and> up_tg_enc (br_up b) = tg_enc cs \<and> up_link (br_up b) \<noteq> RelayLink True
       \<or> up_out (br_up b) = []"
    using start_upstream_Bridged [OF u] by blast
  then show thesis
    using that [OF sec _ _ g cs] timeout_Some_Some [OF hs [unfolded h]] m by simp
qed

section \<open>Admission\<close>

text \<open>The client hello that opens a FakeTLS session: one handshake record, signed with a configured
  secret, for the expected host.\<close>

definition authentic_hello :: "prims \<Rightarrow> bytes list \<Rightarrow> string \<Rightarrow> bytes \<Rightarrow> bool" where
  "authentic_hello P secrets domain input \<longleftrightarrow>
     (case fst (read_tls_record (TLS_MAX_RECORD_PAYLOAD + TLS_READ_HEADROOM) input) of
        TlsRecord record_type version payload \<Rightarrow>
          record_type = TLS_RECORD_HANDSHAKE \<and> version = [0x03, 0x01] \<and>
          (case hello_match P ([record_type] @ version @ u16_to_be (of_nat (length payload)) @ payload) secrets of
             Some (hello, _) \<Rightarrow> fh_hostname hello = Some domain
           | None \<Rightarrow> False)
      | _ \<Rightarrow> False)"

lemma accept_rejects:
  assumes "flight_op E st (net s) = (Some (input, d), w)" "\<not> authentic_hello (p_prims E) secrets domain input"
  shows "accept_inbound_faketls E st secrets domain s = (Some None, s\<lparr>net := w, clock := clock s + d\<rparr>)"
  using assms
  by (auto simp: accept_inbound_faketls_def io_bind_def perform_def authentic_hello_def Let_def io_return_def
      split: record_read.splits option.splits)

lemma accept_Some:
  assumes "accept_inbound_faketls E st secrets domain s = (Some (Some ((h, pending), rest)), t)"
  shows "\<exists>input d w answer d'. fst (flight_op E st (net s)) = Some (input, d)
    \<and> authentic_hello (p_prims E) secrets domain input \<and> fst (flight_op E st w) = Some (answer, d')
    \<and> length h = 64
    \<and> h = take 64 (tls_payload CLIENT_READ_BUF_SIZE
        (snd (read_tls_record (TLS_MAX_RECORD_PAYLOAD + TLS_READ_HEADROOM) input) @ answer))"
proof -
  obtain input d w where f: "flight_op E st (net s) = (Some (input, d), w)"
    using assms by (auto simp: accept_inbound_faketls_def io_bind_def perform_def split: prod.splits option.splits)
  with accept_rejects [OF f] assms have auth: "authentic_hello (p_prims E) secrets domain input"
    by (metis option.distinct(1) option.inject prod.inject)
  let ?r = "read_tls_record (TLS_MAX_RECORD_PAYLOAD + TLS_READ_HEADROOM) input"
  obtain ty v p where r: "fst ?r = TlsRecord ty v p" using auth by (auto simp: authentic_hello_def split: record_read.splits)
  obtain w1 w2 answer d' where a: "flight_op E st w1 = (Some (answer, d'), w2)"
    and "fst (fill_handshake [] (snd ?r @ answer)) = Some (h, pending)" "rest = snd (fill_handshake [] (snd ?r @ answer))"
    using assms f r
    by (auto simp: accept_inbound_faketls_def io_bind_Some perform_Some Let_def io_return_Some io_run_Some io_case_sum_Some
        split: if_splits option.splits prod.splits)
  then have fill: "fill_handshake [] (snd ?r @ answer) = (Some (h, pending), rest)" by (simp add: prod_eq_iff)
  have "length h = 64 \<and> tls_payload CLIENT_READ_BUF_SIZE (snd ?r @ answer) = h @ reader_payload (ReaderFakeTls rest pending)"
    using fill_handshake_payload [of "[]" "snd ?r @ answer"] fill by (simp add: CLIENT_READ_BUF_SIZE_def)
  then show ?thesis using f auth a by (intro exI [of _ input] exI [of _ d] exI [of _ w1] exI [of _ answer] exI [of _ d']) simp
qed

lemma handshake_match_Some:
  "handshake_match P h ss = Done (Some (info, s)) \<Longrightarrow>
   \<exists>xs ys. ss = xs @ s # ys \<and> parse_handshake P h s = Done (Some info) \<and> (\<forall>x \<in> set xs. parse_handshake P h x = Done None)"
proof (induction ss)
  case (Cons a ss)
  then obtain i where i: "parse_handshake P h a = Done i"
    by (auto simp: run_bind_eq_Done)
  show ?case
  proof (cases i)
    case None
    with Cons i obtain xs ys where "ss = xs @ s # ys \<and> parse_handshake P h s = Done (Some info)
        \<and> (\<forall>x \<in> set xs. parse_handshake P h x = Done None)" by auto
    with i None show ?thesis by (intro exI [of _ "a # xs"] exI [of _ ys]) simp
  next
    case (Some j)
    with Cons.prems i show ?thesis by (intro exI [of _ "[]"] exI [of _ ss]) simp
  qed
qed simp

section \<open>End to end\<close>

lemma apply_keystream_prefix: "prefix xs ys \<Longrightarrow> prefix (fst (apply_keystream P c xs)) (fst (apply_keystream P c ys))"
  by (auto simp: prefix_def apply_keystream_append)

lemma tg_ciphers:
  assumes "build_connection_ciphers P k secret r = Done cs" "length r = 64"
  shows "tg_enc cs = \<lparr>ctr_key = subrange 8 40 r, ctr_iv = subrange 40 56 r, ctr_pos = 64\<rparr>"
    "tg_dec cs = \<lparr>ctr_key = take 32 (rev (subrange 8 56 r)), ctr_iv = drop 32 (rev (subrange 8 56 r)), ctr_pos = 0\<rparr>"
  using assms by (auto simp: build_connection_ciphers_def Let_def run_bind_eq_Done layout_simps)

text \<open>What the data centre sees: the init, then what was enciphered after it.\<close>

lemma relay_stream_plaintext:
  assumes "length r = 64" "c = \<lparr>ctr_key = k, ctr_iv = v, ctr_pos = 0\<rparr>"
    "prefix s (r @ fst (apply_keystream P \<lparr>ctr_key = k, ctr_iv = v, ctr_pos = 64\<rparr> xs))" "prefix r s"
  shows "take 64 (fst (apply_keystream P c s)) = fst (apply_keystream P c r) \<and> prefix (drop 64 (fst (apply_keystream P c s))) xs"
proof -
  obtain z where s: "s = r @ z" using assms(4) by (auto simp: prefix_def)
  with assms(3) have z: "prefix z (fst (apply_keystream P \<lparr>ctr_key = k, ctr_iv = v, ctr_pos = 64\<rparr> xs))" by simp
  have "fst (apply_keystream P c s) =
      fst (apply_keystream P c r) @ fst (apply_keystream P \<lparr>ctr_key = k, ctr_iv = v, ctr_pos = 64\<rparr> z)"
    using assms(1,2) by (simp add: s apply_keystream_append)
  then show ?thesis
    using assms(1) apply_keystream_prefix [OF z, of P "\<lparr>ctr_key = k, ctr_iv = v, ctr_pos = 64\<rparr>"]
    by (simp add: aes.crypt_undo)
qed

text \<open>A plain client with a fresh handshake under the only configured secret, once it is bridged to a data
  centre: the bridge reads the bytes after the handshake and runs under the client's own ciphers.\<close>

lemma plain_client_bridged:
  assumes "prims_ok (p_prims E)" and "secret_bytes_list (p_hex E) c = Done [secret]"
    and "listen_faketls_domain (p_hex E) c = None"
    and "generate_client_handshake (p_prims E) secret dc_idx proto rng = Done ((h, enc, dec), rest)"
    and "flight_op E st (net s) = (Some (h @ x, d), w)"
    and "handle_client_with_runtime E c st s = (Some (Bridged b0), t)" and "up_out (br_up b0) = [r]"
  obtains rng' rest' cs where "generate_relay_init (p_prims E) proto dc_idx rng' = Done (r, rest')"
    "build_connection_ciphers (p_prims E) (subrange 8 56 h) secret r = Done cs" "clt_dec cs = enc" "clt_enc cs = dec"
    "started (p_prims E) (ReaderPlain (x @ client_later E st w)) WriterPlain cs b0" "up_link (br_up b0) \<noteq> RelayLink True"
proof -
  note parsed = generated_handshake_parses [OF assms(1,4)]
  have len: "length h = 64" using parsed by (simp add: layout_simps)
  obtain secrets h' pending input s1 info secret' rng' r' rest' cs c' where
    f: "secret_bytes_list (p_hex E) c = Done secrets"
    "read_inbound_handshake E st secrets (listen_faketls_domain (p_hex E) c) s = (Some (Some ((h', pending), input)), s1)"
    "handshake_match (p_prims E) h' secrets = Done (Some (info, secret'))"
    "generate_relay_init (p_prims E) (hi_proto info) (signed_dc info) rng' = Done (r', rest')"
    "build_connection_ciphers (p_prims E) (hi_prekey_and_iv info) secret' r' = Done cs"
    "started (p_prims E)
       (fst (client_halves (listen_faketls_domain (p_hex E) c) (input @ client_later E st (net s1)) pending))
       (snd (client_halves (listen_faketls_domain (p_hex E) c) (input @ client_later E st (net s1)) pending)) c' b0"
    "c' = cs \<and> up_out (br_up b0) = [r'] \<and> up_tg_enc (br_up b0) = tg_enc cs \<and> up_link (br_up b0) \<noteq> RelayLink True
     \<or> up_out (br_up b0) = []"
    by (rule handle_client_Bridged [OF assms(6)])
  have read: "h' = h" "input = x" "net s1 = w"
    using f(2) assms(3,5) len
    by (auto simp: read_inbound_handshake_def io_bind_def perform_def io_return_def)
  have match: "info = \<lparr>hi_dc_id = ucast (unsigned_abs dc_idx), hi_is_media = (sint dc_idx < 0), hi_proto = proto,
      hi_prekey_and_iv = subrange 8 56 h\<rparr>" "secret' = secret"
    using f(1,3) assms(2) parsed read by (auto simp: layout_simps)
  have r: "r' = r" "c' = cs" "up_link (br_up b0) \<noteq> RelayLink True" using f(7) assms(7) by auto
  have g: "generate_relay_init (p_prims E) proto dc_idx rng' = Done (r, rest')"
    using f(4) signed_dc_roundtrip [of info dc_idx] by (simp add: match r)
  then have "length r = HANDSHAKE_LEN" using relay_init_plaintext by blast
  from generated_handshake_ciphers [OF assms(1) this assms(4)] f(5)
  have "clt_dec cs = enc" "clt_enc cs = dec" by (auto simp: match r layout_simps)
  then show thesis
    using that [OF g] f(5,6) assms(3) read match r by (auto simp: client_halves_def)
qed

section \<open>A session to evaluate\<close>

text \<open>A session to evaluate: a client whose first bytes are \<open>flight\<close> and who sends \<open>later\<close> afterwards, a
  network in which every TCP connect succeeds, and a configuration with one secret and no other route.\<close>

definition example_secret :: bytes where "example_secret = replicate 16 0x11"

definition example_client_config :: config where
  "example_client_config =
     example_config\<lparr>c_secrets := [hex_encode lower_hex example_secret], c_cf_worker_domains := []\<rparr>"

definition example_session :: "bytes \<Rightarrow> bytes \<Rightarrow> (string list, unit, unit) session_env" where
  "example_session flight later =
     proxy_env.extend
       (example_proxy\<lparr>tcp_connect_op := \<lambda>addr w. (Some (Inr (), 0), w @ [addr]),
                      flight_op := \<lambda>st w. (Some (flight, 0), w)\<rparr>)
       (session_env.fields (\<lambda>ws d w. (Some (Inr (), 0), w)) (\<lambda>st w. later) (\<lambda>st w. [5, 6]) (\<lambda>ws w. []))"

lemmas example_session_defs = example_session_def example_proxy_def example_pool_def with_runtime_def runtime_new_def refusing_def
  proxy_env.extend_def pool_env.extend_def rt_env.extend_def env.extend_def session_env.fields_def proxy_env.fields_def
  pool_env.fields_def

lemma example_session_simps [simp]:
  "p_prims (example_session f l) = example_prims" "p_hex (example_session f l) = lower_hex"
  "flight_op (example_session f l) st = (\<lambda>w. (Some (f, 0), w))" "client_later (example_session f l) st w = l"
  "random_op (example_session f l) = (\<lambda>w. (Some (replicate 200 1, 0), w))"
  "write_op (example_session f l) st d = (\<lambda>w. (Some (Inr (), 0), w))"
  "tcp_connect_op (example_session f l) a = (\<lambda>w. (Some (Inr (), 0), w @ [a]))"
  "e_outbound (example_session f l) = outbound_direct"
  by (simp_all add: example_session_defs)

lemma example_client_config_simps:
  "secret_bytes_list lower_hex example_client_config = Done [example_secret]"
  "listen_faketls_domain lower_hex example_client_config = None"
  by code_simp+


lemma no_route_but_tcp:
  assumes "c_cf_domains (rt_config R) = []" "c_cf_worker_domains (rt_config R) = []" "c_mtproto_proxies (rt_config R) = []"
  shows "select_upstream E R None s = (Some (map_option UpstreamTcp (fallback_ip (rt_dc R))), s)"
  using assms
  by (auto simp: select_upstream_def fallback_chain_def cf_tiers_def cf_worker_def cf_proxy_def upstream_proxies_def io_bind_def io_return_def
      or_else_def split: option.split)

lemma example_session_bridged:
  assumes "generate_client_handshake example_prims example_secret 2 proto rng = Done ((h, enc, dec), rest)"
  shows "\<exists>b t. handle_client_with_runtime (example_session (h @ x) y) example_client_config () fresh_proxy = (Some (Bridged b), t)
     \<and> up_link (br_up b) = TcpLink \<and> br_closed_by b = None \<and> (\<exists>r. up_out (br_up b) = [r])"
proof -
  let ?E = "example_session (h @ x) y"
  have h: "length h = 64" and info: "parse_handshake example_prims h example_secret = Done (Some
     \<lparr>hi_dc_id = 2, hi_is_media = False, hi_proto = proto, hi_prekey_and_iv = subrange 8 56 h\<rparr>)"
    using generated_handshake_parses [OF example_prims_ok assms] by (simp_all add: layout_simps unsigned_abs_def)
  have "\<not> reserved_init (replicate 64 1)" by code_simp
  then obtain r where g: "generate_relay_init example_prims proto 2 (replicate 200 1) = Done (r, replicate 134 1)"
    using generate_relay_init_accepts [of "replicate 64 1" "replicate 2 1" example_prims proto 2 "replicate 134 1"]
    by (auto simp flip: replicate_add)
  then have r: "length r = HANDSHAKE_LEN" using relay_init_plaintext by blast
  obtain cs where cs: "build_connection_ciphers example_prims (subrange 8 56 h) example_secret r = Done cs"
    using generated_handshake_ciphers [OF example_prims_ok r assms] by (auto simp: layout_simps)
  have ip: "fallback_ip 2 = Some ''149.154.167.51''" by code_simp
  have u: "select_upstream ?E \<lparr>rt_config = example_client_config, rt_timeouts = ts, rt_dc = 2, rt_is_media = False,
      rt_dc_idx = 2, rt_proto = proto\<rparr> None fresh_proxy = (Some (Some (UpstreamTcp ''149.154.167.51'')), fresh_proxy)" for ts
    by (subst no_route_but_tcp) (simp_all add: example_client_config_def example_config_def ip)
  have t: "dc_target_ip example_client_config 2 = None" by code_simp
  show ?thesis
    using h info g cs u t
    by (simp add: Let_def handle_client_with_runtime_def after_handshake_def serve_client_def start_upstream_def connect_bridge_tcp_def ws_send_def
      read_inbound_handshake_def io_bind_def io_return_def io_run_def perform_def timeout_def example_client_config_simps
      signed_dc_def client_halves_def bridge_tcp_def outcome_of_def start_bridge_def
      outbound_connect_def outbound_direct_def connect_direct_def connect_tcp_def io_result_def classify_connect_def)
qed

lemma example_handshake:
  obtains h enc dec where
    "generate_client_handshake example_prims example_secret 2 proto (replicate 64 1) = Done ((h, enc, dec), [])"
proof -
  have "\<not> reserved_init (replicate 64 1)" by code_simp
  then show thesis
    using generate_client_handshake_accepts [OF example_prims_ok, of "replicate 64 1" example_secret 2 proto "[]"] that
    by (metis append_Nil2 length_replicate prod_cases3)
qed

section \<open>Properties\<close>

text \<open>(C16) Reading the 64-byte init out of Application Data records loses nothing, however the client
  cut it into records: the init followed by what the client reader will deliver (the
  rest of the last record, then the later records) is exactly the payload of the stream; and if
  no init is found, the stream carried fewer than 64 bytes.\<close>

theorem inbound_handshake_reassembled:
  "case fill_handshake [] reader of
     (Some (h, pending), rest) \<Rightarrow> length h = 64 \<and>
       reader_payload (ReaderFakeTls reader []) = h @ reader_payload (ReaderFakeTls rest pending)
   | (None, rest) \<Rightarrow> length (reader_payload (ReaderFakeTls reader [])) < 64"
  using fill_handshake_payload [of "[]" reader]
  by (auto simp: CLIENT_READ_BUF_SIZE_def split: prod.split option.split)



text \<open>(C4) A scanner learns nothing from a listener disguised as TLS: unless its first flight is a hello
  signed with a configured secret for the configured host, the session only reads; it ends
  with the connection dropped, nothing written to it and no route tried, after at most the
  handshake timeout.\<close>

theorem probe_gets_no_answer:
  assumes "secret_bytes_list (p_hex E) c = Done secrets" and "listen_faketls_domain (p_hex E) c = Some domain"
    and "flight_op E st (net s) = (Some (input, d), w)" and "\<not> authentic_hello (p_prims E) secrets domain input"
  shows "handle_client_with_runtime E c st s
    = (Some Dropped, s\<lparr>net := w, clock := clock s + min d (t_handshake (timeouts_from_config c))\<rparr>)"
  using assms accept_rejects [OF assms(3,4)]
  by (simp add: handle_client_with_runtime_def io_bind_def io_run_def timeout_def read_inbound_handshake_def
      after_handshake_def io_return_def min_def)

theorem probe_gets_no_answer_witness:
  "let c = example_client_config\<lparr>c_listen_faketls_domain := Some ''a.b''\<rparr> in
   handle_client_with_runtime (example_session [0x16, 3, 1, 0, 2, 1, 0] []) c () fresh_proxy = (Some Dropped, fresh_proxy)"
proof -
  let ?c = "example_client_config\<lparr>c_listen_faketls_domain := Some ''a.b''\<rparr>"
  have c: "secret_bytes_list lower_hex ?c = Done [example_secret]" "listen_faketls_domain lower_hex ?c = Some ''a.b''"
    by code_simp+
  have "\<not> authentic_hello example_prims [example_secret] ''a.b'' [0x16, 3, 1, 0, 2, 1, 0]" by code_simp
  then show ?thesis
    using probe_gets_no_answer [of "example_session [0x16, 3, 1, 0, 2, 1, 0] []" ?c "[example_secret]" "''a.b''" "()"
        fresh_proxy "[0x16, 3, 1, 0, 2, 1, 0]" 0 "net fresh_proxy"] c by (simp add: Let_def)
qed

end
