(* ===== verification/Check.thy ===== *)
theory Check
  imports Session
begin

text \<open>
  The \<open>--check\<close> mode (\<open>rust/src/check.rs\<close>) and \<open>ws_recv\<close> of \<open>rust/src/ws_client.rs\<close>: one probe for every configured
  Cloudflare domain, Worker and upstream proxy, a report line for each and an overall verdict. Printing is the
  report that is returned; the dash in the messages is written \<open>-\<close>.
\<close>

section \<open>Probes\<close>

datatype probe_status = ProbeOk nat | ProbeFail string

fun marker :: "probe_status \<Rightarrow> string" where
  "marker (ProbeOk d) = ''OK ''"
| "marker (ProbeFail reason) = ''FAIL''"

fun detail :: "probe_status \<Rightarrow> string" where
  "detail (ProbeOk d) = decimal d @ ''ms''"
| "detail (ProbeFail reason) = reason"

fun is_ok :: "probe_status \<Rightarrow> bool" where
  "is_ok (ProbeOk d) = True"
| "is_ok (ProbeFail reason) = False"

text \<open>\<open>ws_items_op\<close>: the messages that arrive on a WebSocket up to the one \<open>ws_recv\<close> stops at; it never completes
  on a connection that stays silent.\<close>

record ('w, 'st, 'ws) check_env = "('w, 'st, 'ws) session_env" +
  ws_items_op :: "'ws \<Rightarrow> ('w, ws_item list) prim"

fun ws_recv :: "ws_item list \<Rightarrow> bytes option" where
  "ws_recv [] = None"
| "ws_recv (Binary b # ms) = Some b"
| "ws_recv (Text t # ms) = Some t"
| "ws_recv (Ping d # ms) = ws_recv ms"
| "ws_recv (Pong d # ms) = ws_recv ms"
| "ws_recv (RawFrame d # ms) = ws_recv ms"
| "ws_recv (Closing # ms) = None"

definition probe_cf_domain ::
  "('w, 'st, 'ws, 'x) check_env_scheme \<Rightarrow> string \<Rightarrow> bool \<Rightarrow> nat \<Rightarrow> (('w, 'b) sys_scheme, probe_status) io" where
  "probe_cf_domain E domain skip_tls limit =
     io_bind (io_get clock) (\<lambda>start.
     io_bind (connect_cf_ws_for_dc_with_outbound E 2 [domain] False skip_tls limit) (\<lambda>r.
     io_bind (io_get clock) (\<lambda>now.
     io_return (if fst r \<noteq> None then ProbeOk (now - start)
       else ProbeFail ''WebSocket connection failed - check DNS records and Cloudflare settings''))))"

definition WORKER_TUNNEL_SETTLE :: nat where "WORKER_TUNNEL_SETTLE = from_secs 3"

definition settle_verdict :: "string \<Rightarrow> nat \<Rightarrow> bytes option option \<Rightarrow> probe_status" where
  "settle_verdict dst elapsed answer =
     (case answer of
        None \<Rightarrow> ProbeOk elapsed
      | Some None \<Rightarrow> ProbeFail (''Worker tunnel to '' @ dst @ '' closed immediately - the Worker cannot reach Telegram ''
          @ ''(check its live logs in the Cloudflare dashboard)'')
      | Some (Some data) \<Rightarrow> ProbeFail (''Worker tunnel to '' @ dst @ '' answered the MTProto init with ''
          @ decimal (length data) @ '' unexpected bytes - the far end is not a Telegram DC''))"

definition probe_cf_worker ::
  "('w, 'st, 'ws, 'x) check_env_scheme \<Rightarrow> string \<Rightarrow> bool \<Rightarrow> nat \<Rightarrow> (('w, 'b) sys_scheme, probe_status) io" where
  "probe_cf_worker E domain skip_tls limit =
     (case default_dc_ip 2 of
        None \<Rightarrow> io_return (ProbeFail ''DC 2 default IP is missing'')
      | Some dst \<Rightarrow>
          io_bind (io_get clock) (\<lambda>start.
          io_bind (connect_cf_worker_ws_for_dc_with_outbound E domain dst 2 False skip_tls limit) (\<lambda>ws.
          case ws of
            None \<Rightarrow> io_return (ProbeFail ''Worker WebSocket tunnel failed - check Worker code and domain'')
          | Some ws \<Rightarrow>
              io_bind (perform (random_op E)) (\<lambda>rng.
              io_bind (io_run (generate_relay_init (p_prims E) Intermediate 2 rng)) (\<lambda>g.
              io_bind (ws_send E ws (fst g)) (\<lambda>sent.
              case sent of
                Inl e \<Rightarrow> io_return (ProbeFail (''Worker tunnel closed on send: '' @ e))
              | Inr _ \<Rightarrow>
                  io_bind (io_get clock) (\<lambda>now.
                  io_bind (timeout WORKER_TUNNEL_SETTLE
                    (io_bind (perform (ws_items_op E ws)) (\<lambda>items. io_return (ws_recv items)))) (\<lambda>answer.
                  io_return (settle_verdict dst (now - start) answer)))))))))"

definition probe_mtproto_proxy ::
  "('w, 'st, 'ws, 'x) check_env_scheme \<Rightarrow> mtproto_proxy \<Rightarrow> nat \<Rightarrow> (('w, 'b) sys_scheme, probe_status) io" where
  "probe_mtproto_proxy E proxy limit =
     (case hex_decode (p_hex E) (mp_secret proxy) of
        None \<Rightarrow> io_return (ProbeFail ''invalid hex secret'')
      | Some secret \<Rightarrow>
          let key_bytes = secret_key secret in
          io_bind (io_get clock) (\<lambda>start.
          io_bind (outbound_connect E (e_crates E) (e_outbound E) (mp_host proxy) (mp_port proxy) limit) (\<lambda>conn.
          case conn of
            Inl e \<Rightarrow> io_return (ProbeFail (''TCP connect failed: '' @ oe_reason e))
          | Inr stream \<Rightarrow>
              io_bind (perform (random_op E)) (\<lambda>rng.
              io_bind (io_run (generate_client_handshake (p_prims E) key_bytes 2 PaddedIntermediate rng)) (\<lambda>g.
              let finish = io_bind (io_get clock) (\<lambda>now. io_return (ProbeOk (now - start))) in
              case faketls_hostname secret of
                Some host_bytes \<Rightarrow>
                  (case from_utf8 host_bytes of
                     None \<Rightarrow> io_return (ProbeFail ''FakeTLS secret contains non-UTF-8 hostname'')
                   | Some hostname \<Rightarrow>
                       io_bind (io_run (build_faketls_client_hello hostname (snd g))) (\<lambda>hello.
                       io_bind (io_get (\<lambda>s. unix_time E (clock s))) (\<lambda>now.
                       io_bind (io_run (sign_faketls_client_hello (p_prims E) now (fst hello) key_bytes)) (\<lambda>client_hello.
                       io_bind (perform (write_op E stream client_hello)) (\<lambda>w.
                       case w of
                         Inl e \<Rightarrow> io_return (ProbeFail (''send FakeTLS ClientHello: '' @ e))
                       | Inr _ \<Rightarrow>
                           io_bind (timeout limit (io_bind (perform (flight_op E stream))
                             (\<lambda>input. io_return (fst (drain_faketls_server_hello input))))) (\<lambda>drained.
                           if drained = Some True then finish
                           else io_return (ProbeFail
                             ''FakeTLS server handshake failed or timed out - check secret and proxy address'')))))))
              | None \<Rightarrow>
                  io_bind (perform (write_op E stream (fst (fst g)))) (\<lambda>w.
                  case w of
                    Inl e \<Rightarrow> io_return (ProbeFail (''send MTProto handshake: '' @ e))
                  | Inr _ \<Rightarrow> finish))))))"

text \<open>\<open>secret.get(..2)\<close> needs two bytes and a character boundary after them.\<close>

definition proxy_kind :: "mtproto_proxy \<Rightarrow> string" where
  "proxy_kind proxy =
     (let s = mp_secret proxy;
          first_byte = (if 2 \<le> length s \<and> (length s = 2 \<or> \<not> is_cont (of_char (s ! 2)))
                        then from_str_radix 16 256 (take 2 s) else None)
      in if first_byte = Some 0xee then ''FakeTLS'' else if first_byte = Some 0xdd then ''padded'' else ''plain'')"

section \<open>The run\<close>

text \<open>One report line per target: its label and its status.\<close>

type_synonym report = "(string \<times> probe_status) list"

fun probe_all :: "('a \<Rightarrow> string) \<Rightarrow> ('a \<Rightarrow> ('s, probe_status) io) \<Rightarrow> 'a list \<Rightarrow> ('s, report) io" where
  "probe_all label probe [] = io_return []"
| "probe_all label probe (x # xs) =
     io_bind (probe x) (\<lambda>status.
     io_bind (probe_all label probe xs) (\<lambda>rest. io_return ((label x, status) # rest)))"

definition proxy_label :: "mtproto_proxy \<Rightarrow> string" where
  "proxy_label p = mp_host p @ '':'' @ decimal (unat (mp_port p)) @ ''  ['' @ proxy_kind p @ '']''"

definition run_check_with_outbound ::
  "('w, 'st, 'ws, 'x) check_env_scheme \<Rightarrow> config \<Rightarrow> (('w, 'b) sys_scheme, bool \<times> report) io" where
  "run_check_with_outbound E c =
     (let cf_timeout = from_secs (c_cf_connect_timeout c); upstream_timeout = from_secs (c_upstream_connect_timeout c);
          skip_tls = c_skip_tls_verify c in
      if c_cf_domains c = [] \<and> c_cf_worker_domains c = [] \<and> c_mtproto_proxies c = [] then io_return (True, [])
      else
        io_bind (probe_all (\<lambda>d. ''kws2.'' @ d) (\<lambda>d. probe_cf_domain E d skip_tls cf_timeout) (c_cf_domains c)) (\<lambda>r1.
        io_bind (probe_all (\<lambda>d. d) (\<lambda>d. probe_cf_worker E d skip_tls cf_timeout) (c_cf_worker_domains c)) (\<lambda>r2.
        io_bind (probe_all proxy_label (\<lambda>p. probe_mtproto_proxy E p upstream_timeout) (c_mtproto_proxies c)) (\<lambda>r3.
        io_return (list_all (\<lambda>x. is_ok (snd x)) (r1 @ r2 @ r3), r1 @ r2 @ r3)))))"

text \<open>\<open>main\<close> exits with this status.\<close>

definition check_exit_code :: "bool \<Rightarrow> nat" where
  "check_exit_code all_ok = (if all_ok then 0 else 1)"

definition run_check ::
  "('w, 'st, 'ws, 'x) check_env_scheme \<Rightarrow> (string \<Rightarrow> bytes option) \<Rightarrow> config \<Rightarrow> (('w, 'b) sys_scheme, bool \<times> report) io" where
  "run_check E environ c =
     (case outbound_connector (e_crates E) environ c of
        Inl e \<Rightarrow> io_return (False, [])
      | Inr outbound \<Rightarrow> run_check_with_outbound (E\<lparr>e_outbound := outbound\<rparr>) c)"

section \<open>Properties\<close>

lemma io_get_Some: "io_get f s = (Some x, t) \<longleftrightarrow> x = f s \<and> t = s"
  by auto

lemma timeout_Some_None:
  "timeout n m s = (Some None, t) \<Longrightarrow> clock t = clock s + n \<and> (\<forall>x u. m s = (Some x, u) \<longrightarrow> clock s + n < clock u)"
  by (auto simp: timeout_def split: prod.splits option.splits if_splits)

lemma settle_verdict_ok: "settle_verdict dst d a = ProbeOk n \<longleftrightarrow> a = None \<and> n = d"
  by (auto simp: settle_verdict_def split: option.splits)

text \<open>A network in which every connect and upgrade succeeds and the tunnel stays silent.\<close>

definition example_check :: "(string list, unit, unit) check_env" where
  "example_check =
     session_env.extend ((example_session [] [])\<lparr>ws_client_tls_op := \<lambda>cfg r st w. (Some (Inr ((), 101), 0), w)\<rparr>)
       (check_env.fields (\<lambda>ws w. (None, w)))"

lemma example_check_simps [simp]:
  "p_prims example_check = example_prims" "p_hex example_check = lower_hex" "random_op example_check = (\<lambda>w. (Some (replicate 200 1, 0), w))"
  "tcp_connect_op example_check a = (\<lambda>w. (Some (Inr (), 0), w @ [a]))" "e_outbound example_check = outbound_direct"
  "ws_client_tls_op example_check cfg r st = (\<lambda>w. (Some (Inr ((), 101), 0), w))" "request_error example_check u = None"
  "server_name_ok example_check n = True" "ws_send_op example_check ws d = (\<lambda>w. (Some (Inr (), 0), w))"
  "ws_items_op example_check ws = (\<lambda>w. (None, w))"
  by (simp_all add: example_check_def example_session_defs session_env.extend_def check_env.fields_def)

lemma example_worker_passes:
  "\<exists>t. probe_cf_worker example_check ''w.dev'' False 10 \<lparr>clock = 0, net = []\<rparr> = (Some (ProbeOk 0), t)"
proof -
  have "\<not> reserved_init (replicate 64 1)" by code_simp
  then obtain r where g: "generate_relay_init example_prims Intermediate 2 (replicate 200 1) = Done (r, replicate 134 1)"
    using generate_relay_init_accepts [of "replicate 64 1" "replicate 2 1" example_prims Intermediate 2 "replicate 134 1"]
    by (auto simp flip: replicate_add)
  have ip: "default_dc_ip 2 = Some ''149.154.167.51''" by code_simp
  show ?thesis
    by (simp add: probe_cf_worker_def ip io_bind_def perform_def io_run_def g io_return_def timeout_def settle_verdict_def
        connect_cf_worker_ws_for_dc_with_outbound_def connect_ws_with_path_def outbound_connect_def outbound_direct_def
        connect_direct_def connect_tcp_def io_result_def classify_connect_def
        tls_handshake_and_upgrade_def classify_upgrade_def ws_send_def)
qed

text \<open>(C33) A Worker passes the check only if its tunnel really held: it opened the WebSocket for data centre 2, the
  64-byte init was accepted, and then, for the whole settle time, neither a close nor a byte arrived on it (a
  Worker that answers the upgrade but cannot reach Telegram is reported as failed). The reported
  time is the time up to the send, without the settle wait.\<close>

theorem worker_probe_sound:
  assumes "probe_cf_worker E domain skip_tls limit s = (Some (ProbeOk n), t)"
  shows "\<exists>dst ws s1 rng r rest s2 s3 u.
      default_dc_ip 2 = Some dst
    \<and> connect_cf_worker_ws_for_dc_with_outbound E domain dst 2 False skip_tls limit s = (Some (Some ws), s1)
    \<and> perform (random_op E) s1 = (Some rng, s2)
    \<and> generate_relay_init (p_prims E) Intermediate 2 rng = Done (r, rest)
    \<and> ws_send E ws r s2 = (Some (Inr u), s3)
    \<and> n = clock s3 - clock s \<and> clock t = clock s3 + WORKER_TUNNEL_SETTLE
    \<and> (\<forall>items s4. perform (ws_items_op E ws) s3 = (Some items, s4) \<longrightarrow> clock s3 + WORKER_TUNNEL_SETTLE < clock s4)"
proof -
  obtain dst where dst: "default_dc_ip 2 = Some dst"
    using assms by (auto simp: probe_cf_worker_def io_return_Some split: option.splits)
  obtain w s1 where c: "connect_cf_worker_ws_for_dc_with_outbound E domain dst 2 False skip_tls limit s = (Some w, s1)"
    using assms dst by (auto simp: probe_cf_worker_def io_bind_Some io_get_Some)
  then obtain ws where w: "w = Some ws"
    using assms dst by (cases w) (auto simp: probe_cf_worker_def io_bind_Some io_get_Some io_return_Some)
  obtain rng s2 where r: "perform (random_op E) s1 = (Some rng, s2)"
    using assms dst c w by (auto simp: probe_cf_worker_def io_bind_Some io_get_Some)
  obtain r rest where g: "generate_relay_init (p_prims E) Intermediate 2 rng = Done (r, rest)"
    using assms dst c w r by (auto simp: probe_cf_worker_def io_bind_Some io_get_Some io_run_Some)
  obtain x s3 where x: "ws_send E ws r s2 = (Some x, s3)"
    using assms dst c w r g by (auto simp: probe_cf_worker_def io_bind_Some io_get_Some io_run_Some)
  then obtain u where u: "x = Inr u"
    using assms dst c w r g by (cases x) (auto simp: probe_cf_worker_def io_bind_Some io_get_Some io_run_Some io_return_Some)
  let ?m = "io_bind (perform (ws_items_op E ws)) (\<lambda>items. io_return (ws_recv items))"
  have a: "timeout WORKER_TUNNEL_SETTLE ?m s3 = (Some None, t)" and n: "n = clock s3 - clock s"
    using assms dst c w r g x u
    by (auto simp: probe_cf_worker_def io_bind_Some [of "timeout _ _"] io_bind_Some [of "io_get _"] io_bind_Some [of "perform (random_op E)"]
        io_bind_Some [of "io_run _"] io_bind_Some [of "ws_send _ _ _"] io_bind_Some [of "connect_cf_worker_ws_for_dc_with_outbound _ _ _ _ _ _ _"]
        io_get_Some io_run_Some io_return_Some settle_verdict_ok)
  have "clock s3 + WORKER_TUNNEL_SETTLE < clock s4" if "perform (ws_items_op E ws) s3 = (Some items, s4)" for items s4
    using timeout_Some_None [OF a] that by (auto simp: io_bind_Some io_return_Some)
  then show ?thesis
    using dst c w r g x u n timeout_Some_None [OF a] by blast
qed

theorem worker_probe_sound_witness:
  "\<exists>t ws s1 rng r rest. probe_cf_worker example_check ''w.dev'' False 10 \<lparr>clock = 0, net = []\<rparr> = (Some (ProbeOk 0), t)
     \<and> connect_cf_worker_ws_for_dc_with_outbound example_check ''w.dev'' ''149.154.167.51'' 2 False False 10 \<lparr>clock = 0, net = []\<rparr>
         = (Some (Some ws), s1)
     \<and> generate_relay_init example_prims Intermediate 2 rng = Done (r, rest) \<and> 3000 \<le> clock t"
proof -
  obtain t where p: "probe_cf_worker example_check ''w.dev'' False 10 \<lparr>clock = 0, net = []\<rparr> = (Some (ProbeOk 0), t)"
    using example_worker_passes by blast
  have "default_dc_ip 2 = Some ''149.154.167.51''" by code_simp
  with worker_probe_sound [OF p] p show ?thesis
    by (auto simp: WORKER_TUNNEL_SETTLE_def from_secs_def)
qed

lemma probe_all_report:
  "probe_all label probe xs s = (Some r, t) \<Longrightarrow> map fst r = map label xs"
  by (induction xs arbitrary: s r) (auto simp: io_bind_Some io_return_Some)

text \<open>The report is complete and the verdict is honest: there is one line for every configured Cloudflare domain,
  Worker and upstream proxy, in the order of the configuration, and the check passes (exit status 0)
  exactly when every line is a success.\<close>

lemma check_verdict:
  assumes "run_check_with_outbound E c s = (Some (all_ok, report), t)"
  shows "map fst report = map (\<lambda>d. ''kws2.'' @ d) (c_cf_domains c) @ c_cf_worker_domains c @ map proxy_label (c_mtproto_proxies c)
    \<and> (check_exit_code all_ok = 0 \<longleftrightarrow> list_all (\<lambda>x. is_ok (snd x)) report)"
  using assms
  by (auto simp: run_check_with_outbound_def Let_def io_bind_Some io_return_Some check_exit_code_def
      split: if_splits dest!: probe_all_report)

end
