(* ===== verification/Limits.thy ===== *)
theory Limits
  imports Rust_Str
begin

text \<open>
  The connection cap derived from the file-descriptor budget (\<open>rust/src/limits.rs\<close>). \<open>usize\<close> is a
  word of any length of at least 16 bits, as Rust guarantees; its saturating operations are
  spelled out.
\<close>

section \<open>Saturating arithmetic\<close>

definition saturating_add :: "'u::len word \<Rightarrow> 'u word \<Rightarrow> 'u word" where
  "saturating_add a b = (if unat a + unat b < 2 ^ LENGTH('u) then a + b else - 1)"

definition saturating_mul :: "'u::len word \<Rightarrow> 'u word \<Rightarrow> 'u word" where
  "saturating_mul a b = (if unat a * unat b < 2 ^ LENGTH('u) then a * b else - 1)"

definition saturating_sub :: "'u::len word \<Rightarrow> 'u word \<Rightarrow> 'u word" where
  "saturating_sub a b = (if b \<le> a then a - b else 0)"

lemma unat_all_ones: "unat (- 1 :: 'u::len word) = 2 ^ LENGTH('u) - 1"
  by (simp add: unsigned_minus_1_eq_mask mask_eq_exp_minus_1)

lemma unat_saturating_add:
  "unat (saturating_add a b) = min (unat a + unat b) (2 ^ LENGTH('u) - 1)" for a b :: "'u::len word"
  by (auto simp: saturating_add_def unat_all_ones unat_word_ariths min_def)

lemma unat_saturating_mul:
  "unat (saturating_mul a b) = min (unat a * unat b) (2 ^ LENGTH('u) - 1)" for a b :: "'u::len word"
proof (cases "unat a * unat b < 2 ^ LENGTH('u)")
  case True
  then have "min (unat a * unat b) (2 ^ LENGTH('u) - 1) = unat a * unat b" by linarith
  with True show ?thesis by (simp add: saturating_mul_def unat_word_ariths)
next
  case False
  then have "min (unat a * unat b) (2 ^ LENGTH('u) - 1) = 2 ^ LENGTH('u) - 1" by linarith
  with False show ?thesis by (simp add: saturating_mul_def unat_all_ones)
qed

lemma unat_saturating_sub: "unat (saturating_sub a b) = unat a - unat b"
  by (auto simp: saturating_sub_def unat_sub word_le_nat_alt)

section \<open>Constants and operations\<close>

definition DEFAULT_NOFILE_LIMIT :: "'u::len word" where "DEFAULT_NOFILE_LIMIT = 1024"
definition UNLIMITED_MAX_CONNECTIONS :: "'u::len word" where "UNLIMITED_MAX_CONNECTIONS = 512"
definition RUNTIME_RESERVED_FDS :: "'u::len word" where "RUNTIME_RESERVED_FDS = 32"
definition FDS_PER_CONNECTION :: "'u::len word" where "FDS_PER_CONNECTION = 2"
definition FDS_PER_POOL_SLOT :: "'u::len word" where "FDS_PER_POOL_SLOT = 2"
definition MIN_MAX_CONNECTIONS :: "'u::len word" where "MIN_MAX_CONNECTIONS = 4"

text \<open>\<open>content\<close> is the text of \<open>/proc/self/limits\<close>, or \<open>None\<close> when it cannot be read.\<close>

fun nofile_from_lines :: "string list \<Rightarrow> 'u::len word option" where
  "nofile_from_lines [] = None"
| "nofile_from_lines (line # rest) =
     (let ws = split_whitespace line in
      if starts_with ''Max open files'' line \<and> 3 < length ws then
        (if ws ! 3 = ''unlimited'' then Some (- 1)
         else case parse_uint (2 ^ LENGTH('u)) (ws ! 3) of
                Some n \<Rightarrow> Some (of_nat n)
              | None \<Rightarrow> nofile_from_lines rest)
      else nofile_from_lines rest)"

definition soft_nofile_limit :: "string option \<Rightarrow> 'u::len word" where
  "soft_nofile_limit content =
     (case content of
        None \<Rightarrow> DEFAULT_NOFILE_LIMIT
      | Some text \<Rightarrow>
          (case nofile_from_lines (lines_of text) of Some n \<Rightarrow> n | None \<Rightarrow> DEFAULT_NOFILE_LIMIT))"

definition auto_max_connections :: "'u::len word \<Rightarrow> 'u word \<Rightarrow> 'u word \<Rightarrow> 'u word" where
  "auto_max_connections fd_limit pool_size dc_buckets =
     (if fd_limit = - 1 then UNLIMITED_MAX_CONNECTIONS
      else
        let pool_fds = saturating_mul (saturating_mul pool_size dc_buckets) FDS_PER_POOL_SLOT;
            reserved = saturating_add (saturating_add 1 pool_fds) RUNTIME_RESERVED_FDS
        in max (saturating_sub fd_limit reserved div FDS_PER_CONNECTION) MIN_MAX_CONNECTIONS)"

section \<open>Properties\<close>

lemma unat_small_numerals:
  assumes "16 \<le> LENGTH('u::len)"
  shows "unat (2 :: 'u word) = 2" "unat (4 :: 'u word) = 4" "unat (32 :: 'u word) = 32" "unat (512 :: 'u word) = 512"
proof -
  have p: "(65536 :: nat) \<le> 2 ^ LENGTH('u)"
    using power_increasing [OF assms, of "2 :: nat"] by simp
  have "unat (numeral k :: 'u word) = numeral k" if "numeral k < (65536 :: nat)" for k
    using less_le_trans [OF that p] by (simp only: unsigned_numeral take_bit_eq_mod mod_less of_nat_numeral)
  from this [of "num.Bit0 num.One"] this [of "num.Bit0 (num.Bit0 num.One)"]
    this [of "num.Bit0 (num.Bit0 (num.Bit0 (num.Bit0 (num.Bit0 num.One))))"]
    this [of "num.Bit0 (num.Bit0 (num.Bit0 (num.Bit0 (num.Bit0 (num.Bit0 (num.Bit0 (num.Bit0 (num.Bit0 num.One))))))))"]
  show "unat (2 :: 'u word) = 2" "unat (4 :: 'u word) = 4" "unat (32 :: 'u word) = 32" "unat (512 :: 'u word) = 512"
    by simp_all
qed

lemma unat_max_word: "unat (max a b) = max (unat a) (unat b)"
  by (simp add: max_def word_le_nat_alt)

lemma auto_max_closed_form:
  fixes fd_limit pool_size dc_buckets :: "'u::len word"
  assumes "16 \<le> LENGTH('u)" "fd_limit \<noteq> - 1"
  shows "unat (auto_max_connections fd_limit pool_size dc_buckets) =
    max ((unat fd_limit - (33 + 2 * (unat pool_size * unat dc_buckets))) div 2) 4"
proof -
  note n = unat_small_numerals [OF assms(1)]
  have "unat fd_limit \<noteq> 2 ^ LENGTH('u) - 1"
    using assms(2) unat_all_ones [where 'u = 'u] by (metis word_unat_eq_iff)
  then have lt: "unat fd_limit < 2 ^ LENGTH('u) - 1"
    using unsigned_less [of fd_limit, where ?'a = nat] by linarith
  have one: "unat (1 :: 'u word) = 1" by simp
  have d: "unat (x div y) = unat x div unat y" for x y :: "'u word" by (rule unat_div)
  let ?M = "2 ^ LENGTH('u) - 1 :: nat"
  define m where "m = unat pool_size * unat dc_buckets"
  have "unat (saturating_sub fd_limit (saturating_add (saturating_add 1
      (saturating_mul (saturating_mul pool_size dc_buckets) 2)) 32)) = unat fd_limit - (33 + 2 * m)"
    unfolding unat_saturating_sub unat_saturating_add unat_saturating_mul n one m_def [symmetric]
    using lt by (auto simp: min_def)
  then show ?thesis
    unfolding auto_max_connections_def Let_def FDS_PER_POOL_SLOT_def RUNTIME_RESERVED_FDS_def
      FDS_PER_CONNECTION_def MIN_MAX_CONNECTIONS_def if_not_P [OF assms(2)] unat_max_word d n m_def
    by simp
qed

text \<open>The descriptor budget is safe at every \<open>usize\<close> width, saturation included: for a finite
  limit the automatic cap is at least 4, and unless it was raised to that minimum the
  listener, the runtime reserve, two descriptors for every pool slot and two for every admitted
  connection fit the limit, and one more connection would not.\<close>

lemma fd_budget_fits:
  fixes fd_limit pool_size dc_buckets :: "'u::len word"
  assumes "16 \<le> LENGTH('u)" and "fd_limit \<noteq> - 1"
  defines "m \<equiv> unat (auto_max_connections fd_limit pool_size dc_buckets)"
    and "reserved \<equiv> 1 + 2 * (unat pool_size * unat dc_buckets) + 32"
  shows "4 \<le> m \<and> (4 < m \<longrightarrow> reserved + 2 * m \<le> unat fd_limit \<and> unat fd_limit < reserved + 2 * (m + 1))"
  using auto_max_closed_form [OF assms(1,2), of pool_size dc_buckets]
  unfolding m_def reserved_def by auto

end
