(* ===== verification/Banner.thy ===== *)
theory Banner
  imports Config Limits
begin

text \<open>
  What \<open>main\<close> prints when the proxy starts (\<open>rust/src/main.rs\<close>): the warning about the connection cap, the banner with its
  settings and the \<open>tg://\<close> links. A log call is a line with its level; strings are their UTF-8 bytes.
\<close>

datatype log_line = LogInfo string | LogWarn string

definition warning_sign :: string where "warning_sign = [CHR 0xE2, CHR 0x9A, CHR 0xA0]"
definition voltage_sign :: string where "voltage_sign = [CHR 0xE2, CHR 0x9A, CHR 0xA1]"
definition scales_sign :: string where "scales_sign = [CHR 0xE2, CHR 0x9A, CHR 0x96]"
definition info_sign :: string where "info_sign = [CHR 0xE2, CHR 0x84, CHR 0xB9]"
definition em_dash :: string where "em_dash = [CHR 0xE2, CHR 0x80, CHR 0x94]"
definition at_most_sign :: string where "at_most_sign = [CHR 0xE2, CHR 0x89, CHR 0xA4]"

section \<open>The connection cap\<close>

definition dc_buckets :: "config \<Rightarrow> nat" where
  "dc_buckets c = length (remdups (map fst (c_dc_ip c))) * 2"

text \<open>\<open>usize\<close> is a word of any width. The lines are the warning about a setting above the safe value.\<close>

definition max_connections_for :: "'u::len word \<Rightarrow> config \<Rightarrow> 'u word \<times> log_line list" where
  "max_connections_for fd_limit c =
     (let safe = auto_max_connections fd_limit (of_nat (c_pool_size c)) (of_nat (dc_buckets c)) in
      case c_max_connections c of
        Some n \<Rightarrow>
          (of_nat n,
           if safe < of_nat n
           then [LogWarn (''max-connections='' @ decimal n @ '' may exceed the safe limit for this system's ''
                  @ ''FD budget (fd-limit='' @ decimal (unat fd_limit) @ '', recommended '' @ at_most_sign
                  @ decimal (unat safe) @ ''). Consider raising `ulimit -n` or reducing --max-connections.'')]
           else [])
      | None \<Rightarrow> (safe, []))"

section \<open>Links\<close>

definition link_to :: "ipv4 option \<Rightarrow> config \<Rightarrow> string \<Rightarrow> string" where
  "link_to probe c secret =
     ''tg://proxy?server='' @ link_host probe c @ ''&port='' @ decimal (unat (c_port c)) @ ''&secret='' @ secret"

definition tg_link :: "hex_crate \<Rightarrow> ipv4 option \<Rightarrow> config \<Rightarrow> string run" where
  "tg_link H probe c = run_bind (link_secret H c) (\<lambda>s. Done (link_to probe c s))"

fun run_map :: "('a \<Rightarrow> 'b run) \<Rightarrow> 'a list \<Rightarrow> 'b list run" where
  "run_map f [] = Done []"
| "run_map f (x # xs) = run_bind (f x) (\<lambda>y. run_bind (run_map f xs) (\<lambda>ys. Done (y # ys)))"

definition extra_links :: "hex_crate \<Rightarrow> ipv4 option \<Rightarrow> config \<Rightarrow> log_line list run" where
  "extra_links H probe c =
     (if 1 < length (c_secrets c)
      then run_bind (run_map (\<lambda>secret. run_bind (link_secret_for H c secret)
             (\<lambda>s. Done (LogInfo (''    '' @ link_to probe c s)))) (drop 1 (c_secrets c)))
           (\<lambda>links. Done (LogInfo ''  Additional per-user proxy links:'' # links))
      else Done [])"

section \<open>The banner\<close>

definition rule_line :: log_line where
  "rule_line = LogInfo (replicate 60 (CHR ''=''))"

text \<open>The redirect table as \<open>main\<close> prints it: the hash map's entries sorted by data centre.\<close>

definition sorted_redirects :: "config \<Rightarrow> (u32 \<times> string) list" where
  "sorted_redirects c =
     map (\<lambda>dc. (dc, case dc_redirects c dc of Some ip \<Rightarrow> ip | None \<Rightarrow> [])) (sort (remdups (map fst (c_dc_ip c))))"

definition banner_head :: "hex_crate \<Rightarrow> ipv4 option \<Rightarrow> string \<Rightarrow> config \<Rightarrow> log_line list" where
  "banner_head H probe version c =
     [rule_line,
      LogInfo (''  Telegram MTProto WS Bridge Proxy  (tg-ws-proxy-rs v'' @ version @ '')''),
      LogInfo (''  Listening on   '' @ bind_host probe c @ '':'' @ decimal (unat (c_port c))),
      LogInfo (''  Secret:        '' @ primary_secret c),
      LogInfo (case listen_faketls_domain H c of
          Some domain \<Rightarrow> ''  Inbound mode:   FakeTLS ee (SNI: '' @ domain @ '')''
        | None \<Rightarrow> ''  Inbound mode:   padded MTProto dd''),
      LogInfo ''  Target DC IPs:'']
     @ map (\<lambda>(dc, ip). LogInfo (''    DC'' @ decimal (unat dc) @ '': '' @ ip)) (sorted_redirects c)
     @ (if c_skip_tls_verify c then [LogInfo (''  '' @ warning_sign @ ''  TLS certificate verification DISABLED'')] else [])"

definition banner_routes :: "config \<Rightarrow> log_line list" where
  "banner_routes c =
     (if c_cf_domains c \<noteq> [] then
        LogInfo ''  Cloudflare proxy domain(s):''
        # map (\<lambda>d. LogInfo (''    '' @ d @ '' (kws{N}.'' @ d @ '' subdomains)'')) (c_cf_domains c)
        @ (if c_cf_priority c
           then [LogInfo (''    '' @ voltage_sign @ '' CF priority mode: CF proxy is tried BEFORE direct WS'')] else [])
        @ (if c_cf_balance c \<and> 1 < length (c_cf_domains c)
           then [LogInfo (''    '' @ scales_sign @ ''  CF balance mode: connections are round-robin'd across domains'')] else [])
      else [])
     @ (let workers = cf_worker_domains c in
        if workers \<noteq> [] then LogInfo ''  Cloudflare Worker domain(s):'' # map (\<lambda>d. LogInfo (''    '' @ d)) workers else [])
     @ (if c_mtproto_proxies c \<noteq> [] then
          LogInfo ''  Upstream MTProto proxies (WS fallback):''
          # map (\<lambda>p. LogInfo (''    '' @ mp_host p @ '':'' @ decimal (unat (mp_port p)))) (c_mtproto_proxies c)
        else [])"

definition banner_network :: "outbound_config \<Rightarrow> string option \<Rightarrow> config \<Rightarrow> log_line list" where
  "banner_network outbound fronting c =
     (case outbound_summary outbound of Some s \<Rightarrow> [LogInfo (''  Outbound proxy: '' @ s)] | None \<Rightarrow> [])
     @ (case fronting of
          None \<Rightarrow> []
        | Some domain \<Rightarrow>
            if c_dc_ip c = [] then
              [LogWarn (''  '' @ warning_sign @ ''  --fronting-domain '' @ domain @ '' has no effect: no --dc-ip is configured. ''
                 @ ''Fronting only applies to a direct connection to a DC's real IP ''
                 @ ''(matching upstream tg-ws-proxy) '' @ em_dash @ '' it is never used for CF proxy, ''
                 @ ''CF Worker, or upstream MTProto proxy connections.'')]
            else
              [LogInfo (''  Domain fronting: enabled (SNI '' @ domain @ '', sticky for ''
                 @ decimal (c_fronting_cooldown c) @ ''s after success)'')])"

definition banner_links :: "hex_crate \<Rightarrow> ipv4 option \<Rightarrow> config \<Rightarrow> log_line list run" where
  "banner_links H probe c =
     run_bind (tg_link H probe c) (\<lambda>link.
     run_bind (extra_links H probe c) (\<lambda>extra.
     Done ([rule_line, LogInfo ''  Telegram proxy link (use this on all devices):'', LogInfo (''    '' @ link)] @ extra
       @ (if link_host probe c \<noteq> bind_host probe c
          then [LogInfo (''  '' @ info_sign @ ''  Link uses auto-detected IP '' @ link_host probe c
                 @ ''. Use --link-ip <IP> to override.'')]
          else if bind_host probe c \<in> {''127.0.0.1'', ''::1''}
          then [LogWarn (''  '' @ warning_sign @ ''  Link shows '' @ bind_host probe c @ '' '' @ em_dash
                 @ '' only the local machine can use this link. ''
                 @ ''Run with --host 0.0.0.0 (or --link-ip <router-LAN-IP>) ''
                 @ ''so other devices on the network can connect.'')]
          else [])
       @ [rule_line])))"

definition banner ::
  "hex_crate \<Rightarrow> ipv4 option \<Rightarrow> string \<Rightarrow> outbound_config \<Rightarrow> string option \<Rightarrow> 'u::len word \<Rightarrow> config \<Rightarrow> log_line list run" where
  "banner H probe version outbound fronting fd_limit c =
     (let cap = max_connections_for fd_limit c in
      run_bind (banner_links H probe c) (\<lambda>links.
      Done (snd cap @ banner_head H probe version c @ banner_routes c @ banner_network outbound fronting c
        @ [LogInfo (''  Max connections: '' @ decimal (unat (fst cap)) @ '' (fd-limit: '' @ decimal (unat fd_limit) @ '')'')]
        @ links)))"

section \<open>The links are printed\<close>

lemma run_map_Done: "run_map f xs = Done ys \<Longrightarrow> x \<in> set xs \<Longrightarrow> \<exists>y \<in> set ys. f x = Done y"
  by (induction xs arbitrary: ys) (auto simp: run_bind_eq_Done)

lemma banner_prints_links:
  assumes "banner H probe version outbound fronting fd_limit c = Done lines" "secret \<in> set (c_secrets c)"
  obtains ls where "link_secret_for H c secret = Done ls" "LogInfo (''    '' @ link_to probe c ls) \<in> set lines"
proof -
  have "\<exists>links. banner_links H probe c = Done links \<and> set links \<subseteq> set lines"
    using assms(1) by (cases "banner_links H probe c") (auto simp: banner_def Let_def)
  then obtain first extra where l: "link_secret H c = Done first" "extra_links H probe c = Done extra"
      "LogInfo (''    '' @ link_to probe c first) \<in> set lines" "set extra \<subseteq> set lines"
    by (auto simp: banner_links_def tg_link_def run_bind_eq_Done)
  show thesis
  proof (cases "secret = primary_secret c")
    case True
    with l that show ?thesis by (auto simp: link_secret_def)
  next
    case False
    with assms(2) have s: "secret \<in> set (drop 1 (c_secrets c))" "1 < length (c_secrets c)"
      by (cases "c_secrets c"; cases "drop 1 (c_secrets c)"; auto simp: primary_secret_def)+
    then obtain ys where "run_map (\<lambda>secret. run_bind (link_secret_for H c secret)
        (\<lambda>s. Done (LogInfo (''    '' @ link_to probe c s)))) (drop 1 (c_secrets c)) = Done ys" "set ys \<subseteq> set lines"
      using l(2,4) by (auto simp: extra_links_def run_bind_eq_Done)
    with run_map_Done [OF this(1) s(1)] obtain ls where "link_secret_for H c secret = Done ls"
        "LogInfo (''    '' @ link_to probe c ls) \<in> set ys"
      by (auto simp: run_bind_eq_Done)
    with that \<open>set ys \<subseteq> set lines\<close> show ?thesis by blast
  qed
qed

end
