(* ===== verification/Certificates.thy ===== *)
theory Certificates
  imports Routing
begin

text \<open>
  Whom a WebSocket can be connected to. Across the connect paths of \<open>rust/src/ws_client.rs\<close>, the pool of
  \<open>rust/src/pool.rs\<close> and the ladder of \<open>rust/src/proxy.rs\<close>: unless certificate checks are switched off or a
  fronting domain is set, every WebSocket a client is bridged to, fresh or from the pool, belongs to a
  server with a certificate for a Telegram host of the client's data centre or for a configured
  Cloudflare name.
\<close>

section \<open>The pool\<close>

fun cf_hosts :: "config \<Rightarrow> cf_key \<Rightarrow> string set" where
  "cf_hosts c (Worker, dc, m) = set (c_cf_worker_domains c)"
| "cf_hosts c (Proxy, dc, m) =
     set (cf_ws_domains dc (c_cf_domains c) m) \<union> (if c_cf_balance c then set (c_cf_domains c) else {})"

text \<open>The configured Cloudflare names are host names: letters, digits, hyphens and dots.\<close>

definition plain_names :: "config \<Rightarrow> bool" where
  "plain_names c \<longleftrightarrow> (\<forall>d \<in> set (c_cf_domains c) \<union> set (c_cf_worker_domains c). plain_host d)"

lemma cf_hosts_plain: "plain_names c \<Longrightarrow> h \<in> cf_hosts c k \<Longrightarrow> plain_host h"
  by (cases "(c, k)" rule: cf_hosts.cases) (auto simp: plain_names_def intro: cf_ws_domains_plain split: if_splits)

text \<open>With \<open>--cf-balance\<close> a spare is opened to the bare zone instead of one of its records.\<close>

fun task_trusted :: "config \<Rightarrow> spawned_task \<Rightarrow> bool" where
  "task_trusted c (SpawnRefill dc m ip skip) \<longleftrightarrow> \<not> skip"
| "task_trusted c (SpawnCfRefill t) \<longleftrightarrow> \<not> ct_skip_tls_verify t \<and> ct_domain t \<in> cf_hosts c (cf_target_key t)"

definition entry_trusted ::
  "('w, 'st, 'ws, 'x) env_scheme \<Rightarrow> ('ws \<Rightarrow> chain) \<Rightarrow> config \<Rightarrow> cf_key \<Rightarrow> 'ws cf_entry \<Rightarrow> bool" where
  "entry_trusted E chain_of c k e \<longleftrightarrow>
     ce_domain e \<in> cf_hosts c k \<and> \<not> ce_skip_tls_verify e \<and> certified_for E chain_of (ce_domain e) (ce_ws e)"

definition pool_trusted ::
  "('w, 'st, 'ws, 'x) env_scheme \<Rightarrow> ('ws \<Rightarrow> chain) \<Rightarrow> config \<Rightarrow> ('w, 'ws, 'b) pool_state_scheme \<Rightarrow> bool" where
  "pool_trusted E chain_of c s \<longleftrightarrow>
     (\<forall>dc m. \<forall>e \<in> set (bucket_of (idle s) (dc, m)). from_hosts E chain_of (set (ws_domains dc m)) (pe_ws e)) \<and>
     (\<forall>k. \<forall>e \<in> set (bucket_of (cf_idle s) k). entry_trusted E chain_of c k e) \<and>
     (\<forall>t \<in> set (spawned s). task_trusted c t)"

lemma pool_trusted_off_net: "off_net (pool_trusted E chain_of c)"
  by (rule off_netI) (simp_all add: pool_trusted_def)

lemma pool_trusted_tables: "pool_trusted E chain_of c (pool_tables s)"
  by (simp add: pool_trusted_def pool_tables_def rt_state.extend_def pool_state.fields_def bucket_of_def)

lemma pop_fresh_subset:
  "pop_fresh E created ws now es w = (r, rest, w') \<Longrightarrow> set rest \<subseteq> set es \<and> (\<forall>e. r = Some e \<longrightarrow> e \<in> set es)"
  by (induction es arbitrary: w) (auto simp: Let_def split: if_splits)

lemma keeps_pool_get:
  "keeps (pool_trusted E' chain_of c) (\<lambda>r. \<forall>ws. r = Some ws \<longrightarrow> from_hosts E' chain_of (set (ws_domains dc m)) ws)
    (pool_get E dc m ip False allow)"
  unfolding keeps_def
proof (intro allI impI)
  fix s
  assume s: "pool_trusted E' chain_of c s"
  obtain r rest w where p: "pop_fresh E pe_created pe_ws (clock s) (rev (bucket_of (idle s) (dc, m))) (net s) = (r, rest, w)"
    by (metis prod.exhaust)
  show "pool_trusted E' chain_of c (snd (pool_get E dc m ip False allow s)) \<and>
    (\<forall>x. fst (pool_get E dc m ip False allow s) = Some x \<longrightarrow>
      (\<forall>ws. x = Some ws \<longrightarrow> from_hosts E' chain_of (set (ws_domains dc m)) ws))"
    using s pop_fresh_subset [OF p] by (auto simp: pool_get_def p pool_trusted_def)
qed

lemma trusted_prefetch: "pool_trusted E ch c s \<Longrightarrow> task_trusted c (SpawnCfRefill t) \<Longrightarrow> pool_trusted E ch c (cf_prefetch t s)"
  by (auto simp: pool_trusted_def cf_prefetch_def)

lemma keeps_cf_get:
  "keeps (pool_trusted E' chain_of c) (\<lambda>r. \<forall>ws d. r = Some (ws, d) \<longrightarrow> from_hosts E' chain_of (cf_hosts c (tier, dc, m)) ws)
    (cf_get E tier dc m)"
  unfolding keeps_def
proof (intro allI impI)
  fix s
  assume s: "pool_trusted E' chain_of c s"
  show "pool_trusted E' chain_of c (snd (cf_get E tier dc m s)) \<and>
    (\<forall>x. fst (cf_get E tier dc m s) = Some x \<longrightarrow>
      (\<forall>ws d. x = Some (ws, d) \<longrightarrow> from_hosts E' chain_of (cf_hosts c (tier, dc, m)) ws))"
  proof (cases "cf_idle s (tier, dc, m)")
    case None
    with s show ?thesis by (simp add: cf_get_def)
  next
    case (Some bucket)
    then have b: "\<forall>e \<in> set bucket. entry_trusted E' chain_of c (tier, dc, m) e"
      using s by (auto simp: pool_trusted_def bucket_of_def split: option.splits)
    obtain r rest w where p: "pop_fresh E ce_created ce_ws (clock s) (rev bucket) (net s) = (r, rest, w)"
      by (metis prod.exhaust)
    have s1: "pool_trusted E' chain_of c (s\<lparr>net := w, cf_idle := (cf_idle s)((tier, dc, m) \<mapsto> rev rest)\<rparr>)"
      using s b pop_fresh_subset [OF p] by (auto simp: pool_trusted_def)
    show ?thesis
      using s1 b pop_fresh_subset [OF p]
      by (auto simp: cf_get_def Some p Let_def from_hosts_def entry_trusted_def cf_target_key_def
          intro!: trusted_prefetch split: option.split)
  qed
qed

section \<open>Background tasks\<close>

text \<open>The task behind a recorded spawn, once it runs.\<close>

fun run_spawned ::
  "('w, 'st, 'ws, 'x) pool_env_scheme \<Rightarrow> spawned_task \<Rightarrow> (('w, 'ws, 'b) pool_state_scheme, unit) io" where
  "run_spawned E (SpawnRefill dc m ip skip) = refill E dc m ip skip"
| "run_spawned E (SpawnCfRefill t) = cf_refill E t"

lemma keeps_batch_loop:
  fixes E :: "('w, 'st, 'ws, 'x) pool_env_scheme" and I :: "('w, 'ws, 'b) pool_state_scheme \<Rightarrow> bool"
  assumes "rustls_verifies E chain_of" "off_net I"
    and "\<forall>ws \<in> set results. from_hosts E chain_of (set (ws_domains dc m)) ws"
  shows "keeps I (\<lambda>r. \<forall>ws \<in> set r. from_hosts E chain_of (set (ws_domains dc m)) ws)
    (batch_loop E ip dc m False None n results)"
  using assms(3)
proof (induction n arbitrary: results)
  case (Suc n)
  let ?P = "\<lambda>r. \<forall>ws \<in> set r. from_hosts E chain_of (set (ws_domains dc m)) ws"
  have "keeps I ?P (case wa_ws a of Some ws \<Rightarrow> batch_loop E ip dc m False None n (results @ [ws]) | None \<Rightarrow> io_return results)"
    if "\<forall>ws. wa_ws a = Some ws \<longrightarrow> from_hosts E chain_of (set (ws_domains dc m)) ws" for a
    using that Suc by (auto intro!: keeps_return split: option.split)
  then show ?case
    unfolding batch_loop.simps by (rule keeps_bind [OF keeps_connect_dc [OF assms(1,2)]])
qed (simp add: keeps_return)

lemma keeps_connect_batch:
  assumes "rustls_verifies E chain_of" "off_net I" "r_fronting_domain E = None"
  shows "keeps I (\<lambda>r. \<forall>ws \<in> set r. from_hosts E chain_of (set (ws_domains dc m)) ws)
    (connect_batch E ip dc m False n)"
  unfolding connect_batch_def
  by (rule keeps_bind [of _ "\<lambda>sni. sni = None"])
     (auto intro!: keeps_get keeps_batch_loop [OF assms(1,2)] simp: sticky_fronting_def assms(3))

lemma trusted_push:
  assumes "pool_trusted E ch c s" "\<forall>ws \<in> set conns. from_hosts E ch (set (ws_domains (fst k) (snd k))) ws"
  shows "pool_trusted E ch c (warmup_push k conns s)" "pool_trusted E ch c (refill_commit E' k conns s)"
  using assms by (auto simp: pool_trusted_def warmup_push_def refill_commit_def Let_def dest: in_set_takeD)

lemma trusted_cf_commit:
  "pool_trusted E ch c s \<Longrightarrow> task_trusted c (SpawnCfRefill t) \<Longrightarrow> certified_for E ch (ct_domain t) ws \<Longrightarrow>
   pool_trusted E ch c (cf_commit E' t ws s)"
  by (cases "cf_target_key t") (auto simp: pool_trusted_def cf_commit_def Let_def entry_trusted_def)

lemma trusted_guards:
  "pool_trusted E ch c (refill_release k s) = pool_trusted E ch c s"
  "pool_trusted E ch c (cf_release j s) = pool_trusted E ch c s"
  "pool_trusted E ch c (snd (refill_register k s)) = pool_trusted E ch c s"
  "pool_trusted E ch c (snd (cf_register j s)) = pool_trusted E ch c s"
  by (simp_all add: pool_trusted_def refill_release_def cf_release_def refill_register_def cf_register_def)

lemma keeps_registers:
  "keeps (pool_trusted E ch c) (\<lambda>_. True) (refill_register k)" "keeps (pool_trusted E ch c) (\<lambda>_. True) (cf_register j)"
  by (simp_all add: keeps_def trusted_guards)

lemma keeps_refill:
  assumes "rustls_verifies E chain_of" "r_fronting_domain E = None"
  shows "keeps (pool_trusted E chain_of c) (\<lambda>_. True) (refill E dc m ip False)"
  unfolding refill_def
  by (intro keeps_then [OF keeps_registers(1)] keeps_if keeps_return keeps_then [OF keeps_get] keeps_case_option
      keeps_bind [OF keeps_connect_batch [OF assms(1) pool_trusted_off_net assms(2)]] keeps_update)
     (auto simp: trusted_guards trusted_push)

lemma keeps_cf_connect_one:
  assumes "rustls_verifies E chain_of" "off_net I" "\<not> ct_skip_tls_verify t" "plain_host (ct_domain t)"
  shows "keeps I (\<lambda>r. \<forall>ws. r = Some ws \<longrightarrow> certified_for E chain_of (ct_domain t) ws) (cf_connect_one E t)"
  using assms(3) by (cases "ct_tier t")
    (simp_all add: cf_connect_one_def keeps_cf_worker [OF assms(1,2,4)] keeps_cf_record [OF assms(1,2,4)])

lemma keeps_cf_refill:
  assumes "rustls_verifies E chain_of" "task_trusted c (SpawnCfRefill t)" "plain_names c"
  shows "keeps (pool_trusted E chain_of c) (\<lambda>_. True) (cf_refill E t)"
proof -
  have skip: "\<not> ct_skip_tls_verify t" "plain_host (ct_domain t)" using assms(2) cf_hosts_plain [OF assms(3), of "ct_domain t" "cf_target_key t"] by auto
  show ?thesis
    unfolding cf_refill_def Let_def
    by (intro keeps_then [OF keeps_registers(2)] keeps_if keeps_return keeps_then [OF keeps_get]
        keeps_bind [OF keeps_cf_connect_one [OF assms(1) pool_trusted_off_net skip]] keeps_case_option keeps_update)
       (use assms(2) in \<open>auto simp: trusted_guards trusted_cf_commit\<close>)
qed

lemma keeps_spawned:
  assumes "rustls_verifies E chain_of" "r_fronting_domain E = None" "plain_names c" "task_trusted c t"
  shows "keeps (pool_trusted E chain_of c) (\<lambda>_. True) (run_spawned E t)"
proof (cases t)
  case (SpawnRefill dc m ip skip)
  with assms keeps_refill [OF assms(1,2)] show ?thesis by simp
next
  case (SpawnCfRefill x)
  with assms keeps_cf_refill [of E chain_of c x] show ?thesis by simp
qed

lemma keeps_warmup:
  fixes E :: "('w, 'st, 'ws, 'x) pool_env_scheme"
  assumes "rustls_verifies E chain_of" "r_fronting_domain E = None"
  shows "keeps (pool_trusted E chain_of c :: ('w, 'ws, 'b) pool_state_scheme \<Rightarrow> bool) (\<lambda>_. True) (warmup E False redirects)"
proof -
  have "keeps (pool_trusted E chain_of c :: ('w, 'ws, 'b) pool_state_scheme \<Rightarrow> bool) (\<lambda>_. True) (warmup_loop E False ks)" for ks
  proof (induction ks)
    case (Cons x ks)
    obtain k ip where x: "x = (k, ip)" by (rule prod.exhaust)
    show ?case
      unfolding x warmup_loop.simps
      by (intro keeps_bind [OF keeps_connect_batch [OF assms(1) pool_trusted_off_net assms(2)]]
          keeps_then [OF keeps_update] Cons.IH) (auto intro: trusted_push)
  qed (simp add: keeps_return)
  then show ?thesis by (simp add: warmup_def)
qed

section \<open>The ladder\<close>

fun framing_hosts :: "route \<Rightarrow> ws_framing \<Rightarrow> string set" where
  "framing_hosts R Tunnel = cf_hosts (rt_config R) (Worker, route_key R)"
| "framing_hosts R Packets =
     set (ws_domains (rt_dc R) (rt_is_media R)) \<union> cf_hosts (rt_config R) (Proxy, route_key R)"

definition upstream_trusted ::
  "('w, 'st, 'ws, 'x) env_scheme \<Rightarrow> ('ws \<Rightarrow> chain) \<Rightarrow> route \<Rightarrow> ('st, 'ws) upstream option \<Rightarrow> bool" where
  "upstream_trusted E chain_of R u \<longleftrightarrow>
     (\<forall>ws how. u = Some (UpstreamWs ws how) \<longrightarrow> from_hosts E chain_of (framing_hosts R how) ws)"

lemma trusted_cooldowns [simp]:
  "pool_trusted E ch c (s\<lparr>cf_worker_fail := a\<rparr>) = pool_trusted E ch c s"
  "pool_trusted E ch c (s\<lparr>upstream_fail := a\<rparr>) = pool_trusted E ch c s"
  "pool_trusted E ch c (s\<lparr>fronting_fail := b\<rparr>) = pool_trusted E ch c s"
  "pool_trusted E ch c (s\<lparr>ws_fail := b\<rparr>) = pool_trusted E ch c s"
  "pool_trusted E ch c (s\<lparr>ip_fail := a\<rparr>) = pool_trusted E ch c s"
  "pool_trusted E ch c (s\<lparr>cf_balance_counter := n\<rparr>) = pool_trusted E ch c s"
  "pool_trusted E ch c (s\<lparr>cf_worker_balance_counter := n\<rparr>) = pool_trusted E ch c s"
  "pool_trusted E ch c (activate_fronting R' s) = pool_trusted E ch c s"
  "pool_trusted E ch c (deactivate_fronting s) = pool_trusted E ch c s"
  by (simp_all add: pool_trusted_def activate_fronting_def deactivate_fronting_def)

lemma trusted_route_updates [simp]:
  "pool_trusted E ch c (worker_failed R d s) = pool_trusted E ch c s"
  "pool_trusted E ch c (on_fronting_success E' R s) = pool_trusted E ch c s"
  "pool_trusted E ch c (fronting_failed R s) = pool_trusted E ch c s"
  "pool_trusted E ch c (direct_failed R ip a p s) = pool_trusted E ch c s"
  "pool_trusted E ch c (direct_connected R ip s) = pool_trusted E ch c s"
  by (simp_all add: worker_failed_def on_fronting_success_def fronting_failed_def direct_failed_def
      direct_connected_def cool_down_ws_def cool_down_ip_def Let_def)

lemma cf_target_trusted:
  assumes "\<not> c_skip_tls_verify (rt_config R)" "domain \<in> cf_hosts (rt_config R) (tier, route_key R)"
    and "c_cf_balance (rt_config R) \<Longrightarrow> set rotation \<subseteq> cf_hosts (rt_config R) (tier, route_key R)"
  shows "task_trusted (rt_config R) (SpawnCfRefill (fst (cf_target R tier dst domain rotation n)))"
proof -
  have "set (fst (balanced rotation n)) = set rotation" by (simp add: balanced_rotate)
  then have "d \<in> set rotation" if "fst (balanced rotation n) = d # ds" for d ds
    using that by (metis list.set_intros(1))
  then have "ct_domain (fst (cf_target R tier dst domain rotation n)) \<in> cf_hosts (rt_config R) (tier, route_key R)"
    using assms(2,3) by (cases "fst (balanced rotation n)") (auto simp: cf_target_def Let_def)
  then show ?thesis
    using assms(1) by (simp add: cf_target_def Let_def cf_target_key_def route_key_def)
qed

lemma trusted_connected:
  assumes "\<not> c_skip_tls_verify (rt_config R)" "pool_trusted E ch (rt_config R) s"
  shows "domain \<in> cf_hosts (rt_config R) (Worker, route_key R) \<Longrightarrow>
      pool_trusted E ch (rt_config R) (worker_connected R dst domain s)"
    and "domain \<in> cf_hosts (rt_config R) (Proxy, route_key R) \<Longrightarrow>
      pool_trusted E ch (rt_config R) (proxy_connected R domain s)"
  using assms
  by (auto simp: worker_connected_def proxy_connected_def Let_def route_key_def
      intro!: trusted_prefetch cf_target_trusted)

lemma keeps_worker_loop:
  fixes E :: "('w, 'st, 'ws, 'x) proxy_env_scheme"
  assumes "rustls_verifies E chain_of" "\<not> c_skip_tls_verify (rt_config R)" "set ds \<subseteq> set (c_cf_worker_domains (rt_config R))"
    and "plain_names (rt_config R)"
  shows "keeps (pool_trusted E chain_of (rt_config R) :: ('w, 'ws, 'b) proxy_state_scheme \<Rightarrow> bool)
    (\<lambda>r. \<forall>ws. r = Some ws \<longrightarrow> from_hosts E chain_of (framing_hosts R Tunnel) ws) (worker_loop E R dst ds)"
  using assms(3)
proof (induction ds)
  case (Cons d ds)
  then have d: "d \<in> cf_hosts (rt_config R) (Worker, route_key R)" by (simp add: route_key_def)
  have skip: "c_skip_tls_verify (rt_config R) = False" using assms(2) by simp
  note name = cf_hosts_plain [OF assms(4) d]
  show ?case
    unfolding worker_loop.simps skip
    by (intro keeps_then [OF keeps_get] keeps_if keeps_bind [OF keeps_cf_worker [OF assms(1) pool_trusted_off_net name]]
        keeps_case_option keeps_then [OF keeps_update] keeps_return Cons.IH)
       (use Cons.prems d trusted_connected(1) [OF assms(2)] in \<open>auto simp: from_hosts_def route_key_def\<close>)
qed (simp add: keeps_return)

lemma keeps_rotations:
  "keeps (pool_trusted E ch c) (\<lambda>ds. set ds = set (c_cf_worker_domains (rt_config R))) (rotate_workers R)"
  "keeps (pool_trusted E ch c) (\<lambda>ds. set ds = set (c_cf_domains (rt_config R))) (rotate_domains R)"
  by (auto simp: keeps_def rotate_workers_def rotate_domains_def Let_def)

text \<open>The premises of the remaining lemmas: checks are on, nothing is fronted, the configured Cloudflare names are host
  names, and no zone name contains \<open>-1.\<close> (such a zone would be rewritten into another one).\<close>

definition checks_on :: "('w, 'st, 'ws, 'x) proxy_env_scheme \<Rightarrow> route \<Rightarrow> bool" where
  "checks_on E R \<longleftrightarrow> \<not> c_skip_tls_verify (rt_config R) \<and> r_fronting_domain E = None \<and> plain_names (rt_config R) \<and> plain_domains R"

lemma checks_onD:
  assumes "checks_on E R"
  shows "\<not> c_skip_tls_verify (rt_config R)" "c_skip_tls_verify (rt_config R) = False" "r_fronting_domain E = None"
    "plain_domains R" "plain_names (rt_config R)"
  using assms by (simp_all add: checks_on_def)

lemma keeps_tier_worker:
  assumes "rustls_verifies E chain_of" "checks_on E R"
  shows "keeps (pool_trusted E chain_of (rt_config R))
    (\<lambda>r. \<forall>ws. r = Some ws \<longrightarrow> from_hosts E chain_of (framing_hosts R Tunnel) ws) (cf_worker E R dst)"
  unfolding cf_worker_def Let_def
  by (intro keeps_if keeps_return keeps_bind [OF keeps_cf_get] keeps_case_option
      keeps_bind [OF keeps_rotations(1)] keeps_worker_loop [OF assms(1) checks_onD(1) [OF assms(2)] _ checks_onD(5) [OF assms(2)]])
     (auto intro!: keeps_return simp: route_key_def)

lemma keeps_tier_proxy:
  assumes "rustls_verifies E chain_of" "checks_on E R"
  shows "keeps (pool_trusted E chain_of (rt_config R))
    (\<lambda>r. \<forall>ws. r = Some ws \<longrightarrow> from_hosts E chain_of (framing_hosts R Packets) ws) (cf_proxy E R)"
proof -
  let ?I = "pool_trusted E chain_of (rt_config R)"
    and ?P = "\<lambda>r. \<forall>ws. r = Some ws \<longrightarrow> from_hosts E chain_of (framing_hosts R Packets) ws"
  have fin: "keeps ?I ?P
      (case (fst r, fst (snd r)) of
         (Some ws, Some domain) \<Rightarrow> io_bind (io_update (proxy_connected R domain)) (\<lambda>_. io_return (Some ws))
       | (ws, _) \<Rightarrow> io_return ws)"
    if r: "from_record E chain_of (set (cf_ws_domains (rt_dc R) ds (rt_is_media R))) r"
      and ds: "set ds = set (c_cf_domains (rt_config R))" for r ds
  proof (cases "fst r")
    case (Some ws)
    then obtain d where d: "fst (snd r) = Some d" "certified_for E chain_of d ws"
        "d \<in> cf_hosts (rt_config R) (Proxy, route_key R)"
      using r ds by (auto simp: from_record_def cf_ws_domains_set route_key_def)
    then have "from_hosts E chain_of (framing_hosts R Packets) ws" by (auto simp: from_hosts_def)
    with Some d trusted_connected(2) [OF checks_onD(1) [OF assms(2)]] show ?thesis
      by (auto intro!: keeps_then [OF keeps_update] keeps_return)
  qed (simp add: keeps_return)
  show ?thesis
    unfolding cf_proxy_def checks_onD(2) [OF assms(2)]
    apply (rule keeps_if, simp add: keeps_return)
    apply (rule keeps_bind [OF keeps_rotations(2)])
    apply (rule keeps_bind [OF keeps_cf_get])
    apply (rule keeps_case_option)
     apply (rule keeps_bind [OF keeps_cf_connect [OF assms(1) pool_trusted_off_net]])
      apply (use checks_onD(4) [OF assms(2)] in \<open>simp add: plain_domains_def\<close>)
      apply (use checks_onD(5) [OF assms(2)] in \<open>simp add: plain_names_def\<close>)
     apply (rule fin, assumption, assumption)
    apply (auto intro!: keeps_return simp: route_key_def intro: from_hosts_mono)
    done
qed

lemma keeps_cf_tiers:
  assumes "rustls_verifies E chain_of" "checks_on E R"
  shows "keeps (pool_trusted E chain_of (rt_config R)) (upstream_trusted E chain_of R) (cf_tiers E R dst)"
  unfolding cf_tiers_def
  by (intro keeps_bind [OF keeps_tier_worker [OF assms]] keeps_case_option keeps_bind [OF keeps_tier_proxy [OF assms]]
      keeps_return) (auto simp: upstream_trusted_def)

lemma keeps_io_run: "keeps I (\<lambda>_. True) (io_run r)"
  by (cases r) (simp_all add: keeps_def io_run_def)

lemma keeps_write_records: "off_net I \<Longrightarrow> keeps I (\<lambda>_. True) (write_records E st cs)"
  by (induction cs) (auto intro!: keeps_return keeps_io_result keeps_perform_any)

lemma keeps_mtproto:
  assumes "off_net I"
  shows "keeps I (\<lambda>_. True) (connect_mtproto_upstream E host port secret dc_idx proto limit)"
  unfolding connect_mtproto_upstream_def Let_def
  by (intro keeps_case_option keeps_case_sum keeps_return keeps_then [OF keeps_outbound_connect [OF assms]]
      keeps_then [OF keeps_perform_any [OF assms]] keeps_then [OF keeps_io_run] keeps_then [OF keeps_get]
      keeps_if keeps_then [OF keeps_write_records [OF assms]] TrueI)

lemma keeps_upstream_loop:
  fixes E :: "('w, 'st, 'ws, 'x) proxy_env_scheme"
  shows "keeps (pool_trusted E chain_of c :: ('w, 'ws, 'b) proxy_state_scheme \<Rightarrow> bool) (\<lambda>_. True) (upstream_loop E R us)"
proof (induction us)
  case (Cons u us)
  show ?case
    unfolding upstream_loop.simps Let_def
    by (intro keeps_then [OF keeps_get] keeps_if keeps_then [OF keeps_mtproto [OF pool_trusted_off_net]] keeps_case_option
        keeps_then [OF keeps_update] keeps_return Cons.IH) simp_all
qed (simp add: keeps_return)

lemma keeps_fallback_chain:
  assumes "rustls_verifies E chain_of" "checks_on E R"
  shows "keeps (pool_trusted E chain_of (rt_config R)) (upstream_trusted E chain_of R) (fallback_chain E R dst skip)"
  unfolding fallback_chain_def upstream_proxies_def
  by (rule keeps_bind [of _ "upstream_trusted E chain_of R"])
     (auto intro!: keeps_if keeps_cf_tiers [OF assms] keeps_return keeps_case_option
       keeps_then [OF keeps_upstream_loop] simp: upstream_trusted_def)

lemma websocket_dc_idem: "websocket_dc (websocket_dc dc) = websocket_dc dc"
  by (simp add: websocket_dc_def DC_OVERRIDES_def)

lemma keeps_route_connect:
  assumes "rustls_verifies E chain_of" "checks_on E R"
  shows "keeps (pool_trusted E chain_of (rt_config R))
    (\<lambda>a. \<forall>ws. wa_ws a = Some ws \<longrightarrow> from_hosts E chain_of (framing_hosts R Packets) ws) (route_connect_ws E R ip None)"
proof -
  have h: "set (ws_domains (websocket_dc (rt_dc R)) (rt_is_media R)) \<subseteq> framing_hosts R Packets"
    by (simp add: ws_domains_def websocket_dc_idem)
  show ?thesis
    unfolding route_connect_ws_def checks_onD(2) [OF assms(2)]
    by (intro keeps_then [OF keeps_get] keeps_mono [OF keeps_connect_dc [OF assms(1) pool_trusted_off_net]])
       (blast intro: from_hosts_mono [OF _ h])+
qed

lemma keeps_direct:
  assumes "rustls_verifies E chain_of" "checks_on E R"
  shows "keeps (pool_trusted E chain_of (rt_config R))
    (\<lambda>r. \<forall>ws. r = Some ws \<longrightarrow> from_hosts E chain_of (framing_hosts R Packets) ws) (direct_ws E R ip)"
proof -
  let ?I = "pool_trusted E chain_of (rt_config R)"
  note off = checks_onD(3) [OF assms(2)]
  have r: "keeps ?I (\<lambda>r. r = None) (reactive_fronting E R ip b)" for b
    unfolding reactive_fronting_def off option.case by (intro keeps_then [OF keeps_get] keeps_if keeps_return) simp_all
  show ?thesis
    unfolding direct_ws_def Let_def
    apply (rule keeps_bind [OF keeps_get [where P = "\<lambda>x. x = None"]])
     apply (simp add: sticky_fronting_def off)
    apply (simp only: option.case)
    apply (intro keeps_then [OF keeps_get] keeps_bind [OF keeps_route_connect [OF assms]] keeps_case_option
        keeps_then [OF keeps_update] keeps_return keeps_bind [OF r])
           apply simp_all
    done
qed

lemma keeps_pool_then_direct:
  assumes "rustls_verifies E chain_of" "checks_on E R"
  shows "keeps (pool_trusted E chain_of (rt_config R))
    (\<lambda>r. \<forall>ws. r = Some ws \<longrightarrow> from_hosts E chain_of (framing_hosts R Packets) ws) (pool_then_direct E R ip)"
  unfolding pool_then_direct_def checks_onD(2) [OF assms(2)]
  by (intro keeps_then [OF keeps_get] keeps_bind [OF keeps_pool_get] keeps_case_option keeps_return keeps_direct [OF assms])
     (auto intro: from_hosts_mono)

lemma keeps_select:
  assumes "rustls_verifies E chain_of" "checks_on E R"
  shows "keeps (pool_trusted E chain_of (rt_config R)) (upstream_trusted E chain_of R) (select_upstream E R target)"
proof -
  let ?P = "upstream_trusted E chain_of R"
  have none: "?P None" "?P (Some (tcp_last_resort R ip))" "?P (Some (UpstreamTcp ip))" for ip
    by (simp_all add: upstream_trusted_def tcp_last_resort_def)
  have or_else: "?P u \<Longrightarrow> ?P (Some (or_else (tcp_last_resort R ip) u))" "?P u \<Longrightarrow> ?P (Some (or_else (tcp_fallback ip) u))"
    for u ip using none by (auto simp: or_else_def split: option.split)
  have early: "keeps (pool_trusted E chain_of (rt_config R)) ?P (if b then cf_tiers E R ip else io_return None)"
    "keeps (pool_trusted E chain_of (rt_config R)) ?P (if b then fallback_chain E R ip skip else io_return None)" for b ip skip
    using none by (auto intro: keeps_return keeps_cf_tiers [OF assms] keeps_fallback_chain [OF assms])
  show ?thesis
    unfolding select_upstream_def Let_def
    by (intro keeps_case_option keeps_return none or_else keeps_bind [OF keeps_fallback_chain [OF assms]]
        keeps_bind [OF early(1)] keeps_bind [OF early(2)] keeps_then [OF keeps_get] keeps_if
        keeps_bind [OF keeps_pool_then_direct [OF assms]])
       (simp_all add: upstream_trusted_def)
qed

section \<open>Property\<close>

text \<open>(C5) Certificates are checked. With certificate verification left on, no fronting domain, configured Cloudflare
  names that are host names and zones without a \<open>-1.\<close> label, a WebSocket that routing returns, opened for this client or
  taken from the pool, belongs to a server whose chain the WebPKI roots accept for exactly one of the right names: a
  configured Worker for a tunnel, and for a packet stream a Telegram host of the data centre or a
  configured Cloudflare name. Routing, every background refill it schedules and the
  warm-up keep the pool in that condition.\<close>

theorem websockets_certified:
  assumes "rustls_verifies E chain_of" and "checks_on E R" and "pool_trusted E chain_of (rt_config R) s"
  shows "(case select_upstream E R target s of (r, t) \<Rightarrow>
       pool_trusted E chain_of (rt_config R) t
       \<and> (case r of Some (Some (UpstreamWs ws how)) \<Rightarrow> from_hosts E chain_of (framing_hosts R how) ws | _ \<Rightarrow> True)
       \<and> list_all (\<lambda>task. pool_trusted E chain_of (rt_config R) (snd (run_spawned E task t))) (spawned t))
    \<and> pool_trusted E chain_of (rt_config R) (snd (warmup E False redirects s))"
proof -
  obtain r t where run: "select_upstream E R target s = (r, t)" by (rule prod.exhaust)
  have t: "pool_trusted E chain_of (rt_config R) t" "\<forall>u. r = Some u \<longrightarrow> upstream_trusted E chain_of R u"
    using keepsD [OF keeps_select [OF assms(1,2)] assms(3) run] by auto
  have "pool_trusted E chain_of (rt_config R) (snd (run_spawned E task t))" if "task \<in> set (spawned t)" for task
  proof -
    have "task_trusted (rt_config R) task" using t(1) that by (simp add: pool_trusted_def)
    then show ?thesis by (rule keeps_state [OF keeps_spawned [OF assms(1) checks_onD(3,5) [OF assms(2)]] t(1)])
  qed
  moreover have "pool_trusted E chain_of (rt_config R) (snd (warmup E False redirects s))"
    by (rule keeps_state [OF keeps_warmup [OF assms(1) checks_onD(3) [OF assms(2)]] assms(3)])
  ultimately show ?thesis
    using t by (auto simp: run list_all_iff upstream_trusted_def split: option.split upstream.split)
qed

text \<open>A network in which every address answers with a certificate of its own; a stream is known by it.\<close>

definition answering :: "(string \<Rightarrow> certificate) \<Rightarrow> (string list, string, certificate) env" where
  "answering cert =
     \<lparr>tcp_connect_op = (\<lambda>addr w. (Some (Inr addr, 0), w @ [addr])),
      http_connect_op = (\<lambda>st h p c w. (None, w)),
      socks5_connect_op = (\<lambda>a t c w. (None, w)),
      lookup_host_op = (\<lambda>h p w. (None, w)),
      request_error = (\<lambda>u. None),
      server_name_ok = (\<lambda>n. True),
      e_tls = example_tls,
      tls_connect_op = (\<lambda>cfg n st w. (Some (Inr st, 0), w)),
      ws_client_op = (\<lambda>r st w. (Some (Inr (cert st, 101), 0), w)),
      ws_client_tls_op = (\<lambda>cfg r st w.
        (Some (if accepts_chain (cc_verifier cfg) (url_host (rq_url r)) (cert st, [], [], 0)
               then Inr (cert st, 101) else Inl (WsOther ''invalid peer certificate''), 0), w)),
      e_crates = no_crates,
      e_outbound = outbound_direct\<rparr>"

definition answering_proxy :: "(string \<Rightarrow> certificate) \<Rightarrow> (string list, string, certificate) proxy_env" where
  "answering_proxy cert =
     pool_env.extend (with_runtime 2 55 (\<lambda>_ w. (False, w)) (runtime_new (answering cert)))
       (proxy_env.fields example_prims lower_hex (\<lambda>w. (Some (replicate 200 1, 0), w))
         (\<lambda>c. of_nat (c div 1000)) (\<lambda>st d w. (Some (Inr (), 0), w)) (\<lambda>st w. (None, w)))"

definition fresh_state :: "(string list, certificate) proxy_state" where
  "fresh_state = pool_state.extend (pool_tables \<lparr>clock = 0, net = [], fronting_until = None\<rparr>)
     (proxy_state.fields cooldown_new cooldown_new cooldown_new cooldown_new cooldown_new 0 0)"

definition telegram_cert :: "string \<Rightarrow> certificate" where
  "telegram_cert addr = (if addr = ''1.2.3.4:443'' then as_bytes ''kws2-1.web.telegram.org'' else [])"

lemma answering_simps [simp]:
  "ws_client_tls_op (answering_proxy cert) cfg r st = ws_client_tls_op (answering cert) cfg r st"
  "e_tls (answering_proxy cert) = example_tls"
  "r_fronting_domain (answering_proxy cert) = None"
  by (simp_all add: answering_proxy_def answering_def with_runtime_def runtime_new_def env.extend_def rt_env.extend_def
      pool_env.extend_def pool_env.fields_def proxy_env.fields_def)

lemma url_host_plain:
  assumes "plain_host host"
  shows "url_host (''wss://'' @ host @ ''/'' @ path) = host"
proof -
  have "\<not> host_char (CHR ''/'')" by code_simp
  then have "CHR ''/'' \<notin> set host" using assms by (auto simp: plain_host_def list_all_iff)
  then show ?thesis by (simp add: url_host_def before_slash_def split_once_append)
qed

lemma answering_verifies: "rustls_verifies (answering_proxy cert) (\<lambda>c. (c, [], [], 0))"
  using url_host_plain by (auto simp: rustls_verifies_def answering_def split: if_splits)

lemma answering_connect:
  "connect_ws_with_outbound (answering_proxy cert) ip d False limit None s =
     (Some (if cert (authority ip 443) = as_bytes (url_host (''wss://'' @ d @ ''/apiws''))
        then Connected (cert (authority ip 443)) else Failed ''invalid peer certificate''),
      s\<lparr>net := net s @ [authority ip 443]\<rparr>)"
proof -
  have ops: "e_outbound (answering_proxy cert) = outbound_direct" "request_error (answering_proxy cert) u = None"
      "tcp_connect_op (answering_proxy cert) a w = (Some (Inr a, 0), w @ [a])" for u a w
    by (simp_all add: answering_proxy_def answering_def with_runtime_def runtime_new_def env.extend_def rt_env.extend_def
        pool_env.extend_def pool_env.fields_def proxy_env.fields_def)
  have name: "webpki_accepts example_tls n (c, [], [], 0) \<longleftrightarrow> c = as_bytes n" for n c
    by (simp add: webpki_accepts_def accepts_chain_def example_tls_def)
  have up: "ws_client_tls_op (answering cert) (build_tls_connector example_tls False) rq a w =
      (Some (if cert a = as_bytes (url_host (rq_url rq)) then Inr (cert a, 101)
             else Inl (WsOther ''invalid peer certificate''), 0), w)" for rq a w
    by (simp add: answering_def name)
  show ?thesis
    by (simp add: connect_ws_with_outbound_def connect_ws_with_path_def outbound_connect_def outbound_direct_def ops
        connect_direct_def timeout_def connect_tcp_def io_result_def perform_def io_bind_def io_return_def
        classify_connect_def tls_handshake_and_upgrade_def up classify_upgrade_def)
qed

definition media_route :: route where
  "media_route = example_route\<lparr>rt_is_media := True\<rparr>"

lemma media_route_simps:
  "c_cf_priority (rt_config media_route) = False" "c_skip_tls_verify (rt_config media_route) = False"
  "rt_dc media_route = 2" "rt_is_media media_route" "c_cf_domains (rt_config media_route) = [''a.org'']"
  "c_cf_worker_domains (rt_config media_route) = [''w.dev'']"
  by (simp_all add: media_route_def example_route_def example_config_def Let_def)

lemma answering_direct:
  "\<exists>t. select_upstream (answering_proxy telegram_cert) media_route (Some ''1.2.3.4'') fresh_state
     = (Some (Some (UpstreamWs (as_bytes ''kws2-1.web.telegram.org'') Packets)), t)"
proof -
  have d: "ws_domains (websocket_dc 2) True = [''kws2-1.web.telegram.org'', ''kws2.web.telegram.org'']"
      "url_host (''wss://'' @ ''kws2-1.web.telegram.org'' @ ''/apiws'') = ''kws2-1.web.telegram.org''"
      "authority ''1.2.3.4'' 443 = ''1.2.3.4:443''" by code_simp+
  have "\<exists>t. pool_then_direct (answering_proxy telegram_cert) media_route ''1.2.3.4'' fresh_state
      = (Some (Some (as_bytes ''kws2-1.web.telegram.org'')), t)"
    using d by (simp add: pool_then_direct_def io_bind_def io_return_def media_route_simps pool_get_def fresh_state_def
        pool_state.extend_def pool_tables_def rt_state.extend_def pool_state.fields_def proxy_state.fields_def bucket_of_def
        direct_ws_def sticky_fronting_def route_connect_ws_def connect_ws_for_dc_with_outbound_def
        answering_connect telegram_cert_def attempt_connected_def)
  then obtain t where t: "pool_then_direct (answering_proxy telegram_cert) media_route ''1.2.3.4'' fresh_state
      = (Some (Some (as_bytes ''kws2-1.web.telegram.org'')), t)" by blast
  have c: "\<not> cooldown_active (clock fresh_state) ''1.2.3.4'' (ip_fail fresh_state)"
    by (simp add: fresh_state_def pool_state.extend_def proxy_state.fields_def cooldown_active_def cooldown_new_def)
  show ?thesis
    using c by (simp add: select_upstream_def media_route_simps Let_def io_bind_def io_return_def t)
qed

theorem websockets_certified_witness:
  "\<exists>t. select_upstream (answering_proxy telegram_cert) media_route (Some ''1.2.3.4'') fresh_state
      = (Some (Some (UpstreamWs (as_bytes ''kws2-1.web.telegram.org'') Packets)), t)
    \<and> from_hosts (answering_proxy telegram_cert) (\<lambda>c. (c, [], [], 0)) (framing_hosts media_route Packets)
        (as_bytes ''kws2-1.web.telegram.org'')"
proof -
  have "\<not> contains_str ''-1.'' ''a.org''" "plain_host ''a.org''" "plain_host ''w.dev''" by code_simp+
  then have on: "checks_on (answering_proxy telegram_cert) media_route"
    by (simp add: checks_on_def media_route_simps plain_domains_def plain_names_def)
  have pool: "pool_trusted (answering_proxy telegram_cert) (\<lambda>c. (c, [], [], 0)) (rt_config media_route) fresh_state"
    by (simp add: pool_trusted_def fresh_state_def pool_state.extend_def pool_tables_def rt_state.extend_def
        pool_state.fields_def proxy_state.fields_def bucket_of_def)
  show ?thesis
    using answering_direct websockets_certified [OF answering_verifies on pool, of "Some ''1.2.3.4''" "[]"] by auto
qed

end
