(* ===== verification/Session_Log.thy ===== *)
theory Session_Log
  imports Bridge Ws_Client
begin

text \<open>
  The line a bridge logs when it closes (\<open>rust/src/proxy.rs\<close>): who ended the session, the byte counts in readable
  units, and the session's kind. The counts go through \<open>f64\<close>; dividing by 1024 is exact there, so a
  value is a natural number over a power of 1024. The elapsed time is the caller's text.
\<close>

section \<open>Readable byte counts\<close>

text \<open>The natural number nearest to \<open>a / b\<close>, ties to even: the rounding of \<open>f64\<close> and of \<open>{:.1}\<close>.\<close>

definition round_half_even :: "nat \<Rightarrow> nat \<Rightarrow> nat" where
  "round_half_even a b =
     (let q = a div b; r = a mod b in if 2 * r < b \<or> (2 * r = b \<and> even q) then q else q + 1)"

fun bit_count :: "nat \<Rightarrow> nat" where
  "bit_count n = (if n = 0 then 0 else Suc (bit_count (n div 2)))"

declare bit_count.simps [simp del]

text \<open>\<open>n as f64\<close>: 53 significant bits are kept.\<close>

definition as_f64 :: "nat \<Rightarrow> nat" where
  "as_f64 n = (let unit = 2 ^ (bit_count n - 53) in round_half_even n unit * unit)"

definition one_decimal :: "nat \<Rightarrow> nat \<Rightarrow> string" where
  "one_decimal a b = (let t = round_half_even (10 * a) b in decimal (t div 10) @ ''.'' @ decimal (t mod 10))"

fun human_loop :: "nat \<Rightarrow> nat \<Rightarrow> string list \<Rightarrow> string" where
  "human_loop v scale [] = one_decimal v scale @ ''PB''"
| "human_loop v scale (u # us) = (if v < 1024 * scale then one_decimal v scale @ u else human_loop v (scale * 1024) us)"

definition human_bytes :: "u64 \<Rightarrow> string" where
  "human_bytes n = human_loop (as_f64 (unat n)) 1 [''B'', ''KB'', ''MB'', ''GB'', ''TB'']"

section \<open>The log line\<close>

fun closed_by_str :: "closed_by \<Rightarrow> string" where
  "closed_by_str Client = ''client''"
| "closed_by_str Upstream = ''upstream''"

definition up_arrow :: string where "up_arrow = [CHR 0xE2, CHR 0x86, CHR 0x91]"
definition down_arrow :: string where "down_arrow = [CHR 0xE2, CHR 0x86, CHR 0x93]"

definition log_session_closed ::
  "string \<Rightarrow> u32 \<Rightarrow> bool \<Rightarrow> string \<Rightarrow> closed_by \<Rightarrow> u64 \<Rightarrow> u64 \<Rightarrow> string \<Rightarrow> string" where
  "log_session_closed label dc is_media kind closed_by bytes_up bytes_down elapsed =
     ''['' @ label @ ''] DC'' @ decimal (unat dc) @ media_tag is_media @ '' '' @ kind @ '' session closed by ''
     @ closed_by_str closed_by @ '': '' @ up_arrow @ human_bytes bytes_up @ ''  '' @ down_arrow @ human_bytes bytes_down
     @ ''  '' @ elapsed @ ''s''"

fun session_kind :: "link \<Rightarrow> string" where
  "session_kind (WsLink s) = ''WS''"
| "session_kind (RelayLink faketls) = (if faketls then ''upstream FakeTLS'' else ''upstream'')"
| "session_kind TcpLink = ''TCP''"

text \<open>The end of each bridge: once \<open>join_bridge\<close> has returned, the totals are logged.\<close>

definition close_line :: "string \<Rightarrow> u32 \<Rightarrow> bool \<Rightarrow> string \<Rightarrow> bridge \<Rightarrow> string option" where
  "close_line label dc is_media elapsed b =
     map_option (\<lambda>cb. log_session_closed label dc is_media (session_kind (up_link (br_up b))) cb
       (fst (totals b)) (snd (totals b)) elapsed) (br_closed_by b)"

section \<open>Accuracy\<close>

lemma round_half_even_near:
  assumes "0 < b"
  shows "2 * (round_half_even a b * b) \<le> 2 * a + b" "2 * a \<le> 2 * (round_half_even a b * b) + b"
proof -
  define x where "x = a div b * b"
  have m: "x + a mod b = a" "a mod b < b" "(a div b + 1) * b = x + b" using assms by (simp_all add: x_def)
  have r: "round_half_even a b * b = (if 2 * (a mod b) < b \<or> (2 * (a mod b) = b \<and> even (a div b)) then x else x + b)"
    using m(3) by (simp add: round_half_even_def Let_def x_def)
  show "2 * (round_half_even a b * b) \<le> 2 * a + b" "2 * a \<le> 2 * (round_half_even a b * b) + b"
    unfolding r using m(1,2) by auto
qed

lemma bit_count_le: "n < 2 ^ k \<Longrightarrow> bit_count n \<le> k"
proof (induction k arbitrary: n)
  case 0
  then show ?case by (simp add: bit_count.simps)
next
  case (Suc k)
  then have "n div 2 < 2 ^ k" by simp
  from Suc.IH [OF this] show ?case by (simp add: bit_count.simps [of n])
qed

lemma as_f64_exact: "n < 2 ^ 53 \<Longrightarrow> as_f64 n = n"
  using bit_count_le [of n 53] by (simp add: as_f64_def round_half_even_def)

definition UNITS :: "string list" where
  "UNITS = [''B'', ''KB'', ''MB'', ''GB'', ''TB'', ''PB'']"

lemma human_loop_unit:
  "us \<noteq> [] \<Longrightarrow> last us = ''PB'' \<Longrightarrow> 0 < scale \<Longrightarrow>
   \<exists>k < length us. human_loop v scale (butlast us) = one_decimal v (scale * 1024 ^ k) @ us ! k
     \<and> (Suc k < length us \<longrightarrow> v < scale * 1024 ^ Suc k) \<and> (0 < k \<longrightarrow> scale * 1024 ^ k \<le> v)"
proof (induction us arbitrary: scale)
  case (Cons u us)
  show ?case
  proof (cases "us = []")
    case True
    with Cons.prems show ?thesis by auto
  next
    case False
    show ?thesis
    proof (cases "v < 1024 * scale")
      case True
      with False show ?thesis by (intro exI [of _ 0]) (simp add: mult.commute)
    next
      case big: False
      obtain k where "k < length us" "human_loop v (scale * 1024) (butlast us) = one_decimal v (scale * 1024 * 1024 ^ k) @ us ! k"
          "Suc k < length us \<longrightarrow> v < scale * 1024 * 1024 ^ Suc k" "0 < k \<longrightarrow> scale * 1024 * 1024 ^ k \<le> v"
        using Cons.IH [of "scale * 1024"] Cons.prems False by auto
      with False big show ?thesis
        by (intro exI [of _ "Suc k"]) (cases k; simp add: mult.assoc mult.commute)
    qed
  qed
qed simp

text \<open>A count below \<open>2 ^ 53\<close> is printed in the largest unit it reaches, to within half of the last digit shown.\<close>

lemma human_bytes_accurate:
  assumes "unat n < 2 ^ 53"
  shows "\<exists>k t. k < length UNITS \<and> human_bytes n = decimal (t div 10) @ ''.'' @ decimal (t mod 10) @ UNITS ! k
    \<and> 2 * (t * 1024 ^ k) \<le> 2 * (10 * unat n) + 1024 ^ k \<and> 2 * (10 * unat n) \<le> 2 * (t * 1024 ^ k) + 1024 ^ k
    \<and> (0 < k \<longrightarrow> 1024 ^ k \<le> unat n) \<and> (Suc k < length UNITS \<longrightarrow> unat n < 1024 ^ Suc k)"
proof -
  have h: "human_bytes n = human_loop (unat n) 1 (butlast UNITS)"
    by (simp add: human_bytes_def as_f64_exact [OF assms] UNITS_def)
  obtain k where k: "k < length UNITS" "human_loop (unat n) 1 (butlast UNITS) = one_decimal (unat n) (1024 ^ k) @ UNITS ! k"
      "Suc k < length UNITS \<longrightarrow> unat n < 1024 ^ Suc k" "0 < k \<longrightarrow> 1024 ^ k \<le> unat n"
    using human_loop_unit [of UNITS 1 "unat n"] by (auto simp: UNITS_def)
  show ?thesis
    using k round_half_even_near [of "1024 ^ k" "10 * unat n"]
    by (intro exI [of _ k] exI [of _ "round_half_even (10 * unat n) (1024 ^ k)"]) (simp add: h one_decimal_def Let_def)
qed

text \<open>Rounding happens after the unit is chosen: just below a megabyte the line shows \<open>1024.0KB\<close>.\<close>

lemma human_bytes_rounds_late: "human_bytes 1048575 = ''1024.0KB''"
proof -
  have "one_decimal 1048575 1024 = ''1024.0''"
    by (simp add: one_decimal_def round_half_even_def Let_def) code_simp
  then show ?thesis
    by (simp add: human_bytes_def as_f64_exact)
qed

end
