(* ===== verification/Http.thy ===== *)
theory Http
  imports Outbound Tls "HOL-Library.Sublist"
begin

text \<open>
  The HTTPS client that fetches the domain list (\<open>rust/src/default_domains/http.rs\<close>): reading a response
  head, then a body delimited by chunks, by \<open>Content-Length\<close> or by the end of the stream, all within fixed
  size limits. The httparse crate is a parameter, and so are the TLS operations.
\<close>

section \<open>Reading\<close>

definition FETCH_TIMEOUT :: nat where "FETCH_TIMEOUT = from_secs 10"
definition MAX_HEADER_BYTES :: nat where "MAX_HEADER_BYTES = 64 * 1024"
definition MAX_BODY_BYTES :: nat where "MAX_BODY_BYTES = 256 * 1024"

text \<open>\<open>usize\<close> of a 64-bit target; larger numbers do not parse.\<close>

definition usize_bound :: nat where "usize_bound = 2 ^ 64"

definition CRLF :: bytes where "CRLF = [0x0d, 0x0a]"

text \<open>A stream as it arrives: segments of data, possibly a read error, then the end.\<close>

datatype arrival = Data bytes | ReadError string

type_synonym reader = "arrival list"

fun sock_read :: "nat \<Rightarrow> reader \<Rightarrow> (string + bytes) \<times> reader" where
  "sock_read n [] = (Inr [], [])"
| "sock_read n (ReadError e # rs) = (Inl e, rs)"
| "sock_read n (Data xs # rs) =
     (if xs = [] then sock_read n rs
      else (Inr (take n xs), if length xs \<le> n then rs else Data (drop n xs) # rs))"

definition read_more :: "nat \<Rightarrow> reader \<Rightarrow> bytes \<Rightarrow> string + (bytes \<times> reader)" where
  "read_more limit reader buf =
     (if limit \<le> length buf then Inl ''HTTP response exceeds limit''
      else case sock_read (min (limit - length buf) 8192) reader of
             (Inl e, _) \<Rightarrow> Inl (''read: '' @ e)
           | (Inr chunk, reader) \<Rightarrow>
               if chunk = [] then Inl ''unexpected EOF while reading HTTP response'' else Inr (buf @ chunk, reader))"

text \<open>The data that is still to come.\<close>

fun stream_of :: "reader \<Rightarrow> bytes" where
  "stream_of [] = []"
| "stream_of (Data xs # rs) = xs @ stream_of rs"
| "stream_of (ReadError e # rs) = stream_of rs"

lemma sock_read_stream:
  "sock_read n r = (Inr d, r') \<Longrightarrow> 0 < n \<Longrightarrow> stream_of r = d @ stream_of r' \<and> length d \<le> n \<and> (d = [] \<longrightarrow> stream_of r = [])"
  by (induction n r rule: sock_read.induct) (auto split: if_splits)

lemma read_more_stream:
  assumes "read_more limit r buf = Inr (buf', r')"
  shows "buf' @ stream_of r' = buf @ stream_of r" "length buf < length buf'" "length buf' \<le> limit"
    "length buf < limit" "length (stream_of r') < length (stream_of r)" "prefix buf buf'"
proof -
  have lim: "length buf < limit" using assms by (auto simp: read_more_def split: if_splits)
  obtain d where d: "sock_read (min (limit - length buf) 8192) r = (Inr d, r')" "d \<noteq> []" "buf' = buf @ d"
    using assms by (auto simp: read_more_def split: if_splits prod.splits sum.splits)
  note s = sock_read_stream [OF d(1)]
  show "buf' @ stream_of r' = buf @ stream_of r" "length buf < length buf'" "length buf' \<le> limit"
    "length buf < limit" "length (stream_of r') < length (stream_of r)" "prefix buf buf'"
    using s d lim by auto
qed

text \<open>\<open>windows(n).position(...)\<close>.\<close>

fun find_bytes :: "bytes \<Rightarrow> bytes \<Rightarrow> nat option" where
  "find_bytes pat [] = None"
| "find_bytes pat (x # xs) = (if take (length pat) (x # xs) = pat then Some 0 else map_option Suc (find_bytes pat xs))"

section \<open>The response head\<close>

definition header_end :: "bytes \<Rightarrow> nat option" where
  "header_end buf = map_option (\<lambda>pos. pos + 4) (find_bytes (CRLF @ CRLF) buf)"

definition http_header_count :: "bytes \<Rightarrow> nat" where
  "http_header_count headers = length (filter (\<lambda>i. take 2 (drop i headers) = CRLF) [0..<length headers])"

function read_until_headers :: "reader \<Rightarrow> bytes \<Rightarrow> string + (nat \<times> bytes \<times> reader)" where
  "read_until_headers reader buf =
     (case header_end buf of
        Some pos \<Rightarrow> Inr (pos, buf, reader)
      | None \<Rightarrow>
          if MAX_HEADER_BYTES \<le> length buf then Inl ''HTTP response headers exceed limit''
          else case read_more MAX_HEADER_BYTES reader buf of
                 Inl e \<Rightarrow> Inl e
               | Inr (buf, reader) \<Rightarrow> read_until_headers reader buf)"
  by pat_completeness auto
termination
  by (relation "measure (\<lambda>(r, b). length (stream_of r))") (auto dest: read_more_stream)

declare read_until_headers.simps [simp del]

record http_response =
  hr_code :: "nat option"
  hr_headers :: "(string \<times> bytes) list"

definition eq_ignore_ascii_case :: "string \<Rightarrow> string \<Rightarrow> bool" where
  "eq_ignore_ascii_case s t \<longleftrightarrow> to_ascii_lowercase s = to_ascii_lowercase t"

definition is_chunked :: "(string \<times> bytes) list \<Rightarrow> bool" where
  "is_chunked headers =
     list_ex (\<lambda>h. eq_ignore_ascii_case (fst h) ''transfer-encoding'' \<and>
       (case from_utf8 (snd h) of
          None \<Rightarrow> False
        | Some value \<Rightarrow> list_ex (\<lambda>part. eq_ignore_ascii_case (trim part) ''chunked'') (split_char (CHR '','') value))) headers"

fun content_length_loop :: "nat option \<Rightarrow> (string \<times> bytes) list \<Rightarrow> string + nat option" where
  "content_length_loop len [] = Inr len"
| "content_length_loop len (h # hs) =
     (if \<not> eq_ignore_ascii_case (fst h) ''content-length'' then content_length_loop len hs
      else case from_utf8 (snd h) of
             None \<Rightarrow> Inl ''Content-Length is not valid UTF-8''
           | Some s \<Rightarrow>
               (case parse_uint usize_bound (trim s) of
                  None \<Rightarrow> Inl ''invalid Content-Length''
                | Some v \<Rightarrow>
                    if len \<noteq> None \<and> len \<noteq> Some v then Inl ''conflicting Content-Length headers''
                    else content_length_loop (Some v) hs))"

definition content_length :: "(string \<times> bytes) list \<Rightarrow> string + nat option" where
  "content_length headers = content_length_loop None headers"

section \<open>The body\<close>

text \<open>\<open>while body.len() < n { read_more(reader, &mut body, limit) }\<close>.\<close>

function read_at_least :: "nat \<Rightarrow> nat \<Rightarrow> reader \<Rightarrow> bytes \<Rightarrow> string + (bytes \<times> reader)" where
  "read_at_least limit n reader body =
     (if n \<le> length body then Inr (body, reader)
      else case read_more limit reader body of
             Inl e \<Rightarrow> Inl e
           | Inr (body, reader) \<Rightarrow> read_at_least limit n reader body)"
  by pat_completeness auto
termination
  by (relation "measure (\<lambda>(l, n, r, b). length (stream_of r))") (auto dest: read_more_stream)

declare read_at_least.simps [simp del]

definition read_content_length_body :: "reader \<Rightarrow> bytes \<Rightarrow> nat \<Rightarrow> string + bytes" where
  "read_content_length_body reader body len =
     (if MAX_BODY_BYTES < len then Inl ''HTTP response body exceeds limit''
      else case read_at_least len len reader body of
             Inl e \<Rightarrow> Inl e
           | Inr (body, _) \<Rightarrow> Inr (take len body))"

text \<open>The next line end at or after \<open>pos\<close>; in the trailers (\<open>Some start\<close>) their size is limited too.\<close>

function read_line :: "nat option \<Rightarrow> reader \<Rightarrow> bytes \<Rightarrow> nat \<Rightarrow> string + (nat \<times> bytes \<times> reader)" where
  "read_line trailer_start reader body pos =
     (case find_bytes CRLF (drop pos body) of
        Some rel \<Rightarrow> Inr (pos + rel, body, reader)
      | None \<Rightarrow>
          if (case trailer_start of Some start \<Rightarrow> MAX_HEADER_BYTES \<le> length body - start | None \<Rightarrow> False)
          then Inl ''chunk trailers exceed limit''
          else case read_more MAX_BODY_BYTES reader body of
                 Inl e \<Rightarrow> Inl e
               | Inr (body, reader) \<Rightarrow> read_line trailer_start reader body pos)"
  by pat_completeness auto
termination
  by (relation "measure (\<lambda>(t, r, b, p). length (stream_of r))") (auto dest: read_more_stream)

declare read_line.simps [simp del]

definition chunk_size :: "bytes \<Rightarrow> string + nat" where
  "chunk_size line =
     (case from_utf8 line of
        None \<Rightarrow> Inl ''chunk size is not valid UTF-8''
      | Some size_line \<Rightarrow>
          let size_hex = trim (case split_once (CHR '';'') size_line of Some (sz, _) \<Rightarrow> sz | None \<Rightarrow> size_line) in
          (case from_str_radix 16 usize_bound size_hex of
             None \<Rightarrow> Inl ''invalid chunk size''
           | Some n \<Rightarrow> Inr n))"

lemma read_line_stream:
  "read_line t r b pos = Inr (e, b', r') \<Longrightarrow>
   b' @ stream_of r' = b @ stream_of r \<and> prefix b b' \<and> pos \<le> e \<and> find_bytes CRLF (drop pos b') = Some (e - pos)"
proof (induction t r b pos rule: read_line.induct)
  case (1 t r b pos)
  show ?case
  proof (cases "find_bytes CRLF (drop pos b)")
    case None
    let ?over = "case t of Some start \<Rightarrow> MAX_HEADER_BYTES \<le> length b - start | None \<Rightarrow> False"
    have over: "\<not> ?over" and more: "\<exists>b1 r1. read_more MAX_BODY_BYTES r b = Inr (b1, r1)"
      using "1.prems" None by (auto simp: read_line.simps [of t r b] split: if_splits sum.splits)
    from more obtain b1 r1 where m: "read_more MAX_BODY_BYTES r b = Inr (b1, r1)" by blast
    with "1.prems" None over have "read_line t r1 b1 pos = Inr (e, b', r')" by (simp add: read_line.simps [of t r b])
    from "1.IH" [OF None over m refl this] read_more_stream [OF m] show ?thesis by auto
  qed (use "1.prems" in \<open>auto simp: read_line.simps [of t r b]\<close>)
qed

lemma find_bytes_less: "find_bytes pat xs = Some i \<Longrightarrow> i < length xs \<and> take (length pat) (drop i xs) = pat"
  by (induction xs arbitrary: i) (auto split: if_splits)

lemma find_CRLF_fits: "find_bytes CRLF xs = Some i \<Longrightarrow> i + 2 \<le> length xs"
proof -
  assume "find_bytes CRLF xs = Some i"
  then have e: "take 2 (drop i xs) = CRLF" using find_bytes_less [of CRLF xs i] by (simp add: CRLF_def numeral_2_eq_2)
  from arg_cong [OF e, of length] show ?thesis by (simp add: CRLF_def)
qed

lemma read_at_least_stream:
  "read_at_least l n r b = Inr (b', r') \<Longrightarrow> b' @ stream_of r' = b @ stream_of r \<and> prefix b b' \<and> n \<le> length b'"
proof (induction l n r b rule: read_at_least.induct)
  case (1 l n r b)
  show ?case
  proof (cases "n \<le> length b")
    case False
    then obtain b1 r1 where m: "read_more l r b = Inr (b1, r1)"
      using "1.prems" by (auto simp: read_at_least.simps [of l n r b] split: sum.splits)
    with "1.prems" False have "read_at_least l n r1 b1 = Inr (b', r')" by (simp add: read_at_least.simps [of l n r b])
    from "1.IH" [OF False m refl this] read_more_stream [OF m] show ?thesis by auto
  qed (use "1.prems" in \<open>simp add: read_at_least.simps [of l n r b]\<close>)
qed

lemma stream_lengths: "b' @ stream_of r' = b @ stream_of r \<Longrightarrow> length b' + length (stream_of r') = length b + length (stream_of r)"
  by (metis length_append)

function read_chunk_trailers :: "nat \<Rightarrow> reader \<Rightarrow> bytes \<Rightarrow> nat \<Rightarrow> string + unit" where
  "read_chunk_trailers trailer_start reader body pos =
     (case read_line (Some trailer_start) reader body pos of
        Inl e \<Rightarrow> Inl e
      | Inr (line_end, body, reader) \<Rightarrow>
          if line_end = pos then Inr () else read_chunk_trailers trailer_start reader body (line_end + 2))"
  by pat_completeness auto
termination
proof (relation "measure (\<lambda>(t, r, b, p). length b + length (stream_of r) - p)", goal_cases)
  case (2 t r b pos x e y b' r')
  then have "read_line (Some t) r b pos = Inr (e, b', r')" by simp
  note f = read_line_stream [OF this]
  with 2 show ?case
    using find_CRLF_fits [of "drop pos b'" "e - pos"] stream_lengths [of b' r' b r] by auto
qed simp

declare read_chunk_trailers.simps [simp del]

text \<open>The loop of \<open>read_chunked_body\<close>; the checked sum saturates in the source, and both sums exceed the limit together.\<close>

function read_chunks :: "reader \<Rightarrow> bytes \<Rightarrow> bytes \<Rightarrow> nat \<Rightarrow> string + bytes" where
  "read_chunks reader body decoded pos =
     (case read_line None reader body pos of
        Inl e \<Rightarrow> Inl e
      | Inr (line_end, body, reader) \<Rightarrow>
          (case chunk_size (subrange pos line_end body) of
             Inl e \<Rightarrow> Inl e
           | Inr sz \<Rightarrow>
               let pos = line_end + 2 in
               if sz = 0 then
                 (case read_chunk_trailers pos reader body pos of Inl e \<Rightarrow> Inl e | Inr _ \<Rightarrow> Inr decoded)
               else if MAX_BODY_BYTES < length decoded + sz then Inl ''HTTP response body exceeds limit''
               else
                 (case read_at_least MAX_BODY_BYTES (pos + sz + 2) reader body of
                    Inl e \<Rightarrow> Inl e
                  | Inr (body, reader) \<Rightarrow>
                      let decoded = decoded @ subrange pos (pos + sz) body in
                      if subrange (pos + sz) (pos + sz + 2) body \<noteq> CRLF then Inl ''chunk is missing trailing CRLF''
                      else read_chunks reader body decoded (pos + sz + 2))))"
  by pat_completeness auto
termination
proof (relation "measure (\<lambda>(r, b, d, p). length b + length (stream_of r) - p)", goal_cases)
  case (2 r b d pos x e y b1 r1 sz pos1 z b2 r2 d1)
  then have l: "read_line None r b pos = Inr (e, b1, r1)" and a: "read_at_least MAX_BODY_BYTES (e + 2 + sz + 2) r1 b1 = Inr (b2, r2)"
    by simp_all
  show ?case
    using read_line_stream [OF l] read_at_least_stream [OF a] stream_lengths [of b1 r1 b r] stream_lengths [of b2 r2 b1 r1] 2
    by auto
qed simp

declare read_chunks.simps [simp del]

definition read_chunked_body :: "reader \<Rightarrow> bytes \<Rightarrow> string + bytes" where
  "read_chunked_body reader body = read_chunks reader body [] 0"

function read_until_eof_limited :: "reader \<Rightarrow> bytes \<Rightarrow> string + bytes" where
  "read_until_eof_limited reader body =
     (if MAX_BODY_BYTES < length body then Inl ''HTTP response body exceeds limit''
      else
        let remaining = MAX_BODY_BYTES - length body in
        case sock_read (min (max remaining 1) 8192) reader of
          (Inl e, _) \<Rightarrow> Inl (''read: '' @ e)
        | (Inr chunk, reader) \<Rightarrow>
            if chunk = [] then Inr body
            else if MAX_BODY_BYTES < length body + length chunk then Inl ''HTTP response body exceeds limit''
            else read_until_eof_limited reader (body @ chunk))"
  by pat_completeness auto
termination
proof (relation "measure (\<lambda>(r, b). length (stream_of r))", goal_cases)
  case (2 r body n x r' d)
  then have "sock_read (min (max n 1) 8192) r = (Inr d, r')" "d \<noteq> []" by (auto dest: sym)
  then show ?case using sock_read_stream by fastforce
qed simp

declare read_until_eof_limited.simps [simp del]

section \<open>The request\<close>

text \<open>\<open>httparse_parse n bytes\<close>: the crate's parser with room for \<open>n\<close> headers; \<open>Inr None\<close> is \<open>Status::Partial\<close>.\<close>

type_synonym httparse = "nat \<Rightarrow> bytes \<Rightarrow> string + http_response option"

definition response_body :: "http_response \<Rightarrow> reader \<Rightarrow> bytes \<Rightarrow> string + bytes" where
  "response_body response reader rest =
     (case content_length (hr_headers response) of
        Inl e \<Rightarrow> Inl e
      | Inr declared_len \<Rightarrow>
          if is_chunked (hr_headers response) then read_chunked_body reader rest
          else (case declared_len of
                  Some len \<Rightarrow> read_content_length_body reader rest len
                | None \<Rightarrow> read_until_eof_limited reader rest))"

definition read_http_response_body :: "httparse \<Rightarrow> reader \<Rightarrow> string + string" where
  "read_http_response_body parse reader =
     (case read_until_headers reader [] of
        Inl e \<Rightarrow> Inl e
      | Inr (header_len, buf, reader) \<Rightarrow>
          let head = take header_len buf in
          (case parse (http_header_count head) head of
             Inl e \<Rightarrow> Inl (''HTTP parse error: '' @ e)
           | Inr None \<Rightarrow> Inl ''incomplete HTTP response headers''
           | Inr (Some response) \<Rightarrow>
               (case hr_code response of
                  None \<Rightarrow> Inl ''response status line has no status code''
                | Some code \<Rightarrow>
                    if code \<noteq> 200 then Inl (''HTTP status '' @ decimal code)
                    else (case response_body response reader (drop header_len buf) of
                            Inl e \<Rightarrow> Inl e
                          | Inr body \<Rightarrow>
                              (case from_utf8 body of
                                 None \<Rightarrow> Inl ''response body is not valid UTF-8''
                               | Some s \<Rightarrow> Inr s)))))"

record ('w, 'st, 'tls) https_env = "('w, 'st) net_ops" +
  hs_crates :: outbound_crates
  hs_outbound :: outbound_config
  hs_httparse :: httparse
  hs_server_name_error :: "string \<Rightarrow> string option"
  hs_tls :: tls_crates
  hs_tls_op :: "client_config \<Rightarrow> string \<Rightarrow> 'st \<Rightarrow> ('w, string + 'tls) prim"
  hs_write_op :: "'tls \<Rightarrow> bytes \<Rightarrow> ('w, string + unit) prim"
  hs_response_op :: "'tls \<Rightarrow> ('w, reader) prim" \<comment> \<open>the response as it arrives, until the client has it all\<close>

definition CRLF_str :: string where "CRLF_str = [CHR 0x0D, CHR 0x0A]"

definition get_request :: "string \<Rightarrow> string \<Rightarrow> string" where
  "get_request host path =
     ''GET '' @ path @ '' HTTP/1.1'' @ CRLF_str @ ''Host: '' @ host @ CRLF_str @ ''Connection: close'' @ CRLF_str
     @ ''User-Agent: tg-ws-proxy'' @ CRLF_str @ CRLF_str"

definition https_get_with_tls_config ::
  "('w, 'st, 'tls, 'x) https_env_scheme \<Rightarrow> string \<Rightarrow> string \<Rightarrow> client_config \<Rightarrow> (('w, 'b) sys_scheme, string + string) io" where
  "https_get_with_tls_config E host path tls_config =
     io_bind (outbound_connect E (hs_crates E) (hs_outbound E) host 443 FETCH_TIMEOUT) (\<lambda>conn.
     case conn of
       Inl e \<Rightarrow> io_return (Inl (oe_reason e))
     | Inr tcp \<Rightarrow>
         (case hs_server_name_error E host of
            Some e \<Rightarrow> io_return (Inl (''invalid server name: '' @ e))
          | None \<Rightarrow>
              io_bind (timeout FETCH_TIMEOUT (perform (hs_tls_op E tls_config host tcp))) (\<lambda>r.
              case r of
                None \<Rightarrow> io_return (Inl ''TLS handshake timed out'')
              | Some (Inl e) \<Rightarrow> io_return (Inl (''TLS handshake: '' @ e))
              | Some (Inr tls) \<Rightarrow>
                  io_bind (perform (hs_write_op E tls (as_bytes (get_request host path)))) (\<lambda>w.
                  case w of
                    Inl e \<Rightarrow> io_return (Inl (''write: '' @ e))
                  | Inr _ \<Rightarrow>
                      io_bind (timeout FETCH_TIMEOUT (io_bind (perform (hs_response_op E tls))
                        (\<lambda>reader. io_return (read_http_response_body (hs_httparse E) reader)))) (\<lambda>body.
                      io_return (case body of None \<Rightarrow> Inl ''read timed out'' | Some b \<Rightarrow> b))))))"

definition https_get ::
  "('w, 'st, 'tls, 'x) https_env_scheme \<Rightarrow> string \<Rightarrow> string \<Rightarrow> (('w, 'b) sys_scheme, string + string) io" where
  "https_get E host path = https_get_with_tls_config E host path (build_tls_config (hs_tls E))"

section \<open>Reassembly\<close>

text \<open>A reader that only delivers data. Whatever its segments are, the loops find what is in the stream.\<close>

definition data_only :: "reader \<Rightarrow> bool" where
  "data_only r \<longleftrightarrow> list_all (\<lambda>a. case a of Data _ \<Rightarrow> True | ReadError _ \<Rightarrow> False) r"

lemma sock_read_data:
  "data_only r \<Longrightarrow> 0 < n \<Longrightarrow> \<exists>d r'. sock_read n r = (Inr d, r') \<and> data_only r' \<and> (d = [] \<longleftrightarrow> stream_of r = [])"
  by (induction n r rule: sock_read.induct) (auto simp: data_only_def)

lemma read_more_data:
  assumes "data_only r" "length buf < limit" "stream_of r \<noteq> []"
  obtains buf' r' where "read_more limit r buf = Inr (buf', r')" "data_only r'"
proof -
  obtain d r' where "sock_read (min (limit - length buf) 8192) r = (Inr d, r')" "data_only r'" "d \<noteq> []"
    using sock_read_data [OF assms(1), of "min (limit - length buf) 8192"] assms by auto
  then show thesis using assms(2) that by (auto simp: read_more_def)
qed

lemma take_Cons_append:
  "length pat \<le> length (x # xs) \<Longrightarrow> take (length pat) ((x # xs) @ ys) = take (length pat) (x # xs)"
  by (simp only: take_append) simp

lemma find_bytes_append: "find_bytes pat xs = Some i \<Longrightarrow> i + length pat \<le> length xs \<Longrightarrow> find_bytes pat (xs @ ys) = Some i"
proof (induction xs arbitrary: i)
  case (Cons x xs)
  then have "length pat \<le> length (x # xs)" by simp
  from take_Cons_append [OF this, of ys] Cons show ?case by (auto split: if_splits)
qed simp

text \<open>Two searches that end inside a common prefix end at the same place.\<close>

lemma find_bytes_prefix:
  "find_bytes pat (xs @ ys) = Some i \<Longrightarrow> i + length pat \<le> length xs \<Longrightarrow> pat \<noteq> [] \<Longrightarrow> find_bytes pat xs = Some i"
proof (induction xs arbitrary: i)
  case (Cons x xs)
  note t = take_Cons_append [of pat x xs ys]
  show ?case
  proof (cases "take (length pat) ((x # xs) @ ys) = pat")
    case True
    then show ?thesis using Cons.prems t by auto
  next
    case False
    then obtain j where j: "find_bytes pat (xs @ ys) = Some j" "i = Suc j" using Cons.prems(1) by auto
    then have "length pat \<le> length (x # xs)" "j + length pat \<le> length xs" using Cons.prems(2) by simp_all
    then show ?thesis using Cons.IH [OF j(1)] Cons.prems(3) False j t by simp
  qed
qed simp

lemma read_line_finds:
  "\<lbrakk>data_only r; pos \<le> length b; find_bytes CRLF (drop pos (b @ stream_of r)) = Some rel; pos + rel + 2 \<le> MAX_BODY_BYTES;
    case t of Some start \<Rightarrow> pos + rel + 2 \<le> start + MAX_HEADER_BYTES | None \<Rightarrow> True\<rbrakk> \<Longrightarrow>
   \<exists>b' r'. read_line t r b pos = Inr (pos + rel, b', r') \<and> data_only r' \<and> b' @ stream_of r' = b @ stream_of r
     \<and> pos + rel + 2 \<le> length b'"
proof (induction t r b pos rule: read_line.induct)
  case (1 t r b pos)
  show ?case
  proof (cases "find_bytes CRLF (drop pos b)")
    case (Some j)
    then have "find_bytes CRLF (drop pos b @ stream_of r) = Some j"
      using find_CRLF_fits [OF Some] by (intro find_bytes_append [OF Some]) (simp add: CRLF_def)
    then have "j = rel" using "1.prems"(2,3) by simp
    then show ?thesis
      using Some "1.prems" find_CRLF_fits [OF Some] by (simp add: read_line.simps [of t r b])
  next
    case None
    have short: "length b < pos + rel + 2"
    proof (rule ccontr)
      assume "\<not> length b < pos + rel + 2"
      then have "find_bytes CRLF (drop pos b) = Some rel"
        using find_bytes_prefix [of CRLF "drop pos b" "stream_of r" rel] "1.prems"(2,3) by (simp add: CRLF_def)
      with None show False by simp
    qed
    have "stream_of r \<noteq> []" using None "1.prems"(3) by auto
    moreover have "length b < MAX_BODY_BYTES" using short "1.prems"(4) by simp
    ultimately obtain b1 r1 where m: "read_more MAX_BODY_BYTES r b = Inr (b1, r1)" "data_only r1"
      using "1.prems"(1) by (meson read_more_data)
    have over: "\<not> (case t of Some start \<Rightarrow> MAX_HEADER_BYTES \<le> length b - start | None \<Rightarrow> False)"
      using short "1.prems"(5) by (auto simp: MAX_HEADER_BYTES_def split: option.splits)
    note s = read_more_stream [OF m(1)]
    have p: "pos \<le> length b1" using "1.prems"(2) s(2) by linarith
    have f: "find_bytes CRLF (drop pos (b1 @ stream_of r1)) = Some rel" using "1.prems"(3) unfolding s(1) .
    from "1.IH" [OF None over m(1) refl m(2) p f "1.prems"(4,5)]
    show ?thesis using None over m(1) s(1) by (simp add: read_line.simps [of t r b])
  qed
qed

lemma read_at_least_finds:
  "data_only r \<Longrightarrow> n \<le> length b + length (stream_of r) \<Longrightarrow> n \<le> limit \<Longrightarrow>
   \<exists>b' r'. read_at_least limit n r b = Inr (b', r') \<and> data_only r' \<and> b' @ stream_of r' = b @ stream_of r \<and> n \<le> length b'"
proof (induction limit n r b rule: read_at_least.induct)
  case (1 limit n r b)
  show ?case
  proof (cases "n \<le> length b")
    case False
    then have "stream_of r \<noteq> []" "length b < limit" using "1.prems" by auto
    then obtain b1 r1 where m: "read_more limit r b = Inr (b1, r1)" "data_only r1"
      using "1.prems"(1) by (meson read_more_data)
    note s = read_more_stream [OF m(1)]
    have "\<exists>b' r'. read_at_least limit n r1 b1 = Inr (b', r') \<and> data_only r' \<and> b' @ stream_of r' = b1 @ stream_of r1 \<and> n \<le> length b'"
      using "1.prems" stream_lengths [OF s(1)] by (intro "1.IH" [OF False m(1) refl m(2)]) simp_all
    then show ?thesis using False m(1) s(1) by (simp add: read_at_least.simps [of limit n r b])
  qed (use "1.prems" in \<open>simp add: read_at_least.simps [of limit n r b]\<close>)
qed

section \<open>Chunked bodies\<close>

text \<open>The format, written down from RFC 9112 without the code's parser. A line ends at its first CRLF. A size is a string of
  hexadecimal digits of either case, leading zeros allowed, read by place value; blanks may follow it, and an
  extension introduced by a semicolon.\<close>

definition plain_line :: "bytes \<Rightarrow> bool" where
  "plain_line l \<longleftrightarrow> find_bytes CRLF (l @ CRLF) = Some (length l)"

definition crlf_lines :: "bytes list \<Rightarrow> bytes" where
  "crlf_lines ls = concat (map (\<lambda>l. l @ CRLF) ls)"

definition encode_chunks :: "(bytes \<times> bytes) list \<Rightarrow> bytes" where
  "encode_chunks cs = concat (map (\<lambda>(line, data). line @ CRLF @ data @ CRLF) cs)"

definition hex_char :: "bool \<times> nat \<Rightarrow> char" where
  "hex_char d = (if fst d then ''0123456789ABCDEF'' else ''0123456789abcdef'') ! snd d"

fun place_value :: "nat list \<Rightarrow> nat" where
  "place_value [] = 0"
| "place_value (d # ds) = d * 16 ^ length ds + place_value ds"

record chunk =
  ch_digits :: "(bool \<times> nat) list" \<comment> \<open>upper case or not, and the digit\<close>
  ch_blanks :: nat
  ch_extension :: "string option"
  ch_data :: bytes

definition size_text :: "chunk \<Rightarrow> string" where
  "size_text c = map hex_char (ch_digits c) @ replicate (ch_blanks c) (CHR '' '') @
     (case ch_extension c of None \<Rightarrow> [] | Some e \<Rightarrow> CHR '';'' # e)"

definition size_line :: "chunk \<Rightarrow> bytes" where
  "size_line c = as_bytes (size_text c)"

definition printable :: "char \<Rightarrow> bool" where
  "printable c \<longleftrightarrow> 0x20 \<le> (of_char c :: nat) \<and> (of_char c :: nat) < 0x7f"

definition chunk_ok :: "chunk \<Rightarrow> bool" where
  "chunk_ok c \<longleftrightarrow> ch_digits c \<noteq> [] \<and> list_all (\<lambda>d. snd d < 16) (ch_digits c)
     \<and> place_value (map snd (ch_digits c)) = length (ch_data c)
     \<and> (case ch_extension c of None \<Rightarrow> True | Some e \<Rightarrow> list_all printable e)"

definition write_chunks :: "chunk list \<Rightarrow> bytes" where
  "write_chunks cs = concat (map (\<lambda>c. size_line c @ CRLF @ ch_data c @ CRLF) cs)"

text \<open>A size line the code's parser reads as the length of the data.\<close>

definition chunk_read :: "bytes \<times> bytes \<Rightarrow> bool" where
  "chunk_read c \<longleftrightarrow> plain_line (fst c) \<and> snd c \<noteq> [] \<and> chunk_size (fst c) = Inr (length (snd c))"

lemma length_CRLF [simp]: "length CRLF = 2" by (simp add: CRLF_def)

lemma plain_line_found: "plain_line l \<Longrightarrow> find_bytes CRLF (l @ CRLF @ rest) = Some (length l)"
  using find_bytes_append [of CRLF "l @ CRLF" "length l" rest] by (simp add: plain_line_def)

lemma subrange_of_whole:
  assumes "b @ z = pre @ xs @ ys" "length pre = i" "i + length xs \<le> length b"
  shows "subrange i (i + length xs) b = xs"
proof -
  have "subrange i (i + length xs) b = subrange i (i + length xs) (b @ z)"
    using assms(3) by (simp add: subrange_append_left)
  also have "\<dots> = xs" using assms(1,2) by (simp add: subrange_def)
  finally show ?thesis .
qed

lemma line_ahead:
  assumes "data_only r" "b @ stream_of r = pre @ l @ CRLF @ rest" "length pre \<le> length b" "plain_line l"
    "length pre + length l + 2 \<le> MAX_BODY_BYTES"
    "case t of Some start \<Rightarrow> length pre + length l + 2 \<le> start + MAX_HEADER_BYTES | None \<Rightarrow> True"
  shows "\<exists>b' r'. read_line t r b (length pre) = Inr (length pre + length l, b', r') \<and> data_only r'
    \<and> b' @ stream_of r' = pre @ l @ CRLF @ rest \<and> length pre + length l + 2 \<le> length b'"
  using read_line_finds [OF assms(1,3), of "length l" t] assms plain_line_found [OF assms(4), of rest] by auto

lemma trailers_read:
  "\<lbrakk>data_only r; b @ stream_of r = pre @ crlf_lines ls @ CRLF @ rest; length pre \<le> length b;
    \<forall>l \<in> set ls. plain_line l \<and> l \<noteq> []; length pre + length (crlf_lines ls) + 2 \<le> MAX_BODY_BYTES;
    length pre + length (crlf_lines ls) + 2 \<le> start + MAX_HEADER_BYTES\<rbrakk> \<Longrightarrow>
   read_chunk_trailers start r b (length pre) = Inr ()"
proof (induction ls arbitrary: r b pre)
  case Nil
  have "plain_line []" by (simp add: plain_line_def CRLF_def)
  then obtain b' r' where "read_line (Some start) r b (length pre) = Inr (length pre, b', r')"
    using line_ahead [of r b pre "[]" rest "Some start"] Nil by (auto simp: crlf_lines_def)
  then show ?case by (subst read_chunk_trailers.simps) simp
next
  case (Cons l ls)
  obtain b' r' where l: "read_line (Some start) r b (length pre) = Inr (length pre + length l, b', r')" "data_only r'"
      "b' @ stream_of r' = pre @ l @ CRLF @ crlf_lines ls @ CRLF @ rest" "length pre + length l + 2 \<le> length b'"
    using line_ahead [of r b pre l "crlf_lines ls @ CRLF @ rest" "Some start"] Cons.prems by (auto simp: crlf_lines_def)
  have "read_chunk_trailers start r' b' (length (pre @ l @ CRLF)) = Inr ()"
    using Cons.prems l by (intro Cons.IH) (simp_all add: crlf_lines_def)
  then show ?case using l(1) Cons.prems(4) by (subst read_chunk_trailers.simps) (simp add: add.assoc)
qed

lemma chunks_read:
  "\<lbrakk>data_only r; b @ stream_of r = pre @ encode_chunks cs @ last_line @ CRLF @ crlf_lines ls @ CRLF @ rest; length pre \<le> length b;
    \<forall>c \<in> set cs. chunk_read c; plain_line last_line; chunk_size last_line = Inr 0; \<forall>l \<in> set ls. plain_line l \<and> l \<noteq> [];
    length pre + length (encode_chunks cs) + length last_line + length (crlf_lines ls) + 4 \<le> MAX_BODY_BYTES;
    length (crlf_lines ls) + 2 \<le> MAX_HEADER_BYTES; length decoded \<le> length pre\<rbrakk> \<Longrightarrow>
   read_chunks r b decoded (length pre) = Inr (decoded @ concat (map snd cs))"
proof (induction cs arbitrary: r b pre decoded)
  case Nil
  obtain b' r' where l: "read_line None r b (length pre) = Inr (length pre + length last_line, b', r')" "data_only r'"
      "b' @ stream_of r' = pre @ last_line @ CRLF @ crlf_lines ls @ CRLF @ rest" "length pre + length last_line + 2 \<le> length b'"
    using line_ahead [of r b pre last_line "crlf_lines ls @ CRLF @ rest" None] Nil by (auto simp: encode_chunks_def)
  have "read_chunk_trailers (length (pre @ last_line @ CRLF)) r' b' (length (pre @ last_line @ CRLF)) = Inr ()"
    using Nil l by (intro trailers_read [of _ _ _ ls rest]) simp_all
  moreover have "subrange (length pre) (length pre + length last_line) b' = last_line"
    using l by (intro subrange_of_whole) simp_all
  ultimately show ?case
    using l(1) Nil.prems(6) by (subst read_chunks.simps) (simp add: Let_def add.assoc)
next
  case (Cons c cs)
  obtain line data where c: "c = (line, data)" by (cases c)
  let ?rest = "encode_chunks cs @ last_line @ CRLF @ crlf_lines ls @ CRLF @ rest"
  let ?n = "length pre + length line + 2"
  have ok: "plain_line line" "data \<noteq> []" "chunk_size line = Inr (length data)"
    using Cons.prems(4) c by (auto simp: chunk_read_def)
  have whole: "b @ stream_of r = pre @ line @ CRLF @ data @ CRLF @ ?rest"
    using Cons.prems(2) by (simp add: c encode_chunks_def)
  have fits: "?n + length data + 2 + length (encode_chunks cs) + length last_line + length (crlf_lines ls) + 4 \<le> MAX_BODY_BYTES"
    using Cons.prems(8) by (simp add: c encode_chunks_def)
  obtain b1 r1 where l: "read_line None r b (length pre) = Inr (length pre + length line, b1, r1)" "data_only r1"
      "b1 @ stream_of r1 = pre @ line @ CRLF @ data @ CRLF @ ?rest" "?n \<le> length b1"
    using line_ahead [OF Cons.prems(1) whole Cons.prems(3) ok(1), of None] fits by auto
  have "?n + length data + 2 \<le> length b1 + length (stream_of r1)"
    using arg_cong [OF l(3), of length] by simp
  then obtain b2 r2 where a: "read_at_least MAX_BODY_BYTES (?n + length data + 2) r1 b1 = Inr (b2, r2)" "data_only r2"
      "b2 @ stream_of r2 = b1 @ stream_of r1" "?n + length data + 2 \<le> length b2"
    using read_at_least_finds [OF l(2), of "?n + length data + 2" b1 MAX_BODY_BYTES] fits by auto
  have w2: "b2 @ stream_of r2 = (pre @ line @ CRLF @ data @ CRLF) @ ?rest" using a(3) l(3) by simp
  have s: "subrange (length pre) (length pre + length line) b1 = line" "subrange ?n (?n + length data) b2 = data"
      "subrange (?n + length data) (?n + length data + 2) b2 = CRLF"
    using subrange_of_whole [OF l(3) refl] subrange_of_whole [of b2 "stream_of r2" "pre @ line @ CRLF" data "CRLF @ ?rest" ?n]
      subrange_of_whole [of b2 "stream_of r2" "pre @ line @ CRLF @ data" CRLF ?rest "?n + length data"] l(4) a(4) w2
    by (simp_all add: add.assoc)
  have "read_chunks r2 b2 (decoded @ data) (length (pre @ line @ CRLF @ data @ CRLF)) = Inr ((decoded @ data) @ concat (map snd cs))"
    using Cons.prems a w2 fits by (intro Cons.IH) simp_all
  moreover have "\<not> MAX_BODY_BYTES < length decoded + length data" using Cons.prems(10) fits by simp
  ultimately show ?case
    using l(1) ok a(1) s by (subst read_chunks.simps) (simp add: Let_def c add.assoc)
qed

text \<open>Every size line of the format is read as its place value.\<close>

lemma hex_char_facts:
  assumes "snd d < 16"
  shows "digit_of 16 (hex_char d) = Some (snd d)" "printable (hex_char d)"
    "hex_char d \<notin> {CHR '';'', CHR ''+''}" "\<not> ws_sensitive (hex_char d)"
proof -
  have "list_all (\<lambda>up. list_all (\<lambda>n. digit_of 16 (hex_char (up, n)) = Some n \<and> printable (hex_char (up, n))
      \<and> \<not> ws_sensitive (hex_char (up, n)) \<and> hex_char (up, n) \<noteq> CHR '';'' \<and> hex_char (up, n) \<noteq> CHR ''+'') [0..<16]) [True, False]"
    by code_simp
  then have "\<forall>n < 16. digit_of 16 (hex_char (up, n)) = Some n \<and> printable (hex_char (up, n))
      \<and> \<not> ws_sensitive (hex_char (up, n)) \<and> hex_char (up, n) \<noteq> CHR '';'' \<and> hex_char (up, n) \<noteq> CHR ''+''" for up
    by (cases up) (simp_all add: list_all_iff)
  with assms show "digit_of 16 (hex_char d) = Some (snd d)" "printable (hex_char d)"
    "hex_char d \<notin> {CHR '';'', CHR ''+''}" "\<not> ws_sensitive (hex_char d)" by (cases d; simp)+
qed

lemma digits_value_hex:
  "list_all (\<lambda>d. snd d < 16) ds \<Longrightarrow>
   digits_value 16 acc (map hex_char ds) = Some (acc * 16 ^ length ds + place_value (map snd ds))"
  by (induction ds arbitrary: acc) (simp_all add: hex_char_facts algebra_simps)

lemma size_text_printable: "chunk_ok c \<Longrightarrow> list_all printable (size_text c)"
proof -
  have "printable (CHR '' '')" "printable (CHR '';'')" by code_simp+
  then show "chunk_ok c \<Longrightarrow> list_all printable (size_text c)"
    using hex_char_facts(2) by (auto simp: chunk_ok_def size_text_def list_all_iff split: option.splits)
qed

lemma printable_bytes:
  assumes "list_all printable s"
  shows "from_utf8 (as_bytes s) = Some s" "plain_line (as_bytes s)"
proof -
  have b: "b < 0x80 \<and> b \<noteq> 0x0d" if mem: "b \<in> set (as_bytes s)" for b
  proof -
    obtain c where c: "b = of_char c" "printable c" using mem assms by (auto simp: as_bytes_def list_all_iff)
    then have "unat b < 0x80" "unat b \<noteq> 0x0d" by (auto simp: printable_def)
    then show ?thesis by (auto simp: word_less_nat_alt)
  qed
  then show "from_utf8 (as_bytes s) = Some s"
    by (intro from_utf8_as_bytes) (auto simp: valid_string_def intro: utf8_valid_ascii)
  have "find_bytes CRLF (l @ CRLF) = Some (length l)" if "0x0d \<notin> set l" for l
    using that by (induction l) (auto simp: CRLF_def)
  with b show "plain_line (as_bytes s)" by (auto simp: plain_line_def simp del: length_as_bytes)
qed

lemma trim_hex:
  assumes "ds \<noteq> []" "list_all (\<lambda>d. snd d < 16) ds"
  shows "trim (map hex_char ds @ replicate n (CHR '' '')) = map hex_char ds"
proof -
  have ends: "\<not> ws_sensitive (hex_char d)" if "d \<in> set ds" for d
    using hex_char_facts(4) [of d] assms(2) that by (auto simp: list_all_iff)
  show ?thesis
    using assms(1) ends by (intro trim_blanks) (auto simp: hd_map last_map)
qed

lemma chunk_size_line:
  assumes "chunk_ok c" "length (ch_data c) \<le> MAX_BODY_BYTES"
  shows "chunk_size (size_line c) = Inr (length (ch_data c))" "plain_line (size_line c)"
proof -
  let ?hex = "map hex_char (ch_digits c)" and ?blanks = "replicate (ch_blanks c) (CHR '' '')"
  note ok = assms(1) [unfolded chunk_ok_def]
  note line = printable_bytes [OF size_text_printable [OF assms(1)]]
  have chars: "x \<noteq> CHR '';'' \<and> x \<noteq> CHR ''+''" if "x \<in> set ?hex" for x
    using that ok hex_char_facts(3) by (auto simp: list_all_iff)
  have hex: "CHR '';'' \<notin> set (?hex @ ?blanks)" "?hex \<noteq> []" using chars ok by auto
  then have plus: "hd ?hex \<noteq> CHR ''+''" using chars hd_in_set by blast
  have "(case split_once (CHR '';'') (size_text c) of Some (sz, _) \<Rightarrow> sz | None \<Rightarrow> size_text c) = ?hex @ ?blanks"
    using split_once_append [OF hex(1)] split_once_None [OF hex(1)]
    by (auto simp: size_text_def split: option.split)
  then have "trim (case split_once (CHR '';'') (size_text c) of Some (sz, _) \<Rightarrow> sz | None \<Rightarrow> size_text c) = ?hex"
    using trim_hex ok by simp
  moreover have "from_str_radix 16 usize_bound ?hex = Some (length (ch_data c))"
    using hex(2) plus ok assms(2) digits_value_hex [of "ch_digits c" 0]
    by (cases "?hex") (auto simp: from_str_radix_def Let_def usize_bound_def MAX_BODY_BYTES_def)
  ultimately show "chunk_size (size_line c) = Inr (length (ch_data c))"
    using line(1) by (simp add: chunk_size_def size_line_def Let_def)
  show "plain_line (size_line c)" using line(2) by (simp add: size_line_def)
qed

lemma chunk_fits: "c \<in> set cs \<Longrightarrow> length (ch_data c) \<le> length (write_chunks cs)"
  by (induction cs) (auto simp: write_chunks_def)

section \<open>Whole responses\<close>

lemma read_until_headers_stream:
  "read_until_headers r b = Inr (pos, b', r') \<Longrightarrow> b' @ stream_of r' = b @ stream_of r \<and> header_end b' = Some pos"
proof (induction r b rule: read_until_headers.induct)
  case (1 r b)
  show ?case
  proof (cases "header_end b")
    case None
    have big: "\<not> MAX_HEADER_BYTES \<le> length b"
      using "1.prems" None by (auto simp: read_until_headers.simps [of r b])
    obtain b1 r1 where m: "read_more MAX_HEADER_BYTES r b = Inr (b1, r1)"
      using "1.prems" None big by (auto simp: read_until_headers.simps [of r b] split: sum.splits)
    with "1.prems" None big have "read_until_headers r1 b1 = Inr (pos, b', r')"
      by (simp add: read_until_headers.simps [of r b])
    from "1.IH" [OF None big m refl this] read_more_stream(1) [OF m] show ?thesis by simp
  qed (use "1.prems" in \<open>auto simp: read_until_headers.simps [of r b]\<close>)
qed

lemma header_end_fits: "header_end b = Some pos \<Longrightarrow> pos \<le> length b"
proof -
  assume "header_end b = Some pos"
  then obtain i where i: "find_bytes (CRLF @ CRLF) b = Some i" "pos = i + 4" by (auto simp: header_end_def)
  from find_bytes_less [OF i(1)] have "take 4 (drop i b) = CRLF @ CRLF" by simp
  from arg_cong [OF this, of length] i(2) show ?thesis by simp
qed

lemma header_end_prefix:
  assumes "header_end (xs @ ys) = Some pos" "pos \<le> length xs"
  shows "header_end xs = Some pos"
  using assms find_bytes_prefix [of "CRLF @ CRLF" xs ys] by (auto simp: header_end_def CRLF_def)

lemma header_end_append:
  assumes "header_end xs = Some pos"
  shows "header_end (xs @ ys) = Some pos"
  using assms find_bytes_append [of "CRLF @ CRLF" xs _ ys] header_end_fits [OF assms] by (auto simp: header_end_def)

lemma head_found:
  "data_only r \<Longrightarrow> header_end (b @ stream_of r) = Some pos \<Longrightarrow> pos \<le> MAX_HEADER_BYTES \<Longrightarrow>
   \<exists>b' r'. read_until_headers r b = Inr (pos, b', r') \<and> data_only r' \<and> b' @ stream_of r' = b @ stream_of r \<and> pos \<le> length b'"
proof (induction r b rule: read_until_headers.induct)
  case (1 r b)
  show ?case
  proof (cases "header_end b")
    case (Some p)
    then have "p = pos" using header_end_append [OF Some, of "stream_of r"] "1.prems"(2) by simp
    then show ?thesis using Some "1.prems" header_end_fits [OF Some] by (simp add: read_until_headers.simps [of r b])
  next
    case None
    then have short: "length b < pos" using header_end_prefix [OF "1.prems"(2)] by (cases "length b < pos") auto
    have big: "\<not> MAX_HEADER_BYTES \<le> length b" using short "1.prems"(3) by simp
    have "stream_of r \<noteq> []" using None "1.prems"(2) by auto
    then obtain b1 r1 where m: "read_more MAX_HEADER_BYTES r b = Inr (b1, r1)" "data_only r1"
      using read_more_data [OF "1.prems"(1), of b MAX_HEADER_BYTES] big by auto
    note s = read_more_stream(1) [OF m(1)]
    from "1.IH" [OF None big m(1) refl m(2)] "1.prems"(2,3) s show ?thesis
      using None big m(1) by (simp add: read_until_headers.simps [of r b])
  qed
qed

lemma content_length_body_exact:
  assumes "read_content_length_body r b n = Inr d"
  shows "n \<le> MAX_BODY_BYTES \<and> n \<le> length (b @ stream_of r) \<and> d = take n (b @ stream_of r)"
proof -
  obtain b' r' where a: "read_at_least n n r b = Inr (b', r')" and d: "d = take n b'" and n: "n \<le> MAX_BODY_BYTES"
    using assms by (auto simp: read_content_length_body_def split: if_splits sum.splits)
  note s = read_at_least_stream [OF a]
  then have "take n (b @ stream_of r) = take n (b' @ stream_of r')" by simp
  also have "\<dots> = take n b'" unfolding take_append using s by simp
  finally have "take n (b @ stream_of r) = take n b'" .
  then show ?thesis using s n d stream_lengths [of b' r' b r] by auto
qed

lemma eof_body_exact: "read_until_eof_limited r b = Inr d \<Longrightarrow> d = b @ stream_of r \<and> length d \<le> MAX_BODY_BYTES"
proof (induction r b rule: read_until_eof_limited.induct)
  case (1 r b)
  let ?n = "min (max (MAX_BODY_BYTES - length b) 1) 8192"
  have big: "\<not> MAX_BODY_BYTES < length b" using "1.prems" by (auto simp: read_until_eof_limited.simps [of r b])
  obtain x r1 where rd: "sock_read ?n r = (Inr x, r1)"
    using "1.prems" big by (auto simp: read_until_eof_limited.simps [of r b] Let_def split: prod.splits sum.splits)
  have s: "stream_of r = x @ stream_of r1" "x = [] \<longrightarrow> stream_of r = []"
    using sock_read_stream [OF rd] by (auto simp: less_max_iff_disj)
  show ?case
  proof (cases "x = []")
    case True
    then show ?thesis using "1.prems" big rd s by (simp add: read_until_eof_limited.simps [of r b] Let_def)
  next
    case False
    have fits: "\<not> MAX_BODY_BYTES < length b + length x"
      using "1.prems" big rd False by (auto simp: read_until_eof_limited.simps [of r b] Let_def split: if_splits)
    with "1.prems" big rd False have "read_until_eof_limited r1 (b @ x) = Inr d"
      by (simp add: read_until_eof_limited.simps [of r b] Let_def)
    from "1.IH" [OF big refl rd [symmetric] refl False fits this] s show ?thesis by auto
  qed
qed

lemma chunks_bounded: "read_chunks r b dec pos = Inr d \<Longrightarrow> length dec \<le> MAX_BODY_BYTES \<Longrightarrow> length d \<le> MAX_BODY_BYTES"
proof (induction r b dec pos rule: read_chunks.induct)
  case (1 r b dec pos)
  obtain e b1 r1 where l: "read_line None r b pos = Inr (e, b1, r1)"
    using "1.prems"(1) by (auto simp: read_chunks.simps [of r b dec pos] split: sum.splits)
  obtain sz where z: "chunk_size (subrange pos e b1) = Inr sz"
    using "1.prems"(1) l by (auto simp: read_chunks.simps [of r b dec pos] split: sum.splits)
  show ?case
  proof (cases "sz = 0")
    case True
    then have "d = dec" using "1.prems"(1) l z
      by (auto simp: read_chunks.simps [of r b dec pos] Let_def split: sum.splits)
    with "1.prems"(2) show ?thesis by simp
  next
    case False
    have fits: "\<not> MAX_BODY_BYTES < length dec + sz"
      using "1.prems"(1) l z False by (auto simp: read_chunks.simps [of r b dec pos] Let_def)
    obtain b2 r2 where a: "read_at_least MAX_BODY_BYTES (e + 2 + sz + 2) r1 b1 = Inr (b2, r2)"
      using "1.prems"(1) l z False fits by (auto simp: read_chunks.simps [of r b dec pos] Let_def split: sum.splits)
    have ok: "\<not> subrange (e + 2 + sz) (e + 2 + sz + 2) b2 \<noteq> CRLF"
      using "1.prems"(1) l z False fits a by (auto simp: read_chunks.simps [of r b dec pos] Let_def split: if_splits)
    have k: "read_chunks r2 b2 (dec @ subrange (e + 2) (e + 2 + sz) b2) (e + 2 + sz + 2) = Inr d"
      using "1.prems"(1) l z False fits a ok by (simp add: read_chunks.simps [of r b dec pos] Let_def)
    have "length (dec @ subrange (e + 2) (e + 2 + sz) b2) \<le> MAX_BODY_BYTES"
      using fits read_at_least_stream [OF a] by simp
    with "1.IH" [OF l refl refl z refl False fits a refl refl ok k] show ?thesis by simp
  qed
qed

lemma as_bytes_from_utf8: "from_utf8 bs = Some s \<Longrightarrow> as_bytes s = bs"
proof -
  assume "from_utf8 bs = Some s"
  then have "s = map (\<lambda>b. char_of (unat b)) bs" by (simp add: from_utf8_def split: if_splits)
  moreover have "of_char (char_of (unat b) :: char) = b" for b :: byte
    by (rule word_unat_eq_iff [THEN iffD2]) (simp add: unat_byte_less)
  ultimately show ?thesis by (simp add: as_bytes_def map_idI)
qed
section \<open>Properties\<close>

lemma read_response_Inr:
  assumes "read_http_response_body parse reader = Inr s"
  obtains pos buf reader' response body where "read_until_headers reader [] = Inr (pos, buf, reader')"
    "parse (http_header_count (take pos buf)) (take pos buf) = Inr (Some response)" "hr_code response = Some 200"
    "response_body response reader' (drop pos buf) = Inr body" "from_utf8 body = Some s"
  using assms
  by (auto simp: read_http_response_body_def Let_def split: sum.splits prod.splits option.splits if_splits)

lemma split_at_head: "b @ z = h @ w \<Longrightarrow> length h \<le> length b \<Longrightarrow> take (length h) b = h \<and> drop (length h) b @ z = w"
  by (auto simp: append_eq_append_conv2)

lemma head_ahead:
  assumes "data_only reader" "stream_of reader = head @ rest" "header_end head = Some (length head)" "length head \<le> MAX_HEADER_BYTES"
  shows "\<exists>buf r. read_until_headers reader [] = Inr (length head, buf, r) \<and> data_only r
    \<and> take (length head) buf = head \<and> drop (length head) buf @ stream_of r = rest"
proof -
  have "header_end ([] @ stream_of reader) = Some (length head)"
    using header_end_append [OF assms(3)] assms(2) by simp
  from head_found [OF assms(1) this assms(4)] obtain buf r where
    h: "read_until_headers reader [] = Inr (length head, buf, r)" "data_only r" "buf @ stream_of r = head @ rest"
      "length head \<le> length buf" using assms(2) by auto
  from split_at_head [OF h(3,4)] h(1,2) show ?thesis by blast
qed

text \<open>(C32) What the client returns is delimited the way the response says, and small: the head ends at the first empty
  line and has status 200; with a \<open>Content-Length\<close> the body is exactly that many bytes of what follows
  the head, without one and without chunks it is everything up to the end of the stream; and in
  every case it has at most 256 KiB.\<close>

theorem http_body_delimited:
  assumes "read_http_response_body parse reader = Inr s"
  shows "length s \<le> MAX_BODY_BYTES \<and>
    (\<exists>head rest response. stream_of reader = head @ rest \<and> header_end head = Some (length head)
       \<and> parse (http_header_count head) head = Inr (Some response) \<and> hr_code response = Some 200
       \<and> (\<forall>n. \<not> is_chunked (hr_headers response) \<and> content_length (hr_headers response) = Inr (Some n) \<longrightarrow>
            as_bytes s = take n rest \<and> n \<le> length rest)
       \<and> (\<not> is_chunked (hr_headers response) \<and> content_length (hr_headers response) = Inr None \<longrightarrow> as_bytes s = rest))"
proof -
  obtain pos buf r response body where h: "read_until_headers reader [] = Inr (pos, buf, r)"
    and p: "parse (http_header_count (take pos buf)) (take pos buf) = Inr (Some response)" "hr_code response = Some 200"
    and b: "response_body response r (drop pos buf) = Inr body" and u: "from_utf8 body = Some s"
    by (rule read_response_Inr [OF assms])
  note hs = read_until_headers_stream [OF h]
  then have pos: "pos \<le> length buf" using header_end_fits by blast
  have w: "stream_of reader = take pos buf @ drop pos buf @ stream_of r"
    using hs by (metis append.assoc append_Nil append_take_drop_id)
  have e: "header_end (take pos buf) = Some (length (take pos buf))"
    using hs pos header_end_prefix [of "take pos buf" "drop pos buf" pos] by simp
  have body: "as_bytes s = body" "length s = length body" using as_bytes_from_utf8 [OF u] by auto
  have chunked: "length body \<le> MAX_BODY_BYTES" if "is_chunked (hr_headers response)"
    using b that chunks_bounded [of r "drop pos buf" "[]" 0 body]
    by (auto simp: response_body_def read_chunked_body_def split: sum.splits)
  have sized: "length body \<le> MAX_BODY_BYTES \<and> body = take n (drop pos buf @ stream_of r) \<and> n \<le> length (drop pos buf @ stream_of r)"
    if "\<not> is_chunked (hr_headers response)" "content_length (hr_headers response) = Inr (Some n)" for n
    using b that content_length_body_exact [of r "drop pos buf" n body] by (auto simp: response_body_def)
  have eof: "length body \<le> MAX_BODY_BYTES \<and> body = drop pos buf @ stream_of r"
    if "\<not> is_chunked (hr_headers response)" "content_length (hr_headers response) = Inr None"
    using b that eof_body_exact [of r "drop pos buf" body] by (auto simp: response_body_def)
  obtain dl where dl: "content_length (hr_headers response) = Inr dl"
    using b by (auto simp: response_body_def split: sum.splits)
  have "length body \<le> MAX_BODY_BYTES"
    using chunked sized eof dl by (cases "is_chunked (hr_headers response)"; cases dl) blast+
  then have "length s \<le> MAX_BODY_BYTES" using body(2) by simp
  moreover have "\<forall>n. \<not> is_chunked (hr_headers response) \<and> content_length (hr_headers response) = Inr (Some n) \<longrightarrow>
      as_bytes s = take n (drop pos buf @ stream_of r) \<and> n \<le> length (drop pos buf @ stream_of r)"
    using sized unfolding body(1) by blast
  moreover have "\<not> is_chunked (hr_headers response) \<and> content_length (hr_headers response) = Inr None \<longrightarrow>
      as_bytes s = drop pos buf @ stream_of r"
    using eof unfolding body(1) by blast
  ultimately show ?thesis using w e p by blast
qed

lemma sized_response_read:
  assumes "data_only reader" "stream_of reader = head @ rest" "header_end head = Some (length head)"
    "length head \<le> MAX_HEADER_BYTES" "parse (http_header_count head) head = Inr (Some response)" "hr_code response = Some 200"
    "\<not> is_chunked (hr_headers response)" "content_length (hr_headers response) = Inr (Some n)"
    "n \<le> MAX_BODY_BYTES" "n \<le> length rest" "from_utf8 (take n rest) = Some s"
  shows "read_http_response_body parse reader = Inr s"
proof -
  obtain buf r where h: "read_until_headers reader [] = Inr (length head, buf, r)" "data_only r"
      "take (length head) buf = head" "drop (length head) buf @ stream_of r = rest"
    using head_ahead [OF assms(1-4)] by blast
  obtain b' r' where a: "read_at_least n n r (drop (length head) buf) = Inr (b', r')" "b' @ stream_of r' = rest" "n \<le> length b'"
    using read_at_least_finds [OF h(2), of n "drop (length head) buf" n] h(4) assms(10) arg_cong [OF h(4), of length] by auto
  then have "take n b' = take n rest" by auto
  with a(1) assms(7-9) have "response_body response r (drop (length head) buf) = Inr (take n rest)"
    by (simp add: response_body_def read_content_length_body_def)
  then show ?thesis
    using h(1,3) assms(5,6,11) by (simp add: read_http_response_body_def Let_def)
qed

definition ok_head :: bytes where
  "ok_head = as_bytes (''HTTP/1.1 200 OK'' @ CRLF_str @ CRLF_str)"

definition ok_parser :: "(string \<times> bytes) list \<Rightarrow> httparse" where
  "ok_parser hs n head = Inr (Some \<lparr>hr_code = Some 200, hr_headers = hs\<rparr>)"

lemma ok_head_ends: "header_end ok_head = Some (length ok_head)" "length ok_head \<le> MAX_HEADER_BYTES"
proof -
  show "header_end ok_head = Some (length ok_head)" by code_simp
  have "length ok_head = 19" by code_simp
  then show "length ok_head \<le> MAX_HEADER_BYTES" by (simp add: MAX_HEADER_BYTES_def)
qed

theorem http_body_delimited_witness:
  "let parse = ok_parser [(''content-length'', as_bytes '' 2'')] in
   read_http_response_body parse [Data (ok_head @ as_bytes ''h''), Data (as_bytes ''i!!'')] = Inr ''hi''
   \<and> length ''hi'' \<le> MAX_BODY_BYTES"
proof -
  let ?hs = "[(''content-length'', as_bytes '' 2'')]"
  let ?r = "[Data (ok_head @ as_bytes ''h''), Data (as_bytes ''i!!'')]"
  have e: "eq_ignore_ascii_case ''content-length'' ''content-length''" "from_utf8 (as_bytes '' 2'') = Some '' 2''"
    "trim '' 2'' = ''2''" "digits_value 10 0 ''2'' = Some 2" "\<not> is_chunked ?hs" "data_only ?r"
    "from_utf8 (take 2 (as_bytes ''hi!!'')) = Some ''hi''" "length (as_bytes ''hi!!'') = 4" "stream_of ?r = ok_head @ as_bytes ''hi!!''"
    by code_simp+
  then have "content_length ?hs = Inr (Some 2)"
    by (simp add: content_length_def parse_uint_def from_str_radix_def usize_bound_def)
  then have "read_http_response_body (ok_parser ?hs) ?r = Inr ''hi''"
    using e by (intro sized_response_read [OF e(6) e(9) ok_head_ends, where response = "\<lparr>hr_code = Some 200, hr_headers = ?hs\<rparr>" and n = 2])
      (simp_all add: ok_parser_def MAX_BODY_BYTES_def)
  from http_body_delimited [OF this] this show ?thesis by (simp add: Let_def)
qed

text \<open>(C31) A chunked response is decoded whatever its segments: for any chunks, each announced by its length as hexadecimal
  digits in either case, with or without leading zeros, trailing blanks and an extension, a last chunk of length zero
  in the same notation, any trailers and any cutting of the stream into reads, within the size
  limits, the client returns the chunks' data joined together.\<close>

theorem chunked_response_decoded:
  assumes "data_only reader"
    and "stream_of reader = head @ write_chunks cs @ size_line last_chunk @ CRLF @ crlf_lines ls @ CRLF @ rest"
    and "header_end head = Some (length head)" and "length head \<le> MAX_HEADER_BYTES"
    and "parse (http_header_count head) head = Inr (Some response)" and "hr_code response = Some 200"
    and "is_chunked (hr_headers response)" and "content_length (hr_headers response) = Inr len"
    and "list_all (\<lambda>c. chunk_ok c \<and> ch_data c \<noteq> []) cs" and "chunk_ok last_chunk" and "ch_data last_chunk = []"
    and "list_all (\<lambda>l. plain_line l \<and> l \<noteq> []) ls"
    and "length (write_chunks cs) + length (size_line last_chunk) + length (crlf_lines ls) + 4 \<le> MAX_BODY_BYTES"
    and "length (crlf_lines ls) + 2 \<le> MAX_HEADER_BYTES"
    and "from_utf8 (concat (map ch_data cs)) = Some s"
  shows "read_http_response_body parse reader = Inr s"
proof -
  define ps where "ps = map (\<lambda>c. (size_line c, ch_data c)) cs"
  have ps: "write_chunks cs = encode_chunks ps" "concat (map ch_data cs) = concat (map snd ps)"
    by (simp_all add: ps_def write_chunks_def encode_chunks_def comp_def)
  have "chunk_read p" if "p \<in> set ps" for p
    using that assms(9,13) chunk_size_line chunk_fits by (fastforce simp: ps_def chunk_read_def list_all_iff)
  moreover have "plain_line (size_line last_chunk)" "chunk_size (size_line last_chunk) = Inr 0"
    using chunk_size_line [OF assms(10)] assms(11) by simp_all
  moreover obtain buf r where h: "read_until_headers reader [] = Inr (length head, buf, r)" "data_only r" "take (length head) buf = head"
    and d: "drop (length head) buf @ stream_of r = [] @ encode_chunks ps @ size_line last_chunk @ CRLF @ crlf_lines ls @ CRLF @ rest"
    using head_ahead [OF assms(1-4)] by (auto simp: ps)
  ultimately have "read_chunks r (drop (length head) buf) [] (length ([] :: bytes)) = Inr ([] @ concat (map snd ps))"
    using assms by (intro chunks_read [OF h(2) d]) (simp_all add: list_all_iff ps)
  then have "response_body response r (drop (length head) buf) = Inr (concat (map snd ps))"
    using assms(7,8) by (simp add: response_body_def read_chunked_body_def)
  then show ?thesis
    using h(1,3) assms(5,6,15) by (simp add: read_http_response_body_def Let_def ps)
qed

theorem chunked_response_decoded_witness:
  "read_http_response_body (ok_parser [(''Transfer-Encoding'', as_bytes ''Chunked'')])
     [Data (ok_head @ as_bytes ''0''), Data (as_bytes ''B ;x=y'' @ CRLF @ as_bytes ''hello ''),
      Data (as_bytes ''world'' @ CRLF @ as_bytes ''0'' @ CRLF @ [0x0d]), Data [0x0a]] = Inr ''hello world''"
proof -
  let ?hs = "[(''Transfer-Encoding'', as_bytes ''Chunked'')]"
  let ?r = "[Data (ok_head @ as_bytes ''0''), Data (as_bytes ''B ;x=y'' @ CRLF @ as_bytes ''hello ''),
      Data (as_bytes ''world'' @ CRLF @ as_bytes ''0'' @ CRLF @ [0x0d]), Data [0x0a]]"
  let ?c = "\<lparr>ch_digits = [(False, 0), (True, 11)], ch_blanks = 1, ch_extension = Some ''x=y'', ch_data = as_bytes ''hello world''\<rparr>"
  let ?last = "\<lparr>ch_digits = [(False, 0)], ch_blanks = 0, ch_extension = None, ch_data = []\<rparr>"
  have r: "data_only ?r" "stream_of ?r = ok_head @ write_chunks [?c] @ size_line ?last @ CRLF @ crlf_lines [] @ CRLF @ []"
    by code_simp+
  have h: "is_chunked ?hs" "content_length ?hs = Inr None" by code_simp+
  have c: "list_all (\<lambda>c. chunk_ok c \<and> ch_data c \<noteq> []) [?c]" "chunk_ok ?last" "ch_data ?last = []"
    "list_all (\<lambda>l. plain_line l \<and> l \<noteq> []) []"
    by code_simp+
  have "length (write_chunks [?c]) + length (size_line ?last) + length (crlf_lines []) + 4 = 27" by code_simp
  then have n: "length (write_chunks [?c]) + length (size_line ?last) + length (crlf_lines []) + 4
      \<le> MAX_BODY_BYTES" "length (crlf_lines []) + 2 \<le> MAX_HEADER_BYTES"
    "from_utf8 (concat (map ch_data [?c])) = Some ''hello world''"
    by (simp_all add: MAX_BODY_BYTES_def MAX_HEADER_BYTES_def crlf_lines_def) code_simp
  show ?thesis
    by (rule chunked_response_decoded [OF r ok_head_ends _ _ _ _ c n, where response = "\<lparr>hr_code = Some 200, hr_headers = ?hs\<rparr>"])
       (simp_all add: ok_parser_def h)
qed

end
