(* ===== verification/Default_Domains.thy ===== *)
theory Default_Domains
  imports Http
begin

text \<open>
  The default Cloudflare domain list (\<open>rust/src/default_domains.rs\<close>): undoing the letter shift of the
  published list, parsing it, fetching it over HTTPS and falling back to the embedded list.
\<close>

section \<open>The model\<close>

definition REAL_SUFFIX :: string where "REAL_SUFFIX = ''.co.uk''"

definition FALLBACK_ENCODED :: "string list" where
  "FALLBACK_ENCODED =
     [''virkgj.com'', ''vmmzovy.com'', ''mkuosckvso.com'', ''zaewayzmplad.com'', ''twdmbzcm.com'']"

definition is_ascii_lowercase :: "char \<Rightarrow> bool" where
  "is_ascii_lowercase c \<longleftrightarrow> 97 \<le> (of_char c :: nat) \<and> (of_char c :: nat) \<le> 122"

definition is_ascii_uppercase :: "char \<Rightarrow> bool" where
  "is_ascii_uppercase c \<longleftrightarrow> 65 \<le> (of_char c :: nat) \<and> (of_char c :: nat) \<le> 90"

definition is_ascii_alphabetic :: "char \<Rightarrow> bool" where
  "is_ascii_alphabetic c \<longleftrightarrow> is_ascii_lowercase c \<or> is_ascii_uppercase c"

text \<open>\<open>((c - base) - n).rem_euclid(26) + base\<close>, for any shift.\<close>

definition shift_from :: "int \<Rightarrow> int \<Rightarrow> char \<Rightarrow> char" where
  "shift_from base n c = char_of (nat (((of_char c - base) - n) mod 26 + base))"

definition shift_char :: "int \<Rightarrow> char \<Rightarrow> char" where
  "shift_char n c =
     (if is_ascii_lowercase c then shift_from 97 n c
      else if is_ascii_uppercase c then shift_from 65 n c
      else c)"

definition deobfuscate :: "string \<Rightarrow> string option" where
  "deobfuscate s =
     (case strip_suffix ''.com'' s of
        None \<Rightarrow> None
      | Some stem \<Rightarrow>
          let n = int (length (filter is_ascii_alphabetic stem)) in
          Some (map (shift_char n) stem @ REAL_SUFFIX))"

definition parse_domain_list :: "string \<Rightarrow> string list" where
  "parse_domain_list text =
     List.map_filter deobfuscate
       (filter (\<lambda>l. l \<noteq> [] \<and> \<not> starts_with ''#'' l) (map trim (lines_of text)))"

definition fallback_domains :: "string list" where
  "fallback_domains = List.map_filter deobfuscate FALLBACK_ENCODED"

definition domains_of_fetch :: "string + string \<Rightarrow> string list" where
  "domains_of_fetch fetched =
     (case fetched of
        Inr body \<Rightarrow>
          let domains = parse_domain_list body in if domains = [] then fallback_domains else domains
      | Inl _ \<Rightarrow> fallback_domains)"

definition DOMAINS_URL_HOST :: string where "DOMAINS_URL_HOST = ''raw.githubusercontent.com''"

definition DOMAINS_URL_PATH :: string where
  "DOMAINS_URL_PATH = ''/Flowseal/tg-ws-proxy/refs/heads/main/.github/cfproxy-domains.txt''"

definition fetch_default_domains_with_outbound ::
  "('w, 'st, 'tls, 'x) https_env_scheme \<Rightarrow> (('w, 'b) sys_scheme, string list) io" where
  "fetch_default_domains_with_outbound E =
     io_bind (https_get E DOMAINS_URL_HOST DOMAINS_URL_PATH) (\<lambda>r. io_return (domains_of_fetch r))"

definition fetch_default_domains ::
  "('w, 'st, 'tls, 'x) https_env_scheme \<Rightarrow> (('w, 'b) sys_scheme, string list) io" where
  "fetch_default_domains E = fetch_default_domains_with_outbound (E\<lparr>hs_outbound := outbound_direct\<rparr>)"

section \<open>Properties\<close>

text \<open>The encoder the published list is made with, from the module documentation: every letter of the prefix is moved forward
  as many places as the prefix has letters, from \<open>z\<close> on to \<open>a\<close>, and \<open>.com\<close> stands for the real suffix.\<close>

definition next_letter :: "char \<Rightarrow> char" where
  "next_letter c =
     (if c = CHR ''z'' then CHR ''a'' else if c = CHR ''Z'' then CHR ''A''
      else if is_ascii_alphabetic c then char_of (Suc (of_char c)) else c)"

definition obfuscate :: "string \<Rightarrow> string" where
  "obfuscate stem = map (next_letter ^^ length (filter is_ascii_alphabetic stem)) stem @ ''.com''"

lemma of_char_shift_from:
  assumes "0 \<le> base" "base \<le> 97"
  shows "(of_char (shift_from base n c) :: int) = ((of_char c - base) - n) mod 26 + base"
proof -
  let ?v = "((of_char c - base) - n) mod 26 + base"
  have v: "0 \<le> ?v" "?v < 256" using assms pos_mod_bound [of 26 "(of_char c - base) - n"] by auto
  have "(of_char (shift_from base n c) :: nat) = nat ?v mod 256" by (simp add: shift_from_def)
  then have "(of_char (shift_from base n c) :: nat) = nat ?v" using v by simp
  then have "int (of_char (shift_from base n c)) = ?v" using v by simp
  then show ?thesis by (simp add: of_nat_of_char)
qed

lemma int_char: "(of_char c :: int) = int (of_char c)"
  by (simp add: of_nat_of_char)

lemma lower_not_upper: "is_ascii_lowercase c \<Longrightarrow> \<not> is_ascii_uppercase c"
  by (simp add: is_ascii_lowercase_def is_ascii_uppercase_def)

lemma next_letter_code:
  assumes "base = 97 \<or> base = 65" "base \<le> (of_char c :: nat)" "(of_char c :: nat) \<le> base + 25"
  shows "(of_char (next_letter c) :: int) = (of_char c - int base + 1) mod 26 + int base"
proof -
  have z: "c = CHR ''z'' \<longleftrightarrow> (of_char c :: nat) = 122" "c = CHR ''Z'' \<longleftrightarrow> (of_char c :: nat) = 90"
    using of_char_eq_iff [of c "CHR ''z''", where ?'a = nat] of_char_eq_iff [of c "CHR ''Z''", where ?'a = nat] by simp_all
  have "is_ascii_alphabetic c"
    using assms by (auto simp: is_ascii_alphabetic_def is_ascii_lowercase_def is_ascii_uppercase_def)
  then have "(of_char (next_letter c) :: nat) =
      (if (of_char c :: nat) = base + 25 then base else Suc (of_char c))"
    using assms by (auto simp: next_letter_def z)
  then have "int (of_char (next_letter c)) = (int (of_char c) - int base + 1) mod 26 + int base"
    using assms(2,3) by (auto simp: mod_pos_pos_trivial)
  then show ?thesis by (simp add: of_nat_of_char)
qed

lemma shift_next_letter:
  "shift_char (n + 1) (next_letter c) = shift_char n c" "is_ascii_alphabetic (next_letter c) = is_ascii_alphabetic c"
proof -
  have step: "shift_from (int base) (n + 1) (next_letter c) = shift_from (int base) n c"
    if "base = 97 \<or> base = 65" "base \<le> (of_char c :: nat)" "(of_char c :: nat) \<le> base + 25" for base
  proof -
    have "(of_char (next_letter c) - int base - (n + 1)) mod 26 = ((of_char c - int base + 1) - (n + 1)) mod 26"
      unfolding next_letter_code [OF that] by (simp add: mod_diff_left_eq)
    then show ?thesis by (simp add: shift_from_def)
  qed
  have kind: "base \<le> (of_char (next_letter c) :: nat) \<and> (of_char (next_letter c) :: nat) \<le> base + 25"
    if "base = 97 \<or> base = 65" "base \<le> (of_char c :: nat)" "(of_char c :: nat) \<le> base + 25" for base
  proof -
    have "int (of_char (next_letter c)) = (of_char c - int base + 1) mod 26 + int base"
      using next_letter_code [OF that] by (simp add: of_nat_of_char)
    then show ?thesis using pos_mod_bound [of 26 "of_char c - int base + 1"] pos_mod_sign [of 26 "of_char c - int base + 1"] by linarith
  qed
  have low: "is_ascii_lowercase c \<Longrightarrow> is_ascii_lowercase (next_letter c)"
    and up: "is_ascii_uppercase c \<Longrightarrow> is_ascii_uppercase (next_letter c)"
    using kind [of 97] kind [of 65] by (simp_all add: is_ascii_lowercase_def is_ascii_uppercase_def)
  have other: "\<not> is_ascii_alphabetic c \<Longrightarrow> next_letter c = c"
    by (auto simp: next_letter_def is_ascii_alphabetic_def is_ascii_lowercase_def is_ascii_uppercase_def)
  show "is_ascii_alphabetic (next_letter c) = is_ascii_alphabetic c"
    by (cases "is_ascii_alphabetic c") (use low up other in \<open>force simp: is_ascii_alphabetic_def, simp\<close>)
  consider "is_ascii_lowercase c" | "is_ascii_uppercase c" | "\<not> is_ascii_alphabetic c"
    by (auto simp: is_ascii_alphabetic_def)
  then show "shift_char (n + 1) (next_letter c) = shift_char n c"
  proof cases
    case 1
    then show ?thesis using low step [of 97] by (simp add: shift_char_def is_ascii_lowercase_def)
  next
    case 2
    then show ?thesis
      using up lower_not_upper step [of 65] by (auto simp: shift_char_def is_ascii_uppercase_def)
  next
    case 3
    then show ?thesis using other by (simp add: shift_char_def is_ascii_alphabetic_def)
  qed
qed

lemma shift_none: "shift_char 0 c = c"
proof -
  have "shift_from base 0 c = c" if "base = 97 \<or> base = 65" "base \<le> of_char c" "of_char c \<le> base + 25" for base
  proof -
    have "(of_char (shift_from base 0 c) :: int) = (of_char c - base) mod 26 + base"
      using that(1) by (subst of_char_shift_from) auto
    also have "\<dots> = of_char c" using that by simp
    finally show ?thesis by (rule of_char_eqI)
  qed
  from this [of 97] this [of 65] show ?thesis
    unfolding shift_char_def is_ascii_lowercase_def is_ascii_uppercase_def int_char by auto
qed

lemma shift_back: "shift_char (int n) ((next_letter ^^ n) c) = c" "is_ascii_alphabetic ((next_letter ^^ n) c) = is_ascii_alphabetic c"
proof -
  have "shift_char (m + int n) ((next_letter ^^ n) c) = shift_char m c" for m
  proof (induction n)
    case (Suc n)
    have "m + int (Suc n) = (m + int n) + 1" by simp
    then show ?case using Suc by (simp only: funpow.simps comp_apply shift_next_letter)
  qed simp
  from this [of 0] show "shift_char (int n) ((next_letter ^^ n) c) = c" by (simp add: shift_none)
  show "is_ascii_alphabetic ((next_letter ^^ n) c) = is_ascii_alphabetic c"
    by (induction n) (simp_all add: shift_next_letter)
qed


lemma domains_of_fetch_usable:
  "domains_of_fetch fetched \<noteq> [] \<and> list_all (ends_with REAL_SUFFIX) (domains_of_fetch fetched)"
proof -
  have f: "fallback_domains \<noteq> []" by code_simp
  have "ends_with REAL_SUFFIX r" if "deobfuscate s = Some r" for s r
    using that by (auto simp: deobfuscate_def Let_def ends_with_def split: option.splits)
  then have "list_all (ends_with REAL_SUFFIX) (List.map_filter deobfuscate xs)" for xs
    by (induction xs) (auto simp: List.map_filter_simps split: option.splits)
  with f show ?thesis
    by (auto simp: domains_of_fetch_def Let_def parse_domain_list_def fallback_domains_def split: sum.splits)
qed

definition write_within :: "nat \<Rightarrow> ('w, 'st, 'tls, 'x) https_env_scheme \<Rightarrow> bool" where
  "write_within k E \<longleftrightarrow> (\<forall>tls d w. \<exists>r n w'. hs_write_op E tls d w = (Some (r, n), w') \<and> n \<le> k)"

lemma within_write:
  assumes "write_within k E"
  shows "returns_within k (perform (hs_write_op E tls d))"
  unfolding returns_within_def
proof
  fix s
  obtain r n w' where "hs_write_op E tls d (net s) = (Some (r, n), w')" "n \<le> k"
    using assms unfolding write_within_def by blast
  then show "fst (perform (hs_write_op E tls d) s) \<noteq> None \<and> clock s \<le> clock (snd (perform (hs_write_op E tls d) s))
      \<and> clock (snd (perform (hs_write_op E tls d) s)) \<le> clock s + k"
    by (simp add: perform_def)
qed

lemma within_case_sum:
  "(\<And>e. returns_within n (a e)) \<Longrightarrow> (\<And>y. returns_within n (b y)) \<Longrightarrow>
   returns_within n (case x of Inl e \<Rightarrow> a e | Inr y \<Rightarrow> b y)"
  by (cases x) simp_all

lemma within_https_get:
  assumes "write_within k E"
  shows "returns_within (FETCH_TIMEOUT + (FETCH_TIMEOUT + (k + FETCH_TIMEOUT))) (https_get E host path)"
  unfolding https_get_def https_get_with_tls_config_def
  by (rule within_bind [OF within_outbound_connect], intro within_case_sum within_case_option within_ret,
      rule within_bind [OF within_timeout], rule timing, intro within_case_sum within_case_option within_ret,
      rule within_bind [OF within_write [OF assms]], intro within_case_sum within_ret,
      rule within_timeout_return, intro timing)

text \<open>(C34) The start-up fetch ends and always yields domains, provided the request can be written: when writing it takes at most
  \<open>k\<close>, then within three times the fetch timeout and \<open>k\<close>, whatever the server answers or fails to answer, the fetch
  returns at least one domain and every domain ends in the real suffix; a refused connection, a bad
  response, an empty list and undecodable lines all end in the built-in domains. The write itself has no time limit.\<close>

theorem default_domains_fetched:
  assumes "write_within k E"
  shows "\<exists>ds t. fetch_default_domains_with_outbound E s = (Some ds, t) \<and> ds \<noteq> [] \<and> list_all (ends_with REAL_SUFFIX) ds
    \<and> clock t \<le> clock s + 3 * FETCH_TIMEOUT + k"
proof -
  obtain r t where "https_get E DOMAINS_URL_HOST DOMAINS_URL_PATH s = (Some r, t)"
      "clock t \<le> clock s + (FETCH_TIMEOUT + (FETCH_TIMEOUT + (k + FETCH_TIMEOUT)))"
    using within_Some [OF within_https_get [OF assms]] by blast
  then show ?thesis
    using domains_of_fetch_usable [of r]
    by (simp add: fetch_default_domains_with_outbound_def io_bind_def io_return_def)
qed

definition silent_server :: "(unit, unit, unit) https_env" where
  "silent_server =
     \<lparr>tcp_connect_op = (\<lambda>addr w. (Some (Inr (), 5), w)), http_connect_op = (\<lambda>st h p c w. (None, w)),
      socks5_connect_op = (\<lambda>a t c w. (None, w)), lookup_host_op = (\<lambda>h p w. (None, w)), hs_crates = no_crates,
      hs_outbound = outbound_direct, hs_httparse = (\<lambda>n h. Inl ''none''), hs_server_name_error = (\<lambda>n. None),
      hs_tls = example_tls, hs_tls_op = (\<lambda>cfg n st w. (Some (Inr (), 7), w)), hs_write_op = (\<lambda>tls d w. (Some (Inr (), 1), w)),
      hs_response_op = (\<lambda>tls w. (None, w))\<rparr>"

theorem default_domains_fetched_witness:
  "\<exists>ds t. fetch_default_domains_with_outbound silent_server \<lparr>clock = 0, net = ()\<rparr> = (Some ds, t) \<and> ds \<noteq> []
     \<and> clock t \<le> 30001"
proof -
  have "write_within 1 silent_server" by (simp add: write_within_def silent_server_def)
  from default_domains_fetched [OF this, of "\<lparr>clock = 0, net = ()\<rparr>"] show ?thesis
    by (auto simp: FETCH_TIMEOUT_def from_secs_def)
qed

end
