(* ===== verification/Server.thy ===== *)
theory Server
  imports Check Banner Certificates Session_Log Default_Domains "HOL-Library.Multiset"
begin

text \<open>
  The program itself (\<open>rust/src/main.rs\<close>): start-up from the parsed command line to the listening socket, and the
  accept loop with its semaphore. The installation of the TLS provider is left out; what the operating system
  answers (environment, terminal, limits file, log file, the probe of the local address) is a record, and so is the
  filter of the \<open>tracing_subscriber\<close> crate.
\<close>

section \<open>Start-up\<close>

definition log_level :: "config \<Rightarrow> string" where
  "log_level c = (if c_quiet c then ''off'' else if c_verbose c then ''debug'' else ''info'')"

text \<open>\<open>SocketAddr::from_str\<close>, as a recogniser.\<close>

definition read_port :: "string \<Rightarrow> bool" where
  "read_port s = (case s of c # cs \<Rightarrow> c = CHR '':'' \<and> read_number 10 (length cs) True 65536 cs = Some [] | [] \<Rightarrow> False)"

definition read_scope_id :: "string \<Rightarrow> string" where
  "read_scope_id s =
     (case s of
        c # cs \<Rightarrow> if c = CHR ''%'' then (case read_number 10 (length cs) True (2 ^ 32) cs of Some r \<Rightarrow> r | None \<Rightarrow> s) else s
      | [] \<Rightarrow> s)"

definition is_socket_addr :: "string \<Rightarrow> bool" where
  "is_socket_addr s \<longleftrightarrow>
     (case read_ipv4_addr s of Some r \<Rightarrow> read_port r | None \<Rightarrow> False)
     \<or> (case s of
          c # cs \<Rightarrow> c = CHR ''['' \<and>
            (case read_ipv6_addr cs of
               Some r \<Rightarrow> (case read_scope_id r of d # ds \<Rightarrow> d = CHR '']'' \<and> read_port ds | [] \<Rightarrow> False)
             | None \<Rightarrow> False)
        | [] \<Rightarrow> False)"

text \<open>\<open>expect("invalid listen address")\<close>: a host that is not a socket address panics.\<close>

definition listen_address :: "ipv4 option \<Rightarrow> config \<Rightarrow> string run" where
  "listen_address probe c =
     (let addr = bind_host probe c @ '':'' @ decimal (unat (c_port c))
      in if is_socket_addr addr then Done addr else Panic)"

record 'w os =
  os_environ :: "string \<Rightarrow> bytes option"
  os_env_filter :: "string option" \<comment> \<open>a valid filter in the environment\<close>
  os_filter_shows :: "string \<Rightarrow> log_line \<Rightarrow> bool" \<comment> \<open>\<open>EnvFilter\<close>: does a filter let a line through\<close>
  os_rng :: bytes
  os_log_file_ok :: "string \<Rightarrow> bool"
  os_stderr_terminal :: bool
  os_windows :: bool
  os_limits :: "string option"
  os_probe :: "ipv4 option"
  os_version :: string
  bind_op :: "string \<Rightarrow> ('w, string + unit) prim"

text \<open>What \<open>tracing_subscriber\<close> documents of a filter that is a bare level: \<open>off\<close> disables every event, and a level enables the
  events of that level and the more severe ones.\<close>

definition filter_levels :: "('w, 'x) os_scheme \<Rightarrow> bool" where
  "filter_levels S \<longleftrightarrow> (\<forall>l. \<not> os_filter_shows S ''off'' l \<and> os_filter_shows S ''info'' l \<and> os_filter_shows S ''debug'' l)"

text \<open>Where log lines go: a file, never coloured, or the console.\<close>

datatype log_target = LogFile string | Console bool

definition log_setup :: "('w, 'x) os_scheme \<Rightarrow> config \<Rightarrow> (string \<times> log_target) run" where
  "log_setup S c =
     (let env_filter = (case os_env_filter S of Some f \<Rightarrow> f | None \<Rightarrow> log_level c) in
      case c_log_file c of
        Some path \<Rightarrow> if os_log_file_ok S path then Done (env_filter, LogFile path) else Panic
      | None \<Rightarrow> let use_ansi = (os_stderr_terminal S \<and> \<not> os_windows S) in Done (env_filter, Console use_ansi))"

datatype startup =
  ExitStatus nat
| Listening config string nat log_target "log_line list"
    \<comment> \<open>final configuration, address, connection cap, and the lines of \<open>main\<close> that reached the log\<close>

definition extend_domains :: "string list \<Rightarrow> config \<Rightarrow> config" where
  "extend_domains fetched c = c\<lparr>c_cf_domains := c_cf_domains c @ fetched\<rparr>"

definition fetch_domains ::
  "('w, 'st, 'tls, 'y) https_env_scheme \<Rightarrow> config \<Rightarrow> (('w, 'b) sys_scheme, config \<times> log_line list) io" where
  "fetch_domains H c =
     (if c_default_domains c then
        io_bind (fetch_default_domains_with_outbound H) (\<lambda>fetched.
        io_return (extend_domains fetched c,
          [LogInfo (''Fetching default CF proxy domain list from GitHub'' @ [CHR 0xE2, CHR 0x80, CHR 0xA6]),
           LogInfo (''  Got '' @ decimal (length fetched) @ '' default CF domain(s)'')]))
      else io_return (c, []))"

text \<open>From the bound socket to the banner; a failed bind panics.\<close>

definition start_listening ::
  "('w, 'y) os_scheme \<Rightarrow> hex_crate \<Rightarrow> outbound_config \<Rightarrow> config \<Rightarrow> string \<times> log_target \<Rightarrow> log_line list
   \<Rightarrow> (('w, 'b) sys_scheme, startup) io" where
  "start_listening S H outbound c logging printed =
     io_bind (io_run (listen_address (os_probe S) c)) (\<lambda>addr.
     io_bind (perform (bind_op S addr)) (\<lambda>bound.
     if isl bound then io_run Panic
     else
       let fd_limit = soft_nofile_limit (os_limits S) :: 64 word in
       io_bind (io_run (banner H (os_probe S) (os_version S) outbound (c_fronting_domain c) fd_limit c)) (\<lambda>lines.
       io_return (Listening c addr (unat (fst (max_connections_for fd_limit c))) (snd logging)
         (filter (os_filter_shows S (fst logging)) (printed @ lines))))))"

definition main ::
  "('w, 'y) os_scheme \<Rightarrow> ('w, 'st, 'ws, 'x) check_env_scheme \<Rightarrow> ('w, 'st, 'tls, 'z) https_env_scheme
   \<Rightarrow> config \<Rightarrow> (('w, 'b) sys_scheme, startup) io" where
  "main S E H parsed =
     io_bind (io_run (from_args (p_hex E) (os_rng S) parsed)) (\<lambda>r.
     let c = fst r in
     case outbound_connector (e_crates E) (os_environ S) c of
       Inl e \<Rightarrow> io_return (ExitStatus 2)
     | Inr outbound \<Rightarrow>
         io_bind (io_run (log_setup S c)) (\<lambda>logging.
         io_bind (fetch_domains (H\<lparr>hs_outbound := outbound\<rparr>) c) (\<lambda>(c1, printed).
         if c_check c1 then
           io_bind (run_check_with_outbound (E\<lparr>e_outbound := outbound\<rparr>) c1) (\<lambda>r. io_return (ExitStatus (check_exit_code (fst r))))
         else start_listening S (p_hex E) outbound c1 logging printed)))"

text \<open>The runtime and the pool the clients share, and the warm-up task; the redirects come in the order the hash map yields them.\<close>

definition server_runtime :: "outbound_config \<Rightarrow> config \<Rightarrow> ('w, 'st, 'ws) env \<Rightarrow> ('w, 'st, 'ws) rt_env" where
  "server_runtime outbound c E =
     with_fronting (c_fronting_domain c) (from_secs (c_fronting_cooldown c)) (runtime_new (E\<lparr>e_outbound := outbound\<rparr>))"

definition server_pool ::
  "config \<Rightarrow> ('ws \<Rightarrow> 'w \<Rightarrow> bool \<times> 'w) \<Rightarrow> ('w, 'st, 'ws) rt_env \<Rightarrow> ('w, 'st, 'ws) pool_env" where
  "server_pool c poll R = with_runtime (c_pool_size c) (from_secs (c_pool_max_age c)) poll R"

definition server_warmup ::
  "('w, 'st, 'ws, 'x) pool_env_scheme \<Rightarrow> config \<Rightarrow> (u32 \<times> string) list \<Rightarrow> (('w, 'ws, 'b) pool_state_scheme, unit) io" where
  "server_warmup E c redirects = warmup E (c_skip_tls_verify c) redirects"

section \<open>The accept loop\<close>

text \<open>\<open>Acquiring\<close>: waiting for a permit. \<open>Accepting\<close>: holding one, waiting for a client. \<open>BackingOff d\<close>: holding one,
  sleeping after an error; the permit is dropped at the end of the iteration.\<close>

datatype accept_phase = Acquiring | Accepting | BackingOff nat

record 'st server =
  sv_permits :: nat
  sv_phase :: accept_phase
  sv_sessions :: "'st multiset"

definition EMFILE :: int where "EMFILE = 24"
definition ENFILE :: int where "ENFILE = 23"

definition backoff_after :: "int option \<Rightarrow> nat" where
  "backoff_after errno = (if errno = Some EMFILE \<or> errno = Some ENFILE then 500 else 50)"

definition serve_new :: "nat \<Rightarrow> 'st server" where
  "serve_new max_connections = \<lparr>sv_permits = max_connections, sv_phase = Acquiring, sv_sessions = {#}\<rparr>"

text \<open>A session's permit moves into its task and is released when the task ends, also when it panics.\<close>

inductive accept_step :: "'st server \<Rightarrow> 'st server \<Rightarrow> bool" where
  acquired: "sv_phase s = Acquiring \<Longrightarrow> 0 < sv_permits s \<Longrightarrow>
     accept_step s (s\<lparr>sv_permits := sv_permits s - 1, sv_phase := Accepting\<rparr>)"
| accepted: "sv_phase s = Accepting \<Longrightarrow>
     accept_step s (s\<lparr>sv_phase := Acquiring, sv_sessions := add_mset st (sv_sessions s)\<rparr>)"
| refused: "sv_phase s = Accepting \<Longrightarrow> accept_step s (s\<lparr>sv_phase := BackingOff (backoff_after errno)\<rparr>)"
| slept: "sv_phase s = BackingOff d \<Longrightarrow> accept_step s (s\<lparr>sv_permits := sv_permits s + 1, sv_phase := Acquiring\<rparr>)"
| finished: "st \<in># sv_sessions s \<Longrightarrow>
     accept_step s (s\<lparr>sv_permits := sv_permits s + 1, sv_sessions := sv_sessions s - {#st#}\<rparr>)"

inductive_cases accept_stepE: "accept_step s s'"

inductive accept_reach :: "nat \<Rightarrow> 'st server \<Rightarrow> bool" for n where
  start: "accept_reach n (serve_new n)"
| step: "accept_reach n s \<Longrightarrow> accept_step s s' \<Longrightarrow> accept_reach n s'"

section \<open>Properties\<close>

text \<open>What a run of \<open>main\<close> that listens has done.\<close>

lemma fetch_domains_Some:
  assumes "fetch_domains H c s = (Some (c1, printed), t)"
  shows "c1 = c \<and> \<not> c_default_domains c \<or> (\<exists>ds. c1 = extend_domains ds c \<and> ds \<noteq> [])"
  using assms domains_of_fetch_usable
  by (auto simp: fetch_domains_def fetch_default_domains_with_outbound_def io_bind_Some io_return_Some split: if_splits)

lemma start_listening_Some:
  assumes "start_listening S H outbound c logging printed s = (Some (Listening c1 addr cap target lines), t)"
  obtains more where "c1 = c" "listen_address (os_probe S) c = Done addr"
    "cap = unat (fst (max_connections_for (soft_nofile_limit (os_limits S) :: 64 word) c))" "target = snd logging"
    "lines = filter (os_filter_shows S (fst logging)) (printed @ more)"
    "banner H (os_probe S) (os_version S) outbound (c_fronting_domain c) (soft_nofile_limit (os_limits S) :: 64 word) c
       = Done more"
  using assms
  by (auto simp: start_listening_def io_bind_Some io_run_Some io_return_Some Let_def split: if_splits)

lemma main_listens:
  assumes "main S E H parsed s = (Some (Listening c addr cap target lines), t)"
  obtains c0 rng outbound shown printed more where "from_args (p_hex E) (os_rng S) parsed = Done (c0, rng)"
    "c = c0 \<and> \<not> c_default_domains c0 \<or> (\<exists>ds. c = extend_domains ds c0 \<and> ds \<noteq> [])" "\<not> c_check c"
    "listen_address (os_probe S) c = Done addr"
    "cap = unat (fst (max_connections_for (soft_nofile_limit (os_limits S) :: 64 word) c))"
    "log_setup S c0 = Done (shown, target)" "lines = filter (os_filter_shows S shown) (printed @ more)"
    "banner (p_hex E) (os_probe S) (os_version S) outbound (c_fronting_domain c)
       (soft_nofile_limit (os_limits S) :: 64 word) c = Done more"
proof -
  obtain c0 rng where args: "from_args (p_hex E) (os_rng S) parsed = Done (c0, rng)"
    using assms by (auto simp: main_def io_bind_Some io_run_Some)
  note run = assms [unfolded main_def args Let_def]
  obtain outbound where "outbound_connector (e_crates E) (os_environ S) c0 = Inr outbound"
    using run by (cases "outbound_connector (e_crates E) (os_environ S) c0") (simp_all add: io_bind_Some io_run_Some io_return_Some)
  then obtain c1 logging printed s2 where log: "log_setup S c0 = Done logging"
    and fetch: "fetch_domains (H\<lparr>hs_outbound := outbound\<rparr>) c0 s = (Some (c1, printed), s2)"
    and rest: "(if c_check c1 then io_bind (run_check_with_outbound (E\<lparr>e_outbound := outbound\<rparr>) c1)
          (\<lambda>r. io_return (ExitStatus (check_exit_code (fst r))))
        else start_listening S (p_hex E) outbound c1 logging printed) s2 = (Some (Listening c addr cap target lines), t)"
    using run by (auto simp: io_bind_Some io_run_Some)
  from rest have n: "\<not> c_check c1"
      "start_listening S (p_hex E) outbound c1 logging printed s2 = (Some (Listening c addr cap target lines), t)"
    by (auto simp: io_bind_Some io_return_Some split: if_splits)
  show thesis
    by (rule start_listening_Some [OF n(2)], rule that [OF args, where shown = "fst logging" and printed = printed])
       (use n(1) log fetch_domains_Some [OF fetch] in auto)
qed

text \<open>The filter in force: the environment's, or the level of the command line.\<close>

lemma log_setup_Done:
  "log_setup S c = Done (shown, target) \<Longrightarrow>
   shown = (case os_env_filter S of Some f \<Rightarrow> f | None \<Rightarrow> log_level c)
   \<and> (case c_log_file c of Some path \<Rightarrow> target = LogFile path
      | None \<Rightarrow> target = Console (os_stderr_terminal S \<and> \<not> os_windows S))"
  by (auto simp: log_setup_def Let_def split: option.splits if_splits)

definition held :: "accept_phase \<Rightarrow> nat" where
  "held ph = (if ph = Acquiring then 0 else 1)"

text \<open>No permit is lost or invented.\<close>

lemma permits_conserved: "accept_reach n s \<Longrightarrow> sv_permits s + size (sv_sessions s) + held (sv_phase s) = n"
proof (induction rule: accept_reach.induct)
  case start
  show ?case by (simp add: serve_new_def held_def)
next
  case (step s s')
  from step.hyps(2) step.IH show ?case
    by (cases rule: accept_step.cases) (auto simp: held_def size_Diff_singleton dest: multi_member_split)
qed


definition example_os :: "(string list) os" where
  "example_os =
     \<lparr>os_environ = (\<lambda>_. None), os_env_filter = None, os_filter_shows = (\<lambda>f l. f \<noteq> ''off''), os_rng = replicate 20 7, os_log_file_ok = (\<lambda>_. True),
      os_stderr_terminal = True, os_windows = False, os_limits = None, os_probe = None, os_version = ''1.0'',
      bind_op = (\<lambda>addr w. (Some (Inr (), 0), w))\<rparr>"

definition example_https :: "(string list, unit, unit) https_env" where
  "example_https =
     \<lparr>tcp_connect_op = (\<lambda>addr w. (Some (Inr (), 5), w)), http_connect_op = (\<lambda>st h p c w. (None, w)),
      socks5_connect_op = (\<lambda>a t c w. (None, w)), lookup_host_op = (\<lambda>h p w. (None, w)), hs_crates = no_crates,
      hs_outbound = outbound_direct, hs_httparse = (\<lambda>n h. Inl ''none''), hs_server_name_error = (\<lambda>n. None),
      hs_tls = example_tls, hs_tls_op = (\<lambda>cfg n st w. (None, w)), hs_write_op = (\<lambda>tls d w. (None, w)),
      hs_response_op = (\<lambda>tls w. (None, w))\<rparr>"

lemma example_listens:
  "\<exists>c addr cap target lines t. main example_os example_check example_https example_config \<lparr>clock = 0, net = []\<rparr>
     = (Some (Listening c addr cap target lines), t) \<and> \<not> c_quiet c"
proof -
  have crates: "e_crates example_check = no_crates"
    by (simp add: example_check_def example_session_defs session_env.extend_def)
  obtain c rng where c: "from_args lower_hex (replicate 20 7) example_config = Done (c, rng)"
    by (simp add: from_args_def with_defaults_def example_config_def fill_bytes_def Let_def)
  then have f: "c_host c = None" "c_port c = 1443" "\<not> c_default_domains c" "\<not> c_check c" "c_log_file c = None"
      "c_outbound_proxy c = None" "c_no_proxy c = None" "c_secrets c = [hex_encode lower_hex (replicate 16 7)]"
      "c_listen_faketls_domain c = None" "\<not> c_quiet c"
    by (auto simp: from_args_def with_defaults_def example_config_def fill_bytes_def Let_def)
  have out: "outbound_connector no_crates (\<lambda>_. None) c = Inr outbound_direct"
    using f by (simp add: outbound_connector_def from_config_def from_sources_def from_sources_with_env_def select_proxy_def
        env_value_def proxy_env_names_def outbound_direct_def)
  have "digit_of 10 (CHR ''1'') = Some 1" "digit_of 10 (CHR ''2'') = Some 2" "digit_of 10 (CHR ''7'') = Some 7"
     "digit_of 10 (CHR ''0'') = Some 0" "digit_of 10 (CHR ''4'') = Some 4" "digit_of 10 (CHR ''3'') = Some 3"
     "digit_of 10 (CHR ''.'') = None" "digit_of 10 (CHR '':'') = None" by code_simp+
  then have sock: "is_socket_addr ''127.0.0.1:1443''"
    by (simp add: is_socket_addr_def read_ipv4_addr_def read_separator_def read_number_def upt_conv_Cons read_port_def)
  have dec: "bind_host None c @ '':'' @ decimal (unat (c_port c)) = ''127.0.0.1:1443''"
    using f by (simp add: bind_host_def detect_lan_ip_def) code_simp
  have addr: "listen_address None c = Done ''127.0.0.1:1443''"
    unfolding listen_address_def Let_def dec using sock by simp
  have "\<exists>links. banner_links lower_hex None c = Done links"
    using f by (auto simp: banner_links_def tg_link_def extra_links_def link_secret_def link_secret_for_def primary_secret_def
       listen_faketls_domain_def decode_secret_key_def hex_decode_encode [OF lower_hex_ok] split: option.split)
  then obtain lines where ban: "banner lower_hex None ''1.0'' outbound_direct (c_fronting_domain c)
      (soft_nofile_limit None :: 64 word) c = Done lines"
    by (auto simp: banner_def Let_def)
  show ?thesis
    using f by (simp add: main_def example_os_def c crates out log_setup_def fetch_domains_def start_listening_def addr ban
        io_bind_def io_run_def io_return_def perform_def)
qed


text \<open>(C29) The accept loop serves up to its cap and no further, for any configuration: in every run, with any errors of
  \<open>accept\<close> and any endings of sessions, the running sessions, the free permits and the one the loop holds add up to the
  cap. So there are never more sessions than the cap; at the cap the loop waits and takes no client; below it, the loop is
  taking a client, backing off, or has a permit to take. When the cap is the automatic one (no \<open>--max-connections\<close>),
  the descriptor limit is finite, it leaves room for the listener, the reserve, the pool's slots and the minimum of four connections,
  and the sizes are representable, then the listener, the reserve, the pool's slots and two
  descriptors for every session fit the limit.\<close>

theorem accept_within_budget:
  fixes fd_limit :: "'u::len word"
  assumes "accept_reach (unat (fst (max_connections_for fd_limit c))) s"
  defines "cap \<equiv> unat (fst (max_connections_for fd_limit c))"
    and "reserved \<equiv> 1 + 32 + 2 * (c_pool_size c * dc_buckets c)"
  shows "sv_permits s + size (sv_sessions s) + (if sv_phase s = Acquiring then 0 else 1) = cap
    \<and> size (sv_sessions s) \<le> cap
    \<and> (size (sv_sessions s) = cap \<longrightarrow> sv_phase s = Acquiring \<and> sv_permits s = 0)
    \<and> (size (sv_sessions s) < cap \<longrightarrow> sv_phase s \<noteq> Acquiring \<or> 0 < sv_permits s)
    \<and> (c_max_connections c = None \<and> fd_limit \<noteq> - 1 \<and> reserved + 2 * 4 \<le> unat fd_limit
       \<and> 16 \<le> LENGTH('u) \<and> c_pool_size c < 2 ^ LENGTH('u) \<and> dc_buckets c < 2 ^ LENGTH('u)
       \<longrightarrow> reserved + 2 * size (sv_sessions s) \<le> unat fd_limit)"
proof -
  have k: "sv_permits s + size (sv_sessions s) + held (sv_phase s) = cap"
    using permits_conserved [OF assms(1)] by (simp add: cap_def)
  moreover have "reserved + 2 * cap \<le> unat fd_limit"
    if auto: "c_max_connections c = None" "fd_limit \<noteq> - 1" "reserved + 2 * 4 \<le> unat fd_limit" "16 \<le> LENGTH('u)"
      and small: "c_pool_size c < 2 ^ LENGTH('u)" "dc_buckets c < 2 ^ LENGTH('u)"
  proof -
    have "unat (of_nat (c_pool_size c) :: 'u word) = c_pool_size c" "unat (of_nat (dc_buckets c) :: 'u word) = dc_buckets c"
      using small by (simp_all add: unsigned_of_nat take_bit_eq_mod)
    then have "cap = max ((unat fd_limit - reserved) div 2) 4"
      using auto_max_closed_form [OF auto(4,2), of "of_nat (c_pool_size c)" "of_nat (dc_buckets c)"] auto(1)
      by (simp add: cap_def reserved_def max_connections_for_def Let_def)
    with auto(3) show ?thesis by (simp add: max_def) linarith
  qed
  ultimately show ?thesis by (fastforce simp: held_def split: if_splits)
qed

theorem accept_within_budget_witness:
  "\<exists>s :: unit server. accept_reach (unat (fst (max_connections_for (1024 :: 64 word) example_config))) s
     \<and> size (sv_sessions s) = 1 \<and> sv_permits s = 494 \<and> sv_permits s + size (sv_sessions s) = 495
     \<and> 33 + 2 * (4 * 0) + 2 * size (sv_sessions s) \<le> unat (1024 :: 64 word)"
proof -
  let ?n = "unat (fst (max_connections_for (1024 :: 64 word) example_config))"
  have c: "c_max_connections example_config = None" "c_pool_size example_config = 4" "dc_buckets example_config = 0"
    by (simp_all add: example_config_def dc_buckets_def)
  have n: "?n = 495"
    using auto_max_closed_form [of "1024 :: 64 word" "of_nat 4" "of_nat 0"] c by (simp add: max_connections_for_def Let_def)
  let ?s = "\<lparr>sv_permits = 494, sv_phase = Acquiring, sv_sessions = {#()#}\<rparr>"
  have "accept_step (serve_new 495 :: unit server) ((serve_new 495)\<lparr>sv_permits := 494, sv_phase := Accepting\<rparr>)"
    using accept_step.acquired [of "serve_new 495 :: unit server"] by (simp add: serve_new_def)
  then have "accept_reach 495 ((serve_new 495 :: unit server)\<lparr>sv_permits := 494, sv_phase := Accepting\<rparr>)"
    by (rule accept_reach.step [OF accept_reach.start])
  moreover have "accept_step ((serve_new 495 :: unit server)\<lparr>sv_permits := 494, sv_phase := Accepting\<rparr>) ?s"
    using accept_step.accepted [of "(serve_new 495 :: unit server)\<lparr>sv_permits := 494, sv_phase := Accepting\<rparr>" "()"]
    by (simp add: serve_new_def)
  ultimately have r: "accept_reach ?n ?s" unfolding n by (rule accept_reach.step)
  from accept_within_budget [OF r] r show ?thesis by (intro exI [of _ ?s]) (simp add: n c)
qed

text \<open>The listen address is built without brackets, so an IPv6 host panics, although the start-up messages and
  \<open>link_host\<close> treat \<open>::1\<close> as a valid setting.\<close>

lemma ipv6_host_panics:
  assumes "c_host c = Some (CHR '':'' # rest)"
  shows "listen_address probe c = Panic"
proof -
  have "digit_of 10 (CHR '':'') = None" by code_simp
  then have "read_ipv4_addr (CHR '':'' # xs) = None" for xs
    by (simp add: read_ipv4_addr_def read_separator_def read_number_def upt_conv_Cons)
  then show ?thesis using assms by (simp add: listen_address_def bind_host_def is_socket_addr_def)
qed

text \<open>With a cap of zero the loop never takes a client.\<close>

lemma zero_cap_serves_nobody: "accept_reach 0 s \<Longrightarrow> sv_sessions s = {#} \<and> sv_phase s = Acquiring"
  using permits_conserved [of 0 s] by (auto simp: held_def split: if_splits)

end
