(* ===== verification/Chain.thy ===== *)
theory Chain
  imports Session Banner
begin

text \<open>
  Two proxies in a row. One instance prints a link (\<open>rust/src/main.rs\<close>, \<open>rust/src/config.rs\<close>); another is given it as an upstream
  proxy and connects (\<open>connect_mtproto_upstream\<close> of \<open>rust/src/proxy.rs\<close>). What the second writes to the wire is what the
  inbound side of the first accepts, and their ciphers are mirror images.
\<close>

section \<open>What is written\<close>

text \<open>\<open>sent w st\<close> is what the program has written to \<open>st\<close> since it was opened: a new stream is empty, a completed write
  appends, and opening a tunnel, waiting for the peer and drawing random bytes write nothing.\<close>

definition records_writes :: "('w, 'st, 'ws, 'x) proxy_env_scheme \<Rightarrow> ('w \<Rightarrow> 'st \<Rightarrow> bytes) \<Rightarrow> bool" where
  "records_writes E sent \<longleftrightarrow>
     (\<forall>a w st d w'. tcp_connect_op E a w = (Some (Inr st, d), w') \<longrightarrow> sent w' st = [])
     \<and> (\<forall>a target c w st d w'. socks5_connect_op E a target c w = (Some (Inr st, d), w') \<longrightarrow> sent w' st = [])
     \<and> (\<forall>st h p c w r w'. http_connect_op E st h p c w = (r, w') \<longrightarrow> sent w' st = sent w st)
     \<and> (\<forall>st b w u d w'. write_op E st b w = (Some (Inr u, d), w') \<longrightarrow> sent w' st = sent w st @ b)
     \<and> (\<forall>st w r w'. flight_op E st w = (r, w') \<longrightarrow> sent w' st = sent w st)
     \<and> (\<forall>st w r w'. random_op E w = (r, w') \<longrightarrow> sent w' st = sent w st)"

lemma timed_connect_Inr:
  assumes "io_bind (timeout limit m) (\<lambda>r. io_return (classify_connect late r)) s = (Some (Inr st), t)"
  shows "m s = (Some (Inr st), t)"
proof -
  obtain r where r: "timeout limit m s = (Some r, t)" "classify_connect late r = Inr st"
    using assms by (auto simp: io_bind_Some io_return_Some)
  then have "r = Some (Inr st)" by (auto simp: classify_connect_def split: option.splits sum.splits)
  with r(1) have "timeout limit m s = (Some (Some (Inr st)), t)" by simp
  then show ?thesis by (rule timeout_Some_Some)
qed

lemma outbound_connect_fresh:
  assumes "records_writes E sent" "outbound_connect E C cfg h p limit s = (Some (Inr st), t)"
  shows "sent (net t) st = []"
proof -
  have tcp: "sent (net u) x = []" if "connect_tcp E host port s' = (Some (Inr x), u)" for host port s' x u
    using that assms(1)
    by (auto simp: connect_tcp_def io_result_Inr perform_Some io_return_Some records_writes_def)
  have "connect_direct E h p limit s = (Some (Inr st), t) \<Longrightarrow> sent (net t) st = []"
    unfolding connect_direct_def by (rule tcp) (rule timed_connect_Inr)
  moreover have "sent (net t) st = []" if via: "connect_via_proxy E proxy h p s = (Some (Inr st), t)" for proxy
  proof (cases "pc_kind proxy")
    case Http
    then obtain u v where "connect_tcp E (pc_host proxy) (pc_port proxy) s = (Some (Inr st), u)"
        "perform (http_connect_op E st (http_host h) p (proxy_credentials proxy)) u = (Some (Inr v), t)"
      using via by (auto simp: connect_via_proxy_def connect_http_proxy_def io_result_Inr io_return_Some)
    with tcp assms(1) show ?thesis by (fastforce simp: perform_Some records_writes_def)
  next
    case (Socks5 remote)
    then show ?thesis
      using via assms(1)
      by (auto simp: connect_via_proxy_def connect_socks5_proxy_def io_result_Inr io_return_Some Let_def perform_Some
          records_writes_def)
  qed
  ultimately show ?thesis
    using assms(2) unfolding outbound_connect_def
    by (auto split: option.splits if_splits dest: timed_connect_Inr)
qed

lemma write_records_sent:
  "records_writes E sent \<Longrightarrow> write_records E st cs s = (Some (Inr u), t) \<Longrightarrow>
   sent (net t) st = sent (net s) st @ concat (map (\<lambda>c. appdata_header (length c) @ c) cs)"
proof (induction cs arbitrary: s)
  case (Cons c cs)
  then obtain s1 s2 v w where
    "perform (write_op E st (appdata_header (length c))) s = (Some (Inr v), s1)"
    "perform (write_op E st c) s1 = (Some (Inr w), s2)" "write_records E st cs s2 = (Some (Inr u), t)"
    by (auto simp: io_result_Inr)
  with Cons show ?case by (fastforce simp: perform_Some records_writes_def)
qed (simp add: io_return_Some)

lemma upstream_wire:
  assumes "records_writes E sent"
    and "connect_mtproto_upstream E host port secret_hex dc_idx proto limit s = (Some (Some conn), t)"
  obtains secret rng h rest where "hex_decode (p_hex E) secret_hex = Some secret"
    "generate_client_handshake (p_prims E) (secret_key secret) dc_idx proto rng = Done ((h, uc_enc conn, uc_dec conn), rest)"
    "case faketls_hostname secret of
       None \<Rightarrow> \<not> uc_faketls conn \<and> sent (net t) (uc_stream conn) = h
     | Some host_bytes \<Rightarrow> uc_faketls conn \<and> (\<exists>hostname sid now hello.
         from_utf8 host_bytes = Some hostname \<and> length sid = 32
         \<and> sign_faketls_client_hello (p_prims E) now (client_hello_record (as_bytes hostname) sid) (secret_key secret) = Done hello
         \<and> sent (net t) (uc_stream conn) = hello @ appdata_wire h)"
proof (rule upstream_opened [OF assms(2)])
  fix secret s1 rng d s2 h rest
  let ?st = "uc_stream conn"
  assume sec: "hex_decode (p_hex E) secret_hex = Some secret"
    and out: "outbound_connect E (e_crates E) (e_outbound E) host port limit s = (Some (Inr ?st), s1)"
    and rnd: "random_op E (net s1) = (Some (rng, d), net s2)"
    and gen: "generate_client_handshake (p_prims E) (secret_key secret) dc_idx proto rng = Done ((h, uc_enc conn, uc_dec conn), rest)"
    and rest: "case faketls_hostname secret of
       None \<Rightarrow> \<not> uc_faketls conn \<and> (\<exists>u. perform (write_op E ?st h) s2 = (Some (Inr u), t))
     | Some host_bytes \<Rightarrow> uc_faketls conn \<and> (\<exists>hostname built hello now u v s3 s4 input.
         from_utf8 host_bytes = Some hostname \<and> build_faketls_client_hello hostname rest = Done built
         \<and> sign_faketls_client_hello (p_prims E) now (fst built) (secret_key secret) = Done hello
         \<and> perform (write_op E ?st hello) s2 = (Some (Inr u), s3) \<and> perform (flight_op E ?st) s3 = (Some input, s4)
         \<and> drain_faketls_server_hello input = (True, uc_pending conn)
         \<and> write_records E ?st (chunks TLS_MAX_APPDATA_WRITE h) s4 = (Some (Inr v), t))"
  have empty: "sent (net s2) ?st = []"
    using outbound_connect_fresh [OF assms(1) out] rnd assms(1) by (auto simp: records_writes_def)
  have wrote: "sent (net v) ?st = sent (net u) ?st @ b" if "perform (write_op E ?st b) u = (Some (Inr x), v)" for u v b x
    using that assms(1) by (auto simp: perform_Some records_writes_def)
  show thesis
  proof (cases "faketls_hostname secret")
    case None
    with rest obtain u where "\<not> uc_faketls conn" "perform (write_op E ?st h) s2 = (Some (Inr u), t)" by auto
    with None wrote [of h s2 u t] empty show ?thesis by (intro that [OF sec gen]) simp
  next
    case (Some hb)
    then obtain hostname built hello now u v s3 s4 input where tls: "uc_faketls conn" "from_utf8 hb = Some hostname"
        "build_faketls_client_hello hostname rest = Done built"
        "sign_faketls_client_hello (p_prims E) now (fst built) (secret_key secret) = Done hello"
        "perform (write_op E ?st hello) s2 = (Some (Inr u), s3)" "perform (flight_op E ?st) s3 = (Some input, s4)"
        "write_records E ?st (chunks TLS_MAX_APPDATA_WRITE h) s4 = (Some (Inr v), t)"
      using rest by auto
    define sid where "sid = take 32 rest"
    have sid: "length sid = 32" "fst built = client_hello_record (as_bytes hostname) sid"
      using tls(3) by (auto simp: build_faketls_client_hello_def run_bind_eq_Done fill_bytes_def sid_def split: if_splits)
    have "sent (net s4) ?st = hello"
      using wrote [OF tls(5)] empty tls(6) assms(1) by (auto simp: perform_Some records_writes_def)
    then have "sent (net t) ?st = hello @ concat (map (\<lambda>c. appdata_header (length c) @ c) (chunks TLS_MAX_APPDATA_WRITE h))"
      using write_records_sent [OF assms(1) tls(7)] by simp
    also have "map (\<lambda>c. appdata_header (length c) @ c) (chunks TLS_MAX_APPDATA_WRITE h)
        = map (tls_record TLS_RECORD_APPLICATION_DATA 0x03 0x03) (chunks TLS_MAX_APPDATA_WRITE h)"
      using chunks_bounds [of TLS_MAX_APPDATA_WRITE h]
      by (intro map_cong refl appdata_header_eq) (auto simp: layout_simps)
    finally have "sent (net t) ?st = hello @ appdata_wire h" by (simp add: appdata_wire_def)
    with Some tls sid show ?thesis by (intro that [OF sec gen]) auto
  qed
qed

section \<open>What is accepted\<close>

lemma signed_hello_record:
  assumes "prims_ok P" "length sid = 32"
    and "sign_faketls_client_hello P ts (client_hello_record (as_bytes host) sid) key = Done hello"
  shows "\<exists>payload. hello = tls_record 0x16 0x03 0x01 payload \<and> length payload = 175 + length host"
proof -
  let ?h = "as_bytes host"
  define r where "r = signed_random P ts key (hello_prefix ?h @ replicate 32 0 @ hello_suffix ?h sid)"
  have r: "length r = 32" "hello = hello_prefix ?h @ r @ hello_suffix ?h sid"
    using sign_layout [OF assms(1), of "hello_prefix ?h" "replicate 32 0" ts "hello_suffix ?h sid" key] assms
    by (simp_all add: client_hello_layout r_def)
  define p where "p = drop 5 hello"
  have len: "length p = 175 + length host" using r assms(2) by (simp add: p_def length_hello_suffix)
  have "u16_to_be (of_nat (length p)) = [u16_to_be (of_nat (length p)) ! 0, u16_to_be (of_nat (length p)) ! Suc 0]"
    by (rule u16_to_be_unfold)
  then have "hello = tls_record 0x16 0x03 0x01 p"
    using r by (simp add: tls_record_def p_def [symmetric] len) (simp add: p_def hello_prefix_def Let_def r(2))
  with len show ?thesis by blast
qed

lemma hello_admitted:
  assumes "prims_ok P" "valid_string host" "length host \<le> 16000" "length sid = 32"
    and "sign_faketls_client_hello P ts (client_hello_record (as_bytes host) sid) key = Done hello"
  shows "authentic_hello P (key # keys) host (hello @ later)"
proof -
  obtain payload where p: "hello = tls_record 0x16 0x03 0x01 payload" "length payload = 175 + length host"
    using signed_hello_record [OF assms(1,4,5)] by blast
  obtain parsed where "parse_faketls_client_hello P hello key = Some parsed" "fh_hostname parsed = Some host"
    using signed_hello_parses [OF assms(1,2) _ assms(4), of ts key] assms(3,5) by auto
  moreover have "read_tls_record (TLS_MAX_RECORD_PAYLOAD + TLS_READ_HEADROOM) (hello @ later)
      = (TlsRecord 0x16 [0x03, 0x01] payload, later)"
    unfolding p(1) by (rule read_tls_record_wire) (use p(2) assms(3) in \<open>simp_all add: layout_simps\<close>)
  ultimately show ?thesis
    using p(1) by (simp add: authentic_hello_def tls_record_def) (simp add: layout_simps)
qed

lemma init_reassembled:
  assumes "length h = 64"
  shows "fill_handshake [] (appdata_wire h @ later) = (Some (h, []), later)"
proof -
  have "h \<noteq> []" using assms by auto
  then have w: "appdata_wire h = tls_record TLS_RECORD_APPLICATION_DATA 0x03 0x03 h"
    using appdata_wire_step [of h] assms by simp
  have "read_tls_appdata (TLS_MAX_RECORD_PAYLOAD + TLS_READ_HEADROOM) (appdata_wire h @ later) = (h, later)"
    unfolding w by (rule read_appdata_record) (use assms in \<open>simp_all add: layout_simps\<close>)
  moreover have "fill_handshake h later = (Some (h, []), later)"
    using assms by (simp add: fill_handshake.simps [of h])
  ultimately show ?thesis
    using assms \<open>h \<noteq> []\<close> by (simp add: fill_handshake.simps [of "[]"] Let_def)
qed

section \<open>Property\<close>

lemma link_decodes:
  assumes "hex_ok H" "plain_or_prefixed raw" "length (secret_key raw) = 16"
    and "c_secrets c = hex_encode H raw # others" "link_secret H c = Done link"
    and "\<forall>d. listen_faketls_domain H c = Some d \<longrightarrow> d \<noteq> [] \<and> valid_string d"
  shows "\<exists>raw'. link = hex_encode H raw' \<and> secret_key raw' = secret_key raw
    \<and> (case listen_faketls_domain H c of
         Some d \<Rightarrow> faketls_hostname raw' = Some (as_bytes d)
       | None \<Rightarrow> \<forall>hb. faketls_hostname raw' = Some hb \<longrightarrow> from_utf8 hb = None)"
proof (cases "listen_faketls_domain H c")
  case None
  let ?raw' = "if has_mode_prefix raw then raw else 0xdd # raw"
  have "link = hex_encode H ?raw'"
    using link_secret_without_domain [OF assms(1,2) None] assms(4,5) by (simp add: link_secret_def primary_secret_def)
  moreover have "secret_key ?raw' = secret_key raw"
    using assms(2) by (auto simp: plain_or_prefixed_def secret_key_def has_mode_prefix_def layout_simps subrange_def)
  moreover have "from_utf8 hb = None" if "faketls_hostname ?raw' = Some hb" for hb
    using that None assms(4) hex_decode_encode [OF assms(1)]
    by (auto simp: listen_faketls_domain_def primary_secret_def faketls_hostname_def layout_simps split: if_splits option.splits)
  ultimately show ?thesis using None by auto
next
  case (Some d)
  let ?raw' = "0xee # secret_key raw @ as_bytes d"
  have "link = hex_encode H ?raw'"
    using Some assms(1,4,5)
    by (simp add: link_secret_def link_secret_for_def primary_secret_def decode_secret_key_def hex_decode_encode
        hex_encode_modes hex_encode_append)
  moreover have "secret_key ?raw' = secret_key raw"
    using assms(3) by (simp add: secret_key_def [of ?raw'] has_mode_prefix_def layout_simps subrange_def)
  moreover have "faketls_hostname ?raw' = Some (as_bytes d)"
    using assms(3,6) Some by (auto simp: faketls_hostname_def layout_simps)
  ultimately show ?thesis using Some by auto
qed



text \<open>A network of one stream on which every connect and write succeeds, whose peer answers with a short server flight; its
  state is what has been written.\<close>

definition recording :: "(bytes, unit, unit) proxy_env" where
  "recording =
     pool_env.extend (with_runtime 2 55 (\<lambda>_ w. (False, w)) (runtime_new
       \<lparr>tcp_connect_op = (\<lambda>addr w. (Some (Inr (), 0), [])),
        http_connect_op = (\<lambda>st h p c w. (None, w)),
        socks5_connect_op = (\<lambda>a t c w. (None, w)),
        lookup_host_op = (\<lambda>h p w. (None, w)),
        request_error = (\<lambda>u. None),
        server_name_ok = (\<lambda>n. True),
        e_tls = example_tls,
        tls_connect_op = (\<lambda>cfg n st w. (None, w)),
        ws_client_op = (\<lambda>r st w. (None, w)),
        ws_client_tls_op = (\<lambda>b r st w. (None, w)),
        e_crates = no_crates,
        e_outbound = outbound_direct\<rparr>))
     (proxy_env.fields example_prims lower_hex (\<lambda>w. (Some (replicate 200 1, 0), w)) (\<lambda>c. of_nat (c div 1000))
       (\<lambda>st d w. (Some (Inr (), 0), w @ d))
       (\<lambda>st w. (Some (tls_record 0x16 3 3 [2] @ tls_record 0x14 3 3 [1] @ tls_record 0x17 3 3 [9], 0), w)))"

lemma recording_simps [simp]:
  "p_prims recording = example_prims" "p_hex recording = lower_hex" "e_outbound recording = outbound_direct"
  "unix_time recording now = of_nat (now div 1000)"
  "random_op recording = (\<lambda>w. (Some (replicate 200 1, 0), w))"
  "write_op recording st d = (\<lambda>w. (Some (Inr (), 0), w @ d))"
  "tcp_connect_op recording a = (\<lambda>w. (Some (Inr (), 0), []))"
  "http_connect_op recording st h p c = (\<lambda>w. (None, w))"
  "socks5_connect_op recording a target c = (\<lambda>w. (None, w))"
  "flight_op recording st = (\<lambda>w. (Some (tls_record 0x16 3 3 [2] @ tls_record 0x14 3 3 [1] @ tls_record 0x17 3 3 [9], 0), w))"
  by (simp_all add: recording_def with_runtime_def runtime_new_def env.extend_def rt_env.extend_def
      pool_env.extend_def pool_env.fields_def proxy_env.fields_def)

lemma recording_drained:
  "drain_faketls_server_hello (tls_record 0x16 3 3 [2] @ tls_record 0x14 3 3 [1] @ tls_record 0x17 3 3 [9]) = (True, [])"
proof -
  have "drain_loop (Suc (Suc (Suc n))) (tls_record 0x16 3 3 [2] @ tls_record 0x14 3 3 [1] @ tls_record 0x17 3 3 [9]) = (True, [])"
    for n
    using drain_loop_record [where p = "[9]" and rest = "[]" and t = "0x17"]
    by (simp add: drain_loop_record layout_simps del: drain_loop.simps)
  from this [of 17] show ?thesis by (simp add: drain_faketls_server_hello_def layout_simps del: drain_loop.simps)
qed

lemma recording_writes: "write_records recording st cs s =
   (Some (Inr ()), s\<lparr>net := net s @ concat (map (\<lambda>c. appdata_header (length c) @ c) cs)\<rparr>)"
  by (induction cs arbitrary: s) (simp_all add: io_result_def io_bind_def io_return_def perform_def)

definition chained_config :: config where
  "chained_config = example_client_config\<lparr>c_listen_faketls_domain := Some ''a.b''\<rparr>"

definition chained_link :: string where
  "chained_link = hex_encode lower_hex (0xee # example_secret @ as_bytes ''a.b'')"

lemma chained_config_simps:
  "secret_bytes_list lower_hex chained_config = Done [example_secret]"
  "listen_faketls_domain lower_hex chained_config = Some ''a.b''"
  "link_secret lower_hex chained_config = Done chained_link"
  "hex_decode lower_hex chained_link = Some (0xee # example_secret @ as_bytes ''a.b'')"
  "secret_key (0xee # example_secret @ as_bytes ''a.b'') = example_secret"
  "faketls_hostname (0xee # example_secret @ as_bytes ''a.b'') = Some (as_bytes ''a.b'')"
  "from_utf8 (as_bytes ''a.b'') = Some ''a.b''"
  by code_simp+

lemma recording_connects:
  "\<exists>conn t. connect_mtproto_upstream recording host port chained_link 2 Abridged limit \<lparr>clock = 0, net = []\<rparr> = (Some (Some conn), t)
     \<and> uc_faketls conn"
proof -
  have "\<not> reserved_init (replicate 64 1)" by code_simp
  then obtain h enc dec where g: "generate_client_handshake example_prims example_secret 2 Abridged (replicate 64 1 @ replicate 136 1)
      = Done ((h, enc, dec), replicate 136 1)"
    using generate_client_handshake_accepts [OF example_prims_ok, of "replicate 64 1" example_secret 2 Abridged "replicate 136 1"]
    by fastforce
  have b: "build_faketls_client_hello ''a.b'' (replicate 136 1)
      = Done (client_hello_record (as_bytes ''a.b'') (replicate 32 1), replicate 104 1)"
    by (simp add: build_faketls_client_hello_def fill_bytes_def)
  have "valid_string ''a.b''" by code_simp
  then obtain hello where "sign_faketls_client_hello example_prims 0 (client_hello_record (as_bytes ''a.b'') (replicate 32 1)) example_secret
      = Done hello"
    using signed_hello_parses [OF example_prims_ok, of "''a.b''" "replicate 32 1" 0 example_secret] by auto
  then show ?thesis
    using g b
    by (simp add: connect_mtproto_upstream_def chained_config_simps recording_drained recording_writes Let_def
        io_bind_def io_return_def io_run_def io_get_def perform_def timeout_def outbound_connect_def outbound_direct_def connect_direct_def
        connect_tcp_def io_result_def classify_connect_def flip: replicate_add)
qed


end
