(* ===== verification/Session_Type.thy ===== *)
theory Session_Type
  imports Session
begin

text \<open>
  The type of a running session: what the records of \<open>Bridge\<close> cannot say in their field types but \<open>rust/src/proxy.rs\<close>
  relies on, from the ciphers of step 3 to the last write of the relay tasks.
\<close>

section \<open>Well-formed bridges\<close>

definition cipher_ok :: "aes_ctr256 \<Rightarrow> bool" where
  "cipher_ok c \<longleftrightarrow> length (ctr_key c) = 32 \<and> length (ctr_iv c) = 16"

fun link_in_step :: "aes_ctr256 \<Rightarrow> link \<Rightarrow> bool" where
  "link_in_step tg (WsLink (Some s)) \<longleftrightarrow>
     (if sp_disabled s then sp_cipher_buf s = [] \<and> sp_plain_buf s = []
      else sp_dec s = tg \<and> length (sp_plain_buf s) = length (sp_cipher_buf s))"
| "link_in_step tg _ \<longleftrightarrow> True"

fun is_ws :: "link \<Rightarrow> bool" where
  "is_ws (WsLink s) = True"
| "is_ws _ = False"

fun faces :: "link \<Rightarrow> source \<Rightarrow> bool" where
  "faces (WsLink s) (WsSource items) = True"
| "faces (RelayLink f) (RelaySource g inp) = (f = g)"
| "faces TcpLink (TcpSource inp) = True"
| "faces _ _ = False"

fun same_disguise :: "client_reader \<Rightarrow> client_writer \<Rightarrow> bool" where
  "same_disguise (ReaderPlain inp) w \<longleftrightarrow> w = WriterPlain"
| "same_disguise (ReaderFakeTls inp pending) w \<longleftrightarrow> w = WriterFakeTls"

definition uploader_ok :: "uploader \<Rightarrow> bool" where
  "uploader_ok u \<longleftrightarrow>
     cipher_ok (up_clt_dec u) \<and> cipher_ok (up_tg_enc u)
     \<and> ctr_pos (up_clt_dec u) = ctr_pos (up_tg_enc u) \<and> HANDSHAKE_LEN \<le> ctr_pos (up_tg_enc u)
     \<and> link_in_step (up_tg_enc u) (up_link u)
     \<and> (case up_phase u of Writing ps n \<Rightarrow> ps \<noteq> [] \<and> 0 < n | Flushing ps \<Rightarrow> is_ws (up_link u) | _ \<Rightarrow> True)"

definition downloader_ok :: "downloader \<Rightarrow> bool" where
  "downloader_ok d \<longleftrightarrow>
     cipher_ok (dn_tg_dec d) \<and> cipher_ok (dn_clt_enc d) \<and> ctr_pos (dn_tg_dec d) = ctr_pos (dn_clt_enc d)
     \<and> (case dn_phase d of Writing ps n \<Rightarrow> ps \<noteq> [] | Flushing ps \<Rightarrow> False | _ \<Rightarrow> True)"

definition bridge_ok :: "bridge \<Rightarrow> bool" where
  "bridge_ok b \<longleftrightarrow>
     uploader_ok (br_up b) \<and> downloader_ok (br_down b)
     \<and> faces (up_link (br_up b)) (dn_source (br_down b)) \<and> same_disguise (up_reader (br_up b)) (dn_writer (br_down b))"

section \<open>The tasks keep it\<close>

lemma cipher_ok_pos [simp]: "cipher_ok (c\<lparr>ctr_pos := n\<rparr>) = cipher_ok c"
  by (simp add: cipher_ok_def)

lemma trim_keeps [simp]:
  "sp_dec (trim_idle_buffers s) = sp_dec s" "sp_disabled (trim_idle_buffers s) = sp_disabled s"
  "sp_plain_buf (trim_idle_buffers s) = sp_plain_buf s" "sp_cipher_buf (trim_idle_buffers s) = sp_cipher_buf s"
  by (simp_all add: trim_idle_buffers_def Let_def)

lemma link_in_step_split:
  assumes "link_in_step tg (WsLink (Some s))" "xs \<noteq> []"
  shows "link_in_step (tg\<lparr>ctr_pos := ctr_pos tg + length xs\<rparr>) (WsLink (Some (snd (split_msg P s xs))))"
  using assms by (auto simp: split_msg_def Let_def split: option.split)

lemma link_in_step_pieces:
  assumes "link_in_step tg l" "xs \<noteq> []"
  shows "link_in_step (tg\<lparr>ctr_pos := ctr_pos tg + length xs\<rparr>) (snd (upload_pieces P l xs))"
  using assms link_in_step_split by (cases "(P, l, xs)" rule: upload_pieces.cases) (simp_all add: Let_def)

lemma is_ws_pieces [simp]: "is_ws (snd (upload_pieces P l xs)) = is_ws l"
  by (cases "(P, l, xs)" rule: upload_pieces.cases) (simp_all add: Let_def)

lemma faces_pieces [simp]: "faces (snd (upload_pieces P l xs)) src = faces l src"
  by (cases "(P, l, xs)" rule: upload_pieces.cases; cases src) (simp_all add: Let_def)

lemma faces_read [simp]: "faces l (snd (download_read n src)) = faces l src"
  by (cases l; cases "(n, src)" rule: download_read.cases) (simp_all add: Let_def)

lemma disguise_read [simp]: "same_disguise (snd (client_read k n r)) w = same_disguise r w"
  by (cases "(k, n, r)" rule: client_read.cases) (simp_all add: Let_def)

lemma link_in_step_flush: "link_in_step tg (WsLink (Some s)) \<Longrightarrow> link_in_step tg (WsLink (Some (snd (flush s))))"
  by (auto simp: flush_def split: if_splits)

lemma uploader_ok_sent:
  assumes "uploader_ok (u\<lparr>up_phase := Reading\<rparr>)" "0 < n"
  shows "uploader_ok (upload_sent n ps u)"
  using assms by (simp add: upload_sent_def uploader_ok_def)

lemma uploader_ok_stop:
  assumes "uploader_ok (u\<lparr>up_phase := Reading\<rparr>)"
  shows "uploader_ok (upload_stop u)"
  using assms link_in_step_flush [of "up_tg_enc u"]
  by (auto simp: upload_stop_def uploader_ok_def Let_def split: link.split option.split)

lemma uploader_ok_read:
  assumes "uploader_ok u" "up_phase u = Reading"
  shows "uploader_ok (upload_read P ready u)"
proof -
  let ?r = "client_read CLIENT_READ_BUF_SIZE ready (up_reader u)"
  show ?thesis
  proof (cases "fst ?r = []")
    case True
    with assms show ?thesis
      by (simp add: upload_read_def Let_def) (rule uploader_ok_stop, simp add: uploader_ok_def)
  next
    case False
    let ?xs = "fst (apply_keystream P (up_tg_enc u) (fst (apply_keystream P (up_clt_dec u) (fst ?r))))"
    have "?xs \<noteq> []" using False by (metis length_apply_keystream length_0_conv)
    then show ?thesis
      using assms False link_in_step_pieces [of "up_tg_enc u" "up_link u" ?xs P]
      by (auto simp: upload_read_def Let_def intro!: uploader_ok_sent) (simp add: uploader_ok_def)
  qed
qed

lemma uploader_ok_step: "uploader_ok u \<Longrightarrow> uploader_ok (upload_step P ev u)"
  using uploader_ok_read [of u P] uploader_ok_stop [of u]
  by (auto simp: upload_step_def uploader_ok_sent split: phase.split list.split event.split)
     (auto simp: uploader_ok_def upload_sent_def split: phase.splits)

lemma downloader_ok_step: "downloader_ok d \<Longrightarrow> downloader_ok (download_step P ev d)"
  by (auto simp: download_step_def download_received_def download_sent_def downloader_ok_def Let_def
      split: phase.splits list.splits event.splits incoming.splits)

lemma faces_up [simp]: "faces (up_link (upload_step P ev u)) src = faces (up_link u) src"
  by (cases src)
     (simp_all add: upload_step_def upload_read_def upload_stop_def upload_sent_def Let_def
       split: phase.split list.split event.split link.split option.split)

lemma reader_up [simp]: "same_disguise (up_reader (upload_step P ev u)) w = same_disguise (up_reader u) w"
  by (simp add: upload_step_def upload_read_def upload_stop_def upload_sent_def Let_def
      split: phase.split list.split event.split link.split option.split)

lemma faces_down [simp]: "faces l (dn_source (download_step P ev d)) = faces l (dn_source d)"
  by (simp add: download_step_def download_received_def download_sent_def Let_def
      split: phase.split list.split event.split incoming.split)

lemma writer_down [simp]: "dn_writer (download_step P ev d) = dn_writer d"
  by (simp add: download_step_def download_received_def download_sent_def Let_def
      split: phase.split list.split event.split incoming.split)

lemma uploader_ok_abort: "uploader_ok u \<Longrightarrow> uploader_ok (u\<lparr>up_phase := abort_phase p\<rparr>)"
  by (simp add: uploader_ok_def abort_phase_def)

lemma downloader_ok_abort: "downloader_ok d \<Longrightarrow> downloader_ok (d\<lparr>dn_phase := abort_phase p\<rparr>)"
  by (simp add: downloader_ok_def abort_phase_def)

lemma bridge_ok_step: "bridge_step P b b' \<Longrightarrow> bridge_ok b \<Longrightarrow> bridge_ok b'"
  by (induction rule: bridge_step.induct)
     (simp_all add: bridge_ok_def uploader_ok_step downloader_ok_step uploader_ok_abort downloader_ok_abort)

lemma bridge_ok_reach: "bridge_reach P b0 b \<Longrightarrow> bridge_ok b0 \<Longrightarrow> bridge_ok b"
  by (induction rule: bridge_reach.induct) (auto intro: bridge_ok_step)

section \<open>Sessions start with it\<close>

definition paired :: "aes_ctr256 \<Rightarrow> aes_ctr256 \<Rightarrow> bool" where
  "paired enc dec \<longleftrightarrow> cipher_ok enc \<and> cipher_ok dec \<and> ctr_pos enc = HANDSHAKE_LEN \<and> ctr_pos dec = 0"

lemma start_bridge_ok:
  assumes "paired (clt_dec c) (clt_enc c)" "paired (tg_enc c) (tg_dec c)" "same_disguise reader writer"
    and "faces link source" "link_in_step (tg_enc c) link"
  shows "bridge_ok (start_bridge reader writer c link source sent)"
  using assms by (simp add: bridge_ok_def start_bridge_def uploader_ok_def downloader_ok_def paired_def)

lemma make_cipher_Done: "make_cipher k iv = Done c \<Longrightarrow> cipher_ok c \<and> ctr_pos c = 0"
  by (auto simp: make_cipher_def cipher_ok_def split: if_splits)

lemma built_ciphers_ok:
  assumes "build_connection_ciphers P prekey secret relay_init = Done c"
  shows "paired (clt_dec c) (clt_enc c) \<and> paired (tg_enc c) (tg_dec c)"
  using assms by (auto simp: build_connection_ciphers_def Let_def run_bind_eq_Done paired_def dest!: make_cipher_Done)

lemma splitter_starts_in_step:
  assumes "build_connection_ciphers P prekey secret relay_init = Done c" "splitter_new P relay_init proto = Done s"
  shows "link_in_step (tg_enc c) (WsLink (Some s))"
  using assms by (auto simp: build_connection_ciphers_def splitter_new_def Let_def run_bind_eq_Done)

lemma upstream_paired:
  assumes "prims_ok (p_prims E)"
    and "connect_mtproto_upstream E host port secret_hex dc_idx proto limit s = (Some (Some conn), t)"
  shows "paired (uc_enc conn) (uc_dec conn)"
proof (rule upstream_opened [OF assms(2)])
  fix secret h rng rest
  assume "generate_client_handshake (p_prims E) (secret_key secret) dc_idx proto rng = Done ((h, uc_enc conn, uc_dec conn), rest)"
  from generated_handshake_ciphers [OF assms(1) _ this, of "replicate 64 0"] show ?thesis
    by (auto simp: layout_simps dest: built_ciphers_ok)
qed

text \<open>Of an upstream only the ciphers of a further proxy matter; \<open>keeps (\<lambda>_. True)\<close> speaks of results alone.\<close>

definition upstream_ok :: "('st, 'ws) upstream option \<Rightarrow> bool" where
  "upstream_ok u \<longleftrightarrow> (\<forall>conn. u = Some (UpstreamMtproto conn) \<longrightarrow> paired (uc_enc conn) (uc_dec conn))"

lemma upstream_ok_simps [simp]:
  "upstream_ok None" "upstream_ok (Some (UpstreamWs ws how))" "upstream_ok (Some (UpstreamTcp ip))"
  "upstream_ok (Some (tcp_last_resort R ip))" "upstream_ok (Some (tcp_fallback ip))"
  by (simp_all add: upstream_ok_def tcp_last_resort_def tcp_fallback_def)

lemma keeps_result: "(\<And>s x t. m s = (Some x, t) \<Longrightarrow> P x) \<Longrightarrow> keeps (\<lambda>_. True) P m"
  unfolding keeps_def by (metis prod.collapse)

lemma upstream_loop_ok:
  assumes "prims_ok (p_prims E)"
  shows "keeps (\<lambda>_. True) (\<lambda>r. \<forall>conn. r = Some conn \<longrightarrow> paired (uc_enc conn) (uc_dec conn)) (upstream_loop E R us)"
proof (induction us)
  case (Cons u us)
  have "keeps (\<lambda>_. True) (\<lambda>r. \<forall>conn. r = Some conn \<longrightarrow> paired (uc_enc conn) (uc_dec conn))
      (connect_mtproto_upstream E (mp_host u) (mp_port u) (mp_secret u) dc_idx proto limit)" for dc_idx proto limit
    by (rule keeps_result) (use upstream_paired [OF assms] in blast)
  with Cons show ?case
    unfolding upstream_loop.simps Let_def
    by (intro keeps_then [OF keeps_get] keeps_if keeps_bind [where Q = "\<lambda>r. \<forall>conn. r = Some conn \<longrightarrow> paired (uc_enc conn) (uc_dec conn)"]
        keeps_case_option keeps_then [OF keeps_update] keeps_return) auto
qed (simp add: keeps_return)

lemma cf_tiers_ok: "keeps (\<lambda>_. True) upstream_ok (cf_tiers E R dst)"
  unfolding cf_tiers_def
  by (intro keeps_then [OF keeps_result] keeps_case_option keeps_return) (auto simp: upstream_ok_def)

lemma fallback_chain_ok:
  assumes "prims_ok (p_prims E)"
  shows "keeps (\<lambda>_. True) upstream_ok (fallback_chain E R dst skip_cf)"
  unfolding fallback_chain_def upstream_proxies_def
  by (rule keeps_bind [of _ upstream_ok])
     (auto intro!: keeps_if cf_tiers_ok keeps_return keeps_case_option keeps_bind [OF upstream_loop_ok [OF assms]]
       simp: upstream_ok_def)

lemma select_upstream_ok:
  assumes "prims_ok (p_prims E)"
  shows "keeps (\<lambda>_. True) upstream_ok (select_upstream E R target)"
proof -
  have or_else: "upstream_ok u \<Longrightarrow> upstream_ok (Some (or_else (tcp_last_resort R ip) u))"
    "upstream_ok u \<Longrightarrow> upstream_ok (Some (or_else (tcp_fallback ip) u))" for u ip
    by (auto simp: or_else_def split: option.split)
  have early: "keeps (\<lambda>_. True) upstream_ok (if b then cf_tiers E R ip else io_return None)"
    "keeps (\<lambda>_. True) upstream_ok (if b then fallback_chain E R ip skip else io_return None)" for b ip skip
    by (auto intro: keeps_return cf_tiers_ok fallback_chain_ok [OF assms])
  show ?thesis
    unfolding select_upstream_def Let_def
    by (intro keeps_case_option keeps_return or_else keeps_bind [OF fallback_chain_ok [OF assms]]
        keeps_bind [OF early(1)] keeps_bind [OF early(2)] keeps_then [OF keeps_get] keeps_if
        keeps_then [OF keeps_result [of "pool_then_direct _ _ _"]]) simp_all
qed

definition outcome_ok :: "outcome \<Rightarrow> bool" where
  "outcome_ok r \<longleftrightarrow> (\<forall>b. r = Bridged b \<longrightarrow> bridge_ok b)"

lemma keeps_run: "(\<And>x. r = Done x \<Longrightarrow> P x) \<Longrightarrow> keeps (\<lambda>_. True) P (io_run r)"
  by (rule keeps_result) (simp add: io_run_Some)

lemma start_upstream_ok:
  assumes "build_connection_ciphers (p_prims E) prekey secret relay_init = Done c" "same_disguise reader writer"
    and "upstream_ok (Some u)"
  shows "keeps (\<lambda>_. True) outcome_ok (start_upstream E R reader writer relay_init c u)"
proof (cases u)
  case (UpstreamWs ws how)
  have "bridge_ok b" if "bridge_ws (p_prims E) reader writer sent items packets relay_init c (rt_proto R) = Done (Some b)"
    for sent items packets b
    using that assms built_ciphers_ok [OF assms(1)] splitter_starts_in_step [OF assms(1)]
    by (auto simp: bridge_ws_def run_bind_eq_Done intro!: start_bridge_ok split: if_splits)
  then show ?thesis
    unfolding start_upstream_def UpstreamWs upstream.case
    by (intro keeps_then [OF keeps_result] keeps_bind [OF keeps_run [of _ "\<lambda>x. \<forall>b. x = Some b \<longrightarrow> bridge_ok b"]] keeps_return)
       (auto simp: outcome_ok_def outcome_of_def split: option.split)
next
  case (UpstreamMtproto conn)
  then show ?thesis
    using assms built_ciphers_ok [OF assms(1)]
    unfolding start_upstream_def
    by (auto intro!: keeps_then [OF keeps_get] keeps_return start_bridge_ok simp: outcome_ok_def upstream_ok_def bridge_relay_def)
next
  case (UpstreamTcp dst)
  then show ?thesis
    using assms built_ciphers_ok [OF assms(1)]
    unfolding start_upstream_def connect_bridge_tcp_def
    by (auto intro!: keeps_then [OF keeps_result] keeps_case_sum keeps_return start_bridge_ok
        simp: outcome_ok_def bridge_tcp_def outcome_of_def split: if_splits)
qed

lemma serve_client_ok:
  assumes "prims_ok (p_prims E)" "same_disguise (fst halves) (snd halves)"
  shows "keeps (\<lambda>_. True) outcome_ok (serve_client E c halves matched)"
  unfolding serve_client_def Let_def
  by (intro keeps_then [OF keeps_result [of "perform _"]] keeps_then [OF keeps_result [of "io_run (generate_relay_init _ _ _ _)"]]
      keeps_bind [OF keeps_run] keeps_bind [OF select_upstream_ok [OF assms(1)]] keeps_case_option keeps_return
      start_upstream_ok [OF _ assms(2)])
     (auto simp: outcome_ok_def)

lemma handle_client_ok:
  assumes "prims_ok (p_prims E)"
  shows "keeps (\<lambda>_. True) outcome_ok (handle_client_with_runtime E c st)"
  unfolding handle_client_with_runtime_def after_handshake_def Let_def
  by (auto intro!: keeps_then [OF keeps_result] keeps_case_option keeps_return serve_client_ok [OF assms]
      simp: outcome_ok_def client_halves_def split: prod.split)

section \<open>Property\<close>

text \<open>(C7) A session is well typed from its first step to its last. In every state of every bridged session the four ciphers have
  32-byte keys and 16-byte IVs; the two ciphers of a direction are at the same position, past the
  init on the way up; a splitter that is still splitting is exactly at the relay encryptor's position
  with one plaintext byte for each buffered byte, and one that gave up holds nothing; the two tasks talk to the same kind
  of upstream in the same framing, and to the client in one disguise; a pending write has at
  least one piece, and only a WebSocket is flushed and closed.\<close>

theorem sessions_well_typed:
  assumes "prims_ok (p_prims E)" and "handle_client_with_runtime E c st s = (Some (Bridged b0), t)"
    and "bridge_reach (p_prims E) b0 b"
  shows "bridge_ok b"
proof -
  have "outcome_ok (Bridged b0)" using keepsD [OF handle_client_ok [OF assms(1)] TrueI assms(2)] by blast
  then show ?thesis using bridge_ok_reach [OF assms(3)] by (simp add: outcome_ok_def)
qed

text \<open>A session to a data centre, after the upload task's first read.\<close>

theorem sessions_well_typed_witness:
  "\<exists>h b0 t. handle_client_with_runtime (example_session h [7, 8]) example_client_config () fresh_proxy = (Some (Bridged b0), t)
     \<and> up_link (br_up b0) = TcpLink \<and> bridge_ok (b0\<lparr>br_up := upload_step example_prims (Go 2) (br_up b0)\<rparr>)"
proof -
  obtain h enc dec where g: "generate_client_handshake example_prims example_secret 2 Abridged (replicate 64 1) = Done ((h, enc, dec), [])"
    by (rule example_handshake)
  from example_session_bridged [OF g, of "[]" "[7, 8]"] obtain b0 t where
      run: "handle_client_with_runtime (example_session h [7, 8]) example_client_config () fresh_proxy = (Some (Bridged b0), t)"
      and b0: "br_closed_by b0 = None" "up_link (br_up b0) = TcpLink" by auto
  have "bridge_reach example_prims b0 (b0\<lparr>br_up := upload_step example_prims (Go 2) (br_up b0)\<rparr>)"
    by (rule bridge_reach.step [OF bridge_reach.start bridge_step.uploads [OF b0(1)]])
  from sessions_well_typed [OF _ run, simplified, OF example_prims_ok this] run b0(2) show ?thesis by blast
qed

end
