(* ===== verification/Spec2Isabelle.thy ===== *)
theory Spec2Isabelle
  imports Server Chain Session_Type
begin

text \<open>
  A verification of tg-ws-proxy (\<open>rust/src\<close>): a local MTProto proxy. A Telegram client connects to it
  with the obfuscated protocol, plain or disguised as TLS; the proxy deciphers the stream, chooses a way to
  the data centre (WebSocket, Cloudflare, another MTProto proxy, TCP), enciphers the stream again for
  that side and relays both directions until one ends.

  \<^bold>\<open>Theories and sources.\<close>
  \<^item> \<open>Prelude\<close>, \<open>Rust_Io\<close>, \<open>Rust_Str\<close>, \<open>Net\<close>: what the components share. Bytes are \<open>8 word\<close>, Rust integers words
    of their width; \<open>run\<close> is a computation that may panic or starve for random bytes; byte sources
    and sinks; strings as their UTF-8 bytes; asynchronous operations as functions on a state with a
    clock and an opaque network (\<open>io\<close>), where \<open>None\<close> is an operation that never completes.
  \<^item> \<open>Crypto\<close> (\<open>crypto.rs\<close>): protocol tags, secrets, handshake parsing, relay init, client handshake, the four
    ciphers of a connection.
  \<^item> \<open>Splitter\<close> (\<open>splitter.rs\<close>): the state \<open>msg_splitter\<close> that cuts the relayed stream into one MTProto packet
    per WebSocket message.
  \<^item> \<open>Faketls\<close> (\<open>faketls.rs\<close>): client and server hello, records, Application Data.
  \<^item> \<open>Limits\<close> (\<open>limits.rs\<close>), \<open>Config\<close> (\<open>config.rs\<close>): descriptor budget, settings. \<open>Http\<close> (\<open>default_domains/http.rs\<close>) and
    \<open>Default_Domains\<close> (\<open>default_domains.rs\<close>): the HTTPS client with its size limits and the published domain list.
  \<^item> \<open>Outbound\<close> (\<open>outbound/\<close>): proxy selection and connects. \<open>Tls\<close> (the end of \<open>ws_client.rs\<close>, \<open>build_tls_config\<close> of
    \<open>default_domains/http.rs\<close>): the TLS client configurations and their certificate verifiers. \<open>Ws_Client\<close> (\<open>ws_client.rs\<close>):
    WebSocket connects and their classification. \<open>Runtime\<close> (\<open>runtime.rs\<close>): the fronting window.
  \<^item> \<open>Pool\<close> (\<open>pool.rs\<close>): the pool of idle connections, as sequential operations and as a step relation of
    interleaved refill tasks.
  \<^item> \<open>Cooldown\<close>, \<open>Routing\<close>, \<open>Bridge\<close>, \<open>Session\<close> (\<open>proxy.rs\<close>): failure memory and balancing; the ladder of
    \<open>select_upstream\<close>; the two relay tasks and \<open>join_bridge\<close> as a step relation; the whole of
    \<open>handle_client_with_runtime\<close>. \<open>Session_Log\<close> (the end of \<open>proxy.rs\<close>): the line logged when a session closes.
  \<^item> \<open>Check\<close> (\<open>check.rs\<close>): the connectivity probes and their verdict. \<open>Banner\<close> and \<open>Server\<close> (\<open>main.rs\<close>): the connection cap and the
    lines printed at start-up; start-up itself and the accept loop as a step relation over permits and sessions.
  \<^item> \<open>Certificates\<close>, \<open>Session_Type\<close>, \<open>Chain\<close>: properties that span components. Whom a WebSocket belongs to, from the TLS
    verifier through connects, pool and routing; the type of a running session; and one proxy used as the upstream of another.

  \<^bold>\<open>State and operations.\<close> Each Rust struct is a record, each enum a datatype; a method that takes \<open>&mut self\<close> returns
  the updated record. The process-wide state of a running proxy is one record that grows with the theories:
  \<open>sys\<close> (clock, network), then the fronting deadline, then the pool (\<open>pool_state\<close>), then the cooldown maps and
  balance counters (\<open>proxy_state\<close>). Its environment grows alongside: network operations (\<open>net_ops\<close>, \<open>ws_ops\<close>),
  runtime, pool settings, primitives and randomness (\<open>proxy_env\<close>), what the peers of a session send later
  (\<open>session_env\<close>). Crates (AES, SHA-256, HMAC, hex, url, TLS, WebSocket) are fields of these records; the laws used
  of them are the named predicates \<open>prims_ok\<close> and \<open>hex_ok\<close>, with concrete instances \<open>example_prims\<close> and \<open>lower_hex\<close>, and, for the
  network, \<open>rustls_verifies\<close> (a handshake completes only under a chain its verifier accepts for the host of the URL, stated for plainly
  spelt hosts) and \<open>records_writes\<close> (what was written to a stream), with the instances \<open>answering_proxy\<close> and \<open>recording\<close>;
  \<open>filter_levels\<close> is what is used of the log subscriber's filter, with the instance \<open>example_os\<close>. Operations are composed in the monad \<open>io\<close>; \<open>keeps\<close> is its
  invariant calculus and the lemmas on \<open>forward\<close> and time its timing calculus (both in \<open>Net\<close>).

  \<^bold>\<open>Interfaces.\<close> The locales state what one part relies on from another and are interpreted on the model's own
  definitions: \<open>stream_cipher\<close> (the AES counter cipher, and the decipher-encipher pair of a relay task),
  \<open>length_prefixed\<close> (the three transport framings), \<open>record_layer\<close> (TLS records), \<open>backoff\<close> (cooldown maps),
  \<open>chunked_source\<close> (sockets, record streams and client readers read in pieces).

  \<^bold>\<open>What is shown.\<close> Handshakes: round trips of generation and parsing, ciphers mirrored on both ends, the generators
  return. Disguise: only signed hellos are accepted, hellos and records round-trip, the server hello is drained exactly.
  Splitter: it refines an abstract framing, conserves bytes, sends one packet of the transport format per message, releases memory. Connects and
  routing: the ladder returns within the sum of the timeouts of its rungs, upstream MTProto proxies excepted, whose attempts must come
  back by themselves because the code bounds only their TCP connect; retries and precedence are as documented, balancing is fair, an opaque
  tunnel is only used behind a Worker. Pool: budgets and exclusive refills in every interleaving, freshness of what it hands out.
  Bridges: in every interleaving of the two tasks, with failures and aborts, each side receives a prefix of what the other
  sent, an upload always ends and, without failures, delivers everything; closing leaves no task behind. Sessions: only
  clients with a configured secret are bridged, a probe gets no byte, and a bridged session stays well typed: its ciphers are in step in
  every state. Certificates: with verification on, routing and pool only ever hold WebSockets of servers that proved one of the
  intended names. Start-up: a proxy that listens has a secret, a route, an address and has logged its links unless the
  log is filtered; the accept loop keeps to its cap, and an automatic cap to a descriptor limit that has room for the minimum of four connections. Chaining: what a printed link makes another instance write is what this one
  accepts. The HTTP client decodes chunked bodies however they are cut and returns only delimited,
  bounded bodies; the domain fetch ends with domains of the real suffix once its request is
  written; a Worker passes the check only if its tunnel held. Finally (in this theory) client and data centre decipher each
  other's bytes through the whole program.

  \<^bold>\<open>Reference specifications.\<close> Where the code computes something a document or a comment describes, the description is written
  down on its own and the code is proved against it: \<open>transport_packet\<close> (the three MTProto transport encodings), \<open>framing\<close> (a whole stream cut
  into packets), \<open>walk_zones\<close> (the order of Cloudflare attempts), \<open>orders\<close> (connections drawing from one balance counter),
  \<open>write_chunks\<close> and \<open>size_line\<close> (the chunked coding), \<open>obfuscate\<close> (the encoding of the domain list), \<open>last_event\<close> (a
  history of failures and successes).

  \<^bold>\<open>Bounds and fuel.\<close> No definition runs on fuel: loops are structural or have a termination proof on the bytes, domains
  or attempts that are left. The draws of random bytes are a finite list; \<open>generators_return\<close> shows when it is enough.
  Operations on the network may never complete; what the code wraps in a timeout is proved to return. The clock counts
  milliseconds as a natural number.

  \<^bold>\<open>Not modelled.\<close> The log calls on the connect and routing paths, whose text depends on nothing the program decides later (the
  lines of start-up and of a closing session are modelled); \<open>set_nodelay\<close>. Library code the sources only call: the cryptographic primitives,
  TLS (rustls), the WebSocket protocol (tungstenite), HTTP header parsing (httparse), command-line parsing (clap), the log
  subscriber (tracing) and the async runtime's scheduler, of which only the interleaving of tasks at await points is used.
\<close>

section \<open>From the client to Telegram\<close>

text \<open>(C1) The proxy is a faithful relay from end to end. A client that holds the configured secret opens the
  obfuscated protocol for some transport and data centre and enciphers \<open>pt\<close>; whatever part of it comes
  with the handshake, the session bridges it to a data centre reached by WebSocket or TCP. Then at every
  moment of every run of that bridge, a data centre that takes its keys from the first 64 bytes
  it received deciphers the client's transport tag, the client's data centre index and a prefix of
  \<open>pt\<close>; and the client deciphers, with the cipher it made at the start, a prefix of what the
  data centre enciphered.\<close>

theorem client_reaches_telegram:
  assumes "prims_ok (p_prims E)" and "secret_bytes_list (p_hex E) c = Done [secret]"
    and "listen_faketls_domain (p_hex E) c = None"
    and "generate_client_handshake (p_prims E) secret dc_idx proto rng = Done ((h, enc, dec), rest)"
    and "flight_op E st (net s) = (Some (h @ x, d), w)"
    and "x @ client_later E st w = fst (apply_keystream (p_prims E) enc pt)"
    and "handle_client_with_runtime E c st s = (Some (Bridged b0), t)" and "up_out (br_up b0) = [r]"
    and "bridge_reach (p_prims E) b0 b"
  shows "\<exists>tg_in tg_out. make_cipher (subrange 8 40 r) (subrange 40 56 r) = Done tg_in
    \<and> make_cipher (take 32 (rev (subrange 8 56 r))) (drop 32 (rev (subrange 8 56 r))) = Done tg_out
    \<and> (let seen = fst (apply_keystream (p_prims E) tg_in (received False (up_out (br_up b)))) in
        proto_from_bytes (subrange 56 60 seen) = Some proto
        \<and> i16_from_le (seen ! 60) (seen ! 61) = dc_idx \<and> prefix (drop 64 seen) pt)
    \<and> prefix (fst (apply_keystream (p_prims E) dec (received False (dn_out (br_down b)))))
        (fst (apply_keystream (p_prims E) tg_out (source_payload (dn_source (br_down b0)))))"
proof -
  let ?P = "p_prims E"
  obtain rng' rest' cs where g: "generate_relay_init ?P proto dc_idx rng' = Done (r, rest')"
    and cs: "build_connection_ciphers ?P (subrange 8 56 h) secret r = Done cs" "clt_dec cs = enc" "clt_enc cs = dec"
    and b0: "started ?P (ReaderPlain (x @ client_later E st w)) WriterPlain cs b0" "up_link (br_up b0) \<noteq> RelayLink True"
    by (rule plain_client_bridged [OF assms(1-5,7,8)])
  define tg_in where "tg_in = \<lparr>ctr_key = subrange 8 40 r, ctr_iv = subrange 40 56 r, ctr_pos = 0\<rparr>"
  have len: "length r = 64" and init: "proto_from_bytes (subrange 56 60 (fst (apply_keystream ?P tg_in r))) = Some proto"
      "i16_from_le (fst (apply_keystream ?P tg_in r) ! 60) (fst (apply_keystream ?P tg_in r) ! 61) = dc_idx"
    using relay_init_plaintext [OF g] by (auto simp: layout_simps tg_in_def)
  note tg = tg_ciphers [OF cs(1) len]
  note pipes = bridge_pipes [OF b0(1) assms(9), unfolded cs assms(8) tg reader_payload.simps assms(6) aes.crypt_undo]
  have "prefix r (received False (up_out (br_up b)))"
    using bridge_reach_keeps_sent [OF assms(9)] assms(8) by (auto simp: received_def prefix_def)
  then have up: "take 64 (fst (apply_keystream ?P tg_in (received False (up_out (br_up b))))) = fst (apply_keystream ?P tg_in r)"
      "prefix (drop 64 (fst (apply_keystream ?P tg_in (received False (up_out (br_up b)))))) pt"
    using relay_stream_plaintext [OF len tg_in_def] pipes(1) b0(2) by simp_all
  let ?seen = "fst (apply_keystream ?P tg_in (received False (up_out (br_up b))))"
  have seen: "subrange 56 60 ?seen = subrange 56 60 (take 64 ?seen)" "?seen ! 60 = take 64 ?seen ! 60" "?seen ! 61 = take 64 ?seen ! 61"
    by (simp_all add: subrange_def drop_take min_def)
  have down: "prefix (fst (apply_keystream ?P dec (received False (dn_out (br_down b)))))
      (fst (apply_keystream ?P (tg_dec cs) (source_payload (dn_source (br_down b0)))))"
    using apply_keystream_prefix [OF pipes(2), of ?P dec] by (simp add: aes.crypt_undo tg)
  show ?thesis
    using up init down len tg(2) by (simp add: seen Let_def flip: tg_in_def)
qed

theorem client_reaches_telegram_witness:
  "\<exists>h b0 t b r tg_in. handle_client_with_runtime (example_session (h @ [3]) [1, 4]) example_client_config () fresh_proxy
        = (Some (Bridged b0), t)
     \<and> bridge_reach example_prims b0 b \<and> up_phase (br_up b) = Ended
     \<and> up_out (br_up b0) = [r] \<and> make_cipher (subrange 8 40 r) (subrange 40 56 r) = Done tg_in
     \<and> (let seen = fst (apply_keystream example_prims tg_in (received False (up_out (br_up b)))) in
        proto_from_bytes (subrange 56 60 seen) = Some Intermediate \<and> i16_from_le (seen ! 60) (seen ! 61) = 2)"
proof -
  obtain h enc dec where h: "generate_client_handshake example_prims example_secret 2 Intermediate (replicate 64 1)
      = Done ((h, enc, dec), [])"
    by (rule example_handshake)
  from example_session_bridged [OF this, of "[3]" "[1, 4]"] obtain b0 t r where
    b0: "handle_client_with_runtime (example_session (h @ [3]) [1, 4]) example_client_config () fresh_proxy = (Some (Bridged b0), t)"
    and n: "br_closed_by b0 = None" "up_out (br_up b0) = [r]" "up_link (br_up b0) = TcpLink"
    by auto
  let ?b = "b0\<lparr>br_up := upload_run example_prims (replicate (upload_weight (br_up b0)) (Go 1)) (br_up b0)\<rparr>"
  have r: "bridge_reach example_prims b0 ?b" by (rule bridge_reach_uploads [OF n(1)])
  have "up_phase (br_up b0) \<noteq> Aborted"
    by (rule handle_client_Bridged [OF b0], erule started_bridge) (simp add: start_bridge_def)
  then have e: "up_phase (br_up ?b) = Ended"
    using upload_run_ends [of "br_up b0"] n(3) by simp
  have pt: "[3] @ [1, 4] = fst (apply_keystream example_prims enc (fst (apply_keystream example_prims enc ([3] @ [1, 4]))))"
    by (simp only: aes.crypt_undo)
  note seen = client_reaches_telegram [where E = "example_session (h @ [3]) [1, 4]", unfolded example_session_simps,
      OF example_prims_ok example_client_config_simps h refl pt b0 n(2) r]
  with b0 n(2) r e show ?thesis by (fastforce simp: Let_def)
qed

end
